(* ===== verification/Prelude.thy ===== *)
theory Prelude
  imports Main "HOL-Library.Word" "HOL-Library.Monad_Syntax"
begin

text \<open>
  Shared material of the development: the collections of rewrite rules the component
  theories fill, the names of the machine types, and generic facts on machine words,
  lists and the option monad.

  The model follows the LP64 little-endian ABI the library is built for:
  \<open>int\<close> and \<open>uint32_t\<close> are \<open>32 word\<close>, \<open>size_t\<close>, pointers and pointer differences are
  \<open>64 word\<close>, \<open>char\<close> and \<open>uint8_t\<close> are \<open>8 word\<close>. A signed reading of a word is
  \<open>sint\<close>, an unsigned one \<open>unat\<close>. The widening conversions of C are \<open>scast\<close> (from
  \<open>int\<close>) and \<open>ucast\<close> (from \<open>uint32_t\<close>), the narrowing ones \<open>ucast\<close>.

  An operation that can reach undefined behaviour (an access outside the mapped file, a
  write to a read-only mapping, a recursion that does not return) has an \<open>option\<close> result;
  \<open>None\<close> is that outcome. The \<open>do\<close> notation is the one of the option monad.
\<close>

named_theorems addr_simps \<open>machine addresses written as images of natural numbers\<close>
named_theorems mem_simps \<open>reading a byte map after it was written\<close>
named_theorems store_defs \<open>the definitions of the store's small helpers\<close>

type_synonym byte = "8 word"
type_synonym addr = "64 word"
type_synonym size_t = "64 word"
type_synonym c_int = "32 word"
type_synonym uint32 = "32 word"

subsection \<open>Words as images of natural numbers\<close>

text \<open>
  \<open>W64 n\<close> and \<open>W32 n\<close> are constants of their own, so that the simplifier's arithmetic on
  \<open>of_nat\<close> does not take addresses apart; \<open>addr_simps\<close> computes with them.
\<close>

definition W64 :: "nat \<Rightarrow> 64 word" where
  "W64 n = word_of_nat n"

definition W32 :: "nat \<Rightarrow> 32 word" where
  "W32 n = word_of_nat n"

lemma W64_add [addr_simps]: "W64 a + W64 b = W64 (a + b)"
  by (simp add: W64_def)

lemma W64_mult [addr_simps]: "W64 a * W64 b = W64 (a * b)"
  by (simp add: W64_def)

lemma W64_add_numeral [addr_simps]: "W64 a + numeral k = W64 (a + numeral k)"
  by (simp add: W64_def)

lemma W64_numeral_add [addr_simps]: "numeral k + W64 a = W64 (numeral k + a)"
  by (simp add: W64_def)

lemma W64_mult_numeral [addr_simps]: "W64 a * numeral k = W64 (a * numeral k)"
  by (simp add: W64_def)

lemma W64_numeral_mult [addr_simps]: "numeral k * W64 a = W64 (numeral k * a)"
  by (simp add: W64_def)

lemma W64_add_one [addr_simps]: "W64 a + 1 = W64 (a + 1)"
  by (simp add: W64_def)

lemma W64_numeral: "numeral k = W64 (numeral k)"
  by (simp add: W64_def)

lemma W64_zero: "0 = W64 0"
  by (simp add: W64_def)

lemma W32_numeral: "numeral k = W32 (numeral k)"
  by (simp add: W32_def)

lemma W32_zero: "0 = W32 0"
  by (simp add: W32_def)

lemma W32_one: "1 = W32 1"
  by (simp add: W32_def)

lemma W32_add [addr_simps]: "W32 a + W32 b = W32 (a + b)"
  by (simp add: W32_def)

lemma W32_mult [addr_simps]: "W32 a * W32 b = W32 (a * b)"
  by (simp add: W32_def)

lemma W32_mult_numeral [addr_simps]: "W32 a * numeral k = W32 (a * numeral k)"
  by (simp add: W32_def)

lemma W32_numeral_mult [addr_simps]: "numeral k * W32 a = W32 (numeral k * a)"
  by (simp add: W32_def)

lemma W32_add_one [addr_simps]: "W32 a + 1 = W32 (a + 1)"
  by (simp add: W32_def)

lemma W64_diff: "b \<le> a \<Longrightarrow> W64 a - W64 b = W64 (a - b)"
  by (simp add: W64_def of_nat_diff)

lemma W32_diff_one: "0 < a \<Longrightarrow> W32 a - 1 = W32 (a - 1)"
  by (simp add: W32_def of_nat_diff)

lemma unat_W64 [addr_simps]: "a < 2 ^ 64 \<Longrightarrow> unat (W64 a) = a"
  by (simp add: W64_def unsigned_of_nat take_bit_nat_eq_self)

lemma unat_W32 [addr_simps]: "a < 2 ^ 32 \<Longrightarrow> unat (W32 a) = a"
  by (simp add: W32_def unsigned_of_nat take_bit_nat_eq_self)

lemma unat_plus64: "unat a + unat b < 2 ^ 64 \<Longrightarrow> unat (a + b) = unat a + unat (b :: 64 word)"
  by (simp add: unat_word_ariths)

lemma W64_unat [simp]: "W64 (unat x) = x"
  by (simp add: W64_def)

lemma W32_unat [simp]: "W32 (unat x) = x"
  by (simp add: W32_def)

lemma W64_eq_iff: "a < 2 ^ 64 \<Longrightarrow> b < 2 ^ 64 \<Longrightarrow> W64 a = W64 b \<longleftrightarrow> a = b"
  by (metis unat_W64)

lemma W64_le_iff: "a < 2 ^ 64 \<Longrightarrow> b < 2 ^ 64 \<Longrightarrow> W64 a \<le> W64 b \<longleftrightarrow> a \<le> b"
  by (simp add: word_le_nat_alt unat_W64)

lemma W64_less_iff: "a < 2 ^ 64 \<Longrightarrow> b < 2 ^ 64 \<Longrightarrow> W64 a < W64 b \<longleftrightarrow> a < b"
  by (simp add: word_less_nat_alt unat_W64)

lemma W64_div: "a < 2 ^ 64 \<Longrightarrow> b < 2 ^ 64 \<Longrightarrow> W64 a div W64 b = W64 (a div b)"
  by (simp add: word_arith_nat_div unat_W64) (simp add: W64_def)

subsection \<open>Conversions between the widths\<close>

lemma ucast_32_64: "(ucast (x :: 32 word) :: 64 word) = W64 (unat x)"
  by (simp add: W64_def unsigned_ucast_eq word_eq_iff_unsigned)

lemma ucast_64_32: "(ucast (W64 a) :: 32 word) = W32 a"
  by (rule word_uint_eqI) (simp add: W64_def W32_def unsigned_ucast_eq unsigned_of_nat)

lemma ucast_add64: "(ucast (x + y :: 64 word) :: 32 word) = ucast x + ucast y"
proof -
  have "uint (ucast z :: 32 word) = take_bit 32 (uint z)" for z :: "64 word" by (simp add: unsigned_ucast_eq)
  then show ?thesis
    by (intro word_uint_eqI) (simp add: uint_word_ariths unsigned_ucast_eq take_bit_eq_mod mod_mod_cancel mod_simps)
qed

lemma ucast_scast32: "(ucast (scast (x :: 32 word) :: 64 word) :: 32 word) = x"
  by (rule bit_word_eqI) (simp add: bit_simps)

lemma W32_mod: "W32 (x mod 2 ^ 32) = W32 x"
  by (rule word_uint_eqI) (simp add: W32_def unsigned_of_nat take_bit_eq_mod)

lemma sint_W32: "a < 2 ^ 31 \<Longrightarrow> sint (W32 a) = int a"
  by (simp add: W32_def sint_uint unsigned_of_nat signed_take_bit_int_eq_self take_bit_nat_eq_self)

lemma sint_W64: "a < 2 ^ 63 \<Longrightarrow> sint (W64 a) = int a"
  by (simp add: W64_def sint_uint unsigned_of_nat signed_take_bit_int_eq_self take_bit_nat_eq_self)

lemma W64_eq_0: "a < 2 ^ 64 \<Longrightarrow> W64 a = 0 \<longleftrightarrow> a = 0"
  using W64_eq_iff [of a 0] by (simp add: W64_zero)

lemma scast_32_64: "a < 2 ^ 31 \<Longrightarrow> (scast (W32 a) :: 64 word) = W64 a"
  by (simp add: scast_eq sint_W32 W64_def)

text \<open>An \<open>int\<close> whose top bit is set is negative, as a \<open>size_t\<close> too.\<close>

lemma W32_negative:
  assumes "2 ^ 31 \<le> x" "x < 2 ^ 32"
  shows "sint (scast (W32 x) :: 64 word) < 0"
proof -
  have "x div 2 ^ 31 = 1" using assms by simp
  then have "bit x 31" by (simp add: bit_iff_odd)
  then have "bit (W32 x) 31" by (simp add: W32_def bit_simps)
  then have "sint (W32 x) < 0" using bit_last_iff [of "W32 x"] by simp
  moreover have "is_up (scast :: 32 word \<Rightarrow> 64 word)" by (simp add: is_up)
  ultimately show ?thesis by (simp add: sint_up_scast)
qed

subsection \<open>The option monad\<close>

lemma bind_Some_iff:
  "Option.bind x f = Some y \<longleftrightarrow> (\<exists>z. x = Some z \<and> f z = Some y)"
  by (cases x) auto

lemma bind_NoneI: "x = None \<Longrightarrow> Option.bind x f = None"
  by simp

end
