(* ===== verification/CMem.thy ===== *)
theory CMem
  imports Prelude
begin

text \<open>
  The memory the store lives in: the bytes of the file that \<open>pupa_shm_init\<close> maps.
  An address is an offset from the start of the mapping (the C code's
  \<open>(char *) store_hdr\<close>), a \<open>64 word\<close>, so that pointer arithmetic wraps as the machine's
  does; an access that does not lie inside the mapping, or a write to a mapping made with
  \<open>PROT_READ\<close>, has no result (\<open>None\<close>).

  \<open>memcpy\<close> and \<open>memmove\<close> read all source bytes before they write any; \<open>memcmp\<close> is the
  C library's, of which the callers use the sign only.
\<close>

record cmem =
  mbytes :: "nat \<Rightarrow> byte"
  msize :: nat
  mwritable :: bool

subsection \<open>Little-endian numbers\<close>

fun le_val :: "byte list \<Rightarrow> nat" where
  "le_val [] = 0"
| "le_val (b # bs) = unat b + 256 * le_val bs"

fun le_bytes :: "nat \<Rightarrow> nat \<Rightarrow> byte list" where
  "le_bytes 0 v = []"
| "le_bytes (Suc n) v = word_of_nat v # le_bytes n (v div 256)"

lemma length_le_bytes [simp]: "length (le_bytes n v) = n"
  by (induction n arbitrary: v) auto

lemma le_val_le_bytes: "le_val (le_bytes n v) = v mod 256 ^ n"
proof (induction n arbitrary: v)
  case 0
  then show ?case by simp
next
  case (Suc n)
  have "v mod (256 * 256 ^ n) = v mod 256 + 256 * (v div 256 mod 256 ^ n)"
    by (simp add: mod_mult2_eq)
  then show ?case
    by (simp add: Suc unsigned_of_nat take_bit_eq_mod)
qed

lemma le_val_bound: "le_val bs < 256 ^ length bs"
proof (induction bs)
  case Nil
  then show ?case by simp
next
  case (Cons b bs)
  have "unat b < 256" using unsigned_less [of b] by simp
  with Cons show ?case by simp
qed

lemma le_bytes_le_val: "le_bytes (length bs) (le_val bs) = bs"
proof (induction bs)
  case Nil
  then show ?case by simp
next
  case (Cons b bs)
  have b: "unat b < 256" using unsigned_less [of b] by simp
  have "(256 :: byte) = 0" by simp
  then have "(256 :: byte) * word_of_nat (le_val bs) = 0" by (simp only: mult_zero_left)
  with b Cons show ?case by simp
qed

subsection \<open>Reading and writing byte maps\<close>

definition bytes_at :: "(nat \<Rightarrow> byte) \<Rightarrow> nat \<Rightarrow> nat \<Rightarrow> byte list" where
  "bytes_at m a n = map (\<lambda>i. m (a + i)) [0..<n]"

definition put_bytes :: "(nat \<Rightarrow> byte) \<Rightarrow> nat \<Rightarrow> byte list \<Rightarrow> (nat \<Rightarrow> byte)" where
  "put_bytes m a bs = (\<lambda>x. if a \<le> x \<and> x < a + length bs then bs ! (x - a) else m x)"

definition rd8 :: "(nat \<Rightarrow> byte) \<Rightarrow> nat \<Rightarrow> 8 word" where
  "rd8 m a = m a"

definition rd32 :: "(nat \<Rightarrow> byte) \<Rightarrow> nat \<Rightarrow> 32 word" where
  "rd32 m a = word_of_nat (le_val (bytes_at m a 4))"

definition rd64 :: "(nat \<Rightarrow> byte) \<Rightarrow> nat \<Rightarrow> 64 word" where
  "rd64 m a = word_of_nat (le_val (bytes_at m a 8))"

definition wr8 :: "(nat \<Rightarrow> byte) \<Rightarrow> nat \<Rightarrow> 8 word \<Rightarrow> (nat \<Rightarrow> byte)" where
  "wr8 m a v = put_bytes m a [v]"

definition wr32 :: "(nat \<Rightarrow> byte) \<Rightarrow> nat \<Rightarrow> 32 word \<Rightarrow> (nat \<Rightarrow> byte)" where
  "wr32 m a v = put_bytes m a (le_bytes 4 (unat v))"

definition wr64 :: "(nat \<Rightarrow> byte) \<Rightarrow> nat \<Rightarrow> 64 word \<Rightarrow> (nat \<Rightarrow> byte)" where
  "wr64 m a v = put_bytes m a (le_bytes 8 (unat v))"

lemma length_bytes_at [simp]: "length (bytes_at m a n) = n"
  by (simp add: bytes_at_def)

lemma nth_bytes_at [simp]: "i < n \<Longrightarrow> bytes_at m a n ! i = m (a + i)"
  by (simp add: bytes_at_def)

lemma bytes_at_0 [simp]: "bytes_at m a 0 = []"
  by (simp add: bytes_at_def)

lemma bytes_at_cong:
  "(\<And>x. a \<le> x \<Longrightarrow> x < a + n \<Longrightarrow> m x = m' x) \<Longrightarrow> bytes_at m a n = bytes_at m' a n"
  by (simp add: bytes_at_def)

lemma bytes_at_append: "bytes_at m a (n + k) = bytes_at m a n @ bytes_at m (a + n) k"
  by (rule nth_equalityI) (auto simp: nth_append)

lemma bytes_at_put_same [mem_simps]:
  "n = length bs \<Longrightarrow> bytes_at (put_bytes m a bs) a n = bs"
  by (rule nth_equalityI) (auto simp: put_bytes_def)

lemma bytes_at_put_other [mem_simps]:
  "a + n \<le> d \<or> d + length bs \<le> a \<Longrightarrow> bytes_at (put_bytes m d bs) a n = bytes_at m a n"
  by (rule bytes_at_cong) (auto simp: put_bytes_def)

lemma bytes_at_put_inside:
  "d \<le> a \<Longrightarrow> a + n \<le> d + length bs \<Longrightarrow>
   bytes_at (put_bytes m d bs) a n = take n (drop (a - d) bs)"
  by (rule nth_equalityI) (auto simp: put_bytes_def)

lemma bytes_at_sub: "i + k \<le> n \<Longrightarrow> take k (drop i (bytes_at m a n)) = bytes_at m (a + i) k"
  by (rule nth_equalityI) (auto simp: add.assoc)

lemma put_bytes_outside [mem_simps]:
  "x < a \<or> a + length bs \<le> x \<Longrightarrow> put_bytes m a bs x = m x"
  by (auto simp: put_bytes_def)

lemma put_bytes_inside: "a \<le> x \<Longrightarrow> x < a + length bs \<Longrightarrow> put_bytes m a bs x = bs ! (x - a)"
  by (simp add: put_bytes_def)

lemma put_bytes_self: "put_bytes m a (bytes_at m a n) = m"
  by (rule ext) (auto simp: put_bytes_def)

lemma rd8_put_other [mem_simps]:
  "a + 1 \<le> d \<or> d + length bs \<le> a \<Longrightarrow> rd8 (put_bytes m d bs) a = rd8 m a"
  by (auto simp: rd8_def put_bytes_def)

lemma rd32_put_other [mem_simps]:
  "a + 4 \<le> d \<or> d + length bs \<le> a \<Longrightarrow> rd32 (put_bytes m d bs) a = rd32 m a"
  by (simp add: rd32_def bytes_at_put_other)

lemma rd64_put_other [mem_simps]:
  "a + 8 \<le> d \<or> d + length bs \<le> a \<Longrightarrow> rd64 (put_bytes m d bs) a = rd64 m a"
  by (simp add: rd64_def bytes_at_put_other)

lemma rd8_wr8_same [mem_simps]: "rd8 (wr8 m a v) a = v"
  by (simp add: rd8_def wr8_def put_bytes_def)

lemma rd32_wr32_same [mem_simps]: "rd32 (wr32 m a v) a = v"
  using unsigned_less [of v, where ?'a = nat]
  by (simp add: rd32_def wr32_def bytes_at_put_same le_val_le_bytes)

lemma rd64_wr64_same [mem_simps]: "rd64 (wr64 m a v) a = v"
  using unsigned_less [of v, where ?'a = nat]
  by (simp add: rd64_def wr64_def bytes_at_put_same le_val_le_bytes)

lemma wr_other [mem_simps]:
  "x < a \<or> a < x \<Longrightarrow> wr8 m a v8 x = m x"
  "x < a \<or> a + 4 \<le> x \<Longrightarrow> wr32 m a v32 x = m x"
  "x < a \<or> a + 8 \<le> x \<Longrightarrow> wr64 m a v64 x = m x"
  by (auto simp: wr8_def wr32_def wr64_def put_bytes_def)

lemma bytes_at_wr_other [mem_simps]:
  "a + n \<le> d \<or> d + 1 \<le> a \<Longrightarrow> bytes_at (wr8 m d v8) a n = bytes_at m a n"
  "a + n \<le> d \<or> d + 4 \<le> a \<Longrightarrow> bytes_at (wr32 m d v32) a n = bytes_at m a n"
  "a + n \<le> d \<or> d + 8 \<le> a \<Longrightarrow> bytes_at (wr64 m d v64) a n = bytes_at m a n"
  by (simp_all add: wr8_def wr32_def wr64_def bytes_at_put_other)

lemma rd8_wr_other [mem_simps]:
  "a + 1 \<le> d \<or> d + 1 \<le> a \<Longrightarrow> rd8 (wr8 m d v8) a = rd8 m a"
  "a + 1 \<le> d \<or> d + 4 \<le> a \<Longrightarrow> rd8 (wr32 m d v32) a = rd8 m a"
  "a + 1 \<le> d \<or> d + 8 \<le> a \<Longrightarrow> rd8 (wr64 m d v64) a = rd8 m a"
  by (simp_all add: wr8_def wr32_def wr64_def rd8_put_other)

lemma rd32_wr_other [mem_simps]:
  "a + 4 \<le> d \<or> d + 1 \<le> a \<Longrightarrow> rd32 (wr8 m d v8) a = rd32 m a"
  "a + 4 \<le> d \<or> d + 4 \<le> a \<Longrightarrow> rd32 (wr32 m d v32) a = rd32 m a"
  "a + 4 \<le> d \<or> d + 8 \<le> a \<Longrightarrow> rd32 (wr64 m d v64) a = rd32 m a"
  by (simp_all add: wr8_def wr32_def wr64_def rd32_put_other)

lemma rd64_wr_other [mem_simps]:
  "a + 8 \<le> d \<or> d + 1 \<le> a \<Longrightarrow> rd64 (wr8 m d v8) a = rd64 m a"
  "a + 8 \<le> d \<or> d + 4 \<le> a \<Longrightarrow> rd64 (wr32 m d v32) a = rd64 m a"
  "a + 8 \<le> d \<or> d + 8 \<le> a \<Longrightarrow> rd64 (wr64 m d v64) a = rd64 m a"
  by (simp_all add: wr8_def wr32_def wr64_def rd64_put_other)

subsection \<open>The accesses the code makes\<close>

definition in_map :: "'a cmem_scheme \<Rightarrow> addr \<Rightarrow> nat \<Rightarrow> bool" where
  "in_map c a n \<longleftrightarrow> unat a + n \<le> msize c"

definition ld32 :: "'a cmem_scheme \<Rightarrow> addr \<Rightarrow> 32 word option" where
  "ld32 c a = (if in_map c a 4 then Some (rd32 (mbytes c) (unat a)) else None)"

definition ld64 :: "'a cmem_scheme \<Rightarrow> addr \<Rightarrow> 64 word option" where
  "ld64 c a = (if in_map c a 8 then Some (rd64 (mbytes c) (unat a)) else None)"

definition ldn :: "'a cmem_scheme \<Rightarrow> addr \<Rightarrow> nat \<Rightarrow> byte list option" where
  "ldn c a n = (if in_map c a n then Some (bytes_at (mbytes c) (unat a) n) else None)"

definition stn :: "'a cmem_scheme \<Rightarrow> addr \<Rightarrow> byte list \<Rightarrow> 'a cmem_scheme option" where
  "stn c a bs =
     (if in_map c a (length bs) \<and> mwritable c
      then Some (c\<lparr>mbytes := put_bytes (mbytes c) (unat a) bs\<rparr>) else None)"

definition st8 :: "'a cmem_scheme \<Rightarrow> addr \<Rightarrow> 8 word \<Rightarrow> 'a cmem_scheme option" where
  "st8 c a v =
     (if in_map c a 1 \<and> mwritable c
      then Some (c\<lparr>mbytes := wr8 (mbytes c) (unat a) v\<rparr>) else None)"

definition st32 :: "'a cmem_scheme \<Rightarrow> addr \<Rightarrow> 32 word \<Rightarrow> 'a cmem_scheme option" where
  "st32 c a v =
     (if in_map c a 4 \<and> mwritable c
      then Some (c\<lparr>mbytes := wr32 (mbytes c) (unat a) v\<rparr>) else None)"

definition st64 :: "'a cmem_scheme \<Rightarrow> addr \<Rightarrow> 64 word \<Rightarrow> 'a cmem_scheme option" where
  "st64 c a v =
     (if in_map c a 8 \<and> mwritable c
      then Some (c\<lparr>mbytes := wr64 (mbytes c) (unat a) v\<rparr>) else None)"

definition memcpy :: "'a cmem_scheme \<Rightarrow> addr \<Rightarrow> addr \<Rightarrow> nat \<Rightarrow> 'a cmem_scheme option" where
  "memcpy c dst src n = do { bs \<leftarrow> ldn c src n; stn c dst bs }"

definition memmove :: "'a cmem_scheme \<Rightarrow> addr \<Rightarrow> addr \<Rightarrow> nat \<Rightarrow> 'a cmem_scheme option" where
  "memmove c dst src n = do { bs \<leftarrow> ldn c src n; stn c dst bs }"

fun memcmp :: "byte list \<Rightarrow> byte list \<Rightarrow> c_int" where
  "memcmp (x # xs) (y # ys) =
     (if x = y then memcmp xs ys else if x < y then - 1 else 1)"
| "memcmp _ _ = 0"


text \<open>Accesses at known addresses inside a mapping.\<close>

lemma ld_W64:
  "a + 4 \<le> msize c \<Longrightarrow> msize c < 2 ^ 63 \<Longrightarrow> ld32 c (W64 a) = Some (rd32 (mbytes c) a)"
  "a + 8 \<le> msize c \<Longrightarrow> msize c < 2 ^ 63 \<Longrightarrow> ld64 c (W64 a) = Some (rd64 (mbytes c) a)"
  "a + n \<le> msize c \<Longrightarrow> msize c < 2 ^ 63 \<Longrightarrow> ldn c (W64 a) n = Some (bytes_at (mbytes c) a n)"
  by (simp_all add: ld32_def ld64_def ldn_def in_map_def unat_W64)

lemma st_W64:
  "a + 1 \<le> msize c \<Longrightarrow> msize c < 2 ^ 63 \<Longrightarrow> mwritable c \<Longrightarrow>
     st8 c (W64 a) v8 = Some (c\<lparr>mbytes := wr8 (mbytes c) a v8\<rparr>)"
  "a + 4 \<le> msize c \<Longrightarrow> msize c < 2 ^ 63 \<Longrightarrow> mwritable c \<Longrightarrow>
     st32 c (W64 a) v32 = Some (c\<lparr>mbytes := wr32 (mbytes c) a v32\<rparr>)"
  "a + 8 \<le> msize c \<Longrightarrow> msize c < 2 ^ 63 \<Longrightarrow> mwritable c \<Longrightarrow>
     st64 c (W64 a) v64 = Some (c\<lparr>mbytes := wr64 (mbytes c) a v64\<rparr>)"
  "a + length bs \<le> msize c \<Longrightarrow> msize c < 2 ^ 63 \<Longrightarrow> mwritable c \<Longrightarrow>
     stn c (W64 a) bs = Some (c\<lparr>mbytes := put_bytes (mbytes c) a bs\<rparr>)"
  by (simp_all add: st8_def st32_def st64_def stn_def in_map_def unat_W64)

lemma memcpy_W64:
  "a + n \<le> msize c \<Longrightarrow> d + n \<le> msize c \<Longrightarrow> msize c < 2 ^ 63 \<Longrightarrow> mwritable c \<Longrightarrow>
     memcpy c (W64 d) (W64 a) n =
       Some (c\<lparr>mbytes := put_bytes (mbytes c) d (bytes_at (mbytes c) a n)\<rparr>)"
  by (simp add: memcpy_def ld_W64 st_W64)

lemmas acc_W64 = ld_W64 st_W64 memcpy_W64

text \<open>The low half of an 8-byte word.\<close>

lemma le_val_append: "le_val (xs @ ys) = le_val xs + 256 ^ length xs * le_val ys"
  by (induction xs) (simp_all add: algebra_simps)

lemma rd32_rd64: "rd32 m a = ucast (rd64 m a)"
proof -
  have "bytes_at m a 8 = bytes_at m a 4 @ bytes_at m (a + 4) 4"
    by (rule nth_equalityI) (auto simp: nth_append)
  then have "le_val (bytes_at m a 8) = le_val (bytes_at m a 4) + 2 ^ 32 * le_val (bytes_at m (a + 4) 4)"
    by (simp add: le_val_append)
  moreover have "(ucast (word_of_nat n :: 64 word) :: 32 word) = word_of_nat n" for n
    by (rule bit_word_eqI) (simp add: bit_simps)
  moreover have "(word_of_nat (x + 2 ^ 32 * y) :: 32 word) = word_of_nat x" for x y
    by (simp add: word_of_nat_eq_iff take_bit_eq_mod del: of_nat_add of_nat_mult)
  ultimately show ?thesis by (simp only: rd32_def rd64_def)
qed

lemma put_bytes_Nil: "put_bytes m a [] = m"
  by (rule ext) (auto simp: put_bytes_def)

lemma rd_cong:
  "(\<And>x. a \<le> x \<Longrightarrow> x < a + 4 \<Longrightarrow> m' x = m x) \<Longrightarrow> rd32 m' a = rd32 m a"
  "(\<And>x. a \<le> x \<Longrightarrow> x < a + 8 \<Longrightarrow> m' x = m x) \<Longrightarrow> rd64 m' a = rd64 m a"
  unfolding rd32_def rd64_def
  by (rule arg_cong [where f = word_of_nat], rule arg_cong [where f = le_val], rule bytes_at_cong, simp)+

end
