(* ===== verification/Layout.thy ===== *)
theory Layout
  imports CMem
begin

text \<open>
  The structures of \<open>pupa_store.h\<close>, \<open>pupa_shm.h\<close> and \<open>pupa_config.h\<close>, their place in the
  mapped file, the section macros, and \<open>pupa_store_init\<close>, which computes the layout of a
  new file.

  The header occupies bytes 0 to 127 of the file: \<open>max_ver_num\<close> at 0, then the item, key and
  value sections (40 bytes each: \<open>id\<close>, 7 bytes of padding, \<open>size\<close>, \<open>used\<close>,
  \<open>sec1_offset\<close>, \<open>sec2_offset\<close>) at 8, 48 and 88. An item takes 16 bytes and is followed
  by \<open>max_ver_num\<close> value records of 16 bytes each.
\<close>

subsection \<open>Constants\<close>

definition PUPA_OK :: int where "PUPA_OK = 0"
definition PUPA_ERROR :: int where "PUPA_ERROR = - 1"
definition PUPA_OVERFLOW :: int where "PUPA_OVERFLOW = - 2"
definition PUPA_NOT_FOUND :: int where "PUPA_NOT_FOUND = - 3"
definition PUPA_NOT_FOUND_VALUE :: int where "PUPA_NOT_FOUND_VALUE = - 4"
definition PUPA_EXCEED_MAXIMUM_NUM :: int where "PUPA_EXCEED_MAXIMUM_NUM = - 5"

lemmas return_codes =
  PUPA_OK_def PUPA_ERROR_def PUPA_OVERFLOW_def PUPA_NOT_FOUND_def PUPA_NOT_FOUND_VALUE_def
  PUPA_EXCEED_MAXIMUM_NUM_def

definition PUPA_OP_TYPE_RO :: int where "PUPA_OP_TYPE_RO = 1"
definition PUPA_OP_TYPE_RW :: int where "PUPA_OP_TYPE_RW = 2"

definition PUPA_KEY_AVERAGE_LEN :: c_int where "PUPA_KEY_AVERAGE_LEN = 64"
definition PUPA_VALUE_AVERAGE_LEN :: c_int where "PUPA_VALUE_AVERAGE_LEN = 256"

definition PUPA_STORE_SECTION_ONE :: byte where "PUPA_STORE_SECTION_ONE = 1"
definition PUPA_STORE_SECTION_TWO :: byte where "PUPA_STORE_SECTION_TWO = 2"

lemmas section_ids = PUPA_STORE_SECTION_ONE_def PUPA_STORE_SECTION_TWO_def

subsection \<open>Structures\<close>

record pupa_store_section =
  sec_id :: byte
  sec_size :: size_t
  sec_used :: size_t
  sec1_offset :: size_t
  sec2_offset :: size_t

record pupa_store_hdr =
  max_ver_num :: c_int
  item_section :: pupa_store_section
  key_section :: pupa_store_section
  value_section :: pupa_store_section

record pupa_store_item =
  key_offset :: size_t
  key_len :: uint32
  val_cnt :: c_int

record pupa_store_item_val =
  value_offset :: size_t
  value_len :: uint32

record pupa_shm =
  shm_path :: string
  shm_size :: size_t
  shm_exists :: bool

text \<open>
  \<open>pupa_ctx_s\<close>. The pointer \<open>store_hdr\<close> is the start of the mapping (address 0 of the
  byte map the record extends) when \<open>mapped\<close> holds, and \<open>NULL\<close> or a stale address
  otherwise.
\<close>

record pupa_ctx = cmem +
  ctx_init :: byte
  shm :: pupa_shm
  mapped :: bool
  store_items :: addr
  store_items_snapshot :: addr

text \<open>
  \<open>pupa_str_s\<close>: a length and a pointer, which leads either to a buffer of the caller
  (its readable bytes) or into the mapping (the results of the get operations do).
\<close>

datatype cptr = Ext "byte list" | Off addr

record pupa_str =
  str_len :: c_int
  str_data :: cptr

definition cptr_bytes :: "'a cmem_scheme \<Rightarrow> cptr \<Rightarrow> nat \<Rightarrow> byte list option" where
  "cptr_bytes c p n =
     (case p of Ext bs \<Rightarrow> if n \<le> length bs then Some (take n bs) else None
      | Off a \<Rightarrow> ldn c a n)"

definition sizeof_hdr :: nat where "sizeof_hdr = 128"
definition sizeof_item :: size_t where "sizeof_item = 16"
definition sizeof_item_val :: size_t where "sizeof_item_val = 16"

lemmas sizeofs = sizeof_hdr_def sizeof_item_def sizeof_item_val_def

subsection \<open>The structures in memory\<close>

definition rd_section :: "(nat \<Rightarrow> byte) \<Rightarrow> nat \<Rightarrow> pupa_store_section" where
  "rd_section m a =
     \<lparr>sec_id = rd8 m a, sec_size = rd64 m (a + 8), sec_used = rd64 m (a + 16),
      sec1_offset = rd64 m (a + 24), sec2_offset = rd64 m (a + 32)\<rparr>"

definition rd_hdr :: "(nat \<Rightarrow> byte) \<Rightarrow> pupa_store_hdr" where
  "rd_hdr m =
     \<lparr>max_ver_num = rd32 m 0, item_section = rd_section m 8, key_section = rd_section m 48,
      value_section = rd_section m 88\<rparr>"

definition rd_item :: "(nat \<Rightarrow> byte) \<Rightarrow> nat \<Rightarrow> pupa_store_item" where
  "rd_item m a =
     \<lparr>key_offset = rd64 m a, key_len = rd32 m (a + 8), val_cnt = rd32 m (a + 12)\<rparr>"

definition rd_item_val :: "(nat \<Rightarrow> byte) \<Rightarrow> nat \<Rightarrow> pupa_store_item_val" where
  "rd_item_val m a = \<lparr>value_offset = rd64 m a, value_len = rd32 m (a + 8)\<rparr>"

definition wr_section :: "(nat \<Rightarrow> byte) \<Rightarrow> nat \<Rightarrow> pupa_store_section \<Rightarrow> (nat \<Rightarrow> byte)" where
  "wr_section m a s =
     wr64 (wr64 (wr64 (wr64 (wr8 m a (sec_id s)) (a + 8) (sec_size s)) (a + 16) (sec_used s))
       (a + 24) (sec1_offset s)) (a + 32) (sec2_offset s)"

definition wr_hdr :: "(nat \<Rightarrow> byte) \<Rightarrow> pupa_store_hdr \<Rightarrow> (nat \<Rightarrow> byte)" where
  "wr_hdr m h =
     wr_section (wr_section (wr_section (wr32 m 0 (max_ver_num h)) 8 (item_section h))
       48 (key_section h)) 88 (value_section h)"

text \<open>Dereferencing the header, an item or a value record through a pointer.\<close>

definition load_hdr :: "pupa_ctx \<Rightarrow> pupa_store_hdr option" where
  "load_hdr c = (if mapped c \<and> sizeof_hdr \<le> msize c then Some (rd_hdr (mbytes c)) else None)"

definition load_item :: "pupa_ctx \<Rightarrow> addr \<Rightarrow> pupa_store_item option" where
  "load_item c a = (if in_map c a 16 then Some (rd_item (mbytes c) (unat a)) else None)"

definition load_item_val :: "pupa_ctx \<Rightarrow> addr \<Rightarrow> pupa_store_item_val option" where
  "load_item_val c a = (if in_map c a 12 then Some (rd_item_val (mbytes c) (unat a)) else None)"

text \<open>The addresses of the header fields the operations write.\<close>

definition item_section_addr :: addr where "item_section_addr = 8"
definition key_section_addr :: addr where "key_section_addr = 48"
definition value_section_addr :: addr where "value_section_addr = 88"

definition put_sec_used :: "pupa_ctx \<Rightarrow> addr \<Rightarrow> size_t \<Rightarrow> pupa_ctx option" where
  "put_sec_used c a v = st64 c (a + 16) v"

definition put_sec_id :: "pupa_ctx \<Rightarrow> addr \<Rightarrow> byte \<Rightarrow> pupa_ctx option" where
  "put_sec_id c a v = st8 c a v"

lemmas section_addrs = item_section_addr_def key_section_addr_def value_section_addr_def

subsection \<open>The section macros\<close>

definition PUPA_STORE_GET_SEC_SNAPSHOT_ID :: "pupa_store_section \<Rightarrow> byte" where
  "PUPA_STORE_GET_SEC_SNAPSHOT_ID s =
     (if sec_id s = PUPA_STORE_SECTION_ONE then PUPA_STORE_SECTION_TWO
      else PUPA_STORE_SECTION_ONE)"

definition PUPA_STORE_GET_OFFSET :: "pupa_store_section \<Rightarrow> size_t" where
  "PUPA_STORE_GET_OFFSET s =
     (if sec_id s = PUPA_STORE_SECTION_ONE then sec1_offset s else sec2_offset s)"

definition PUPA_STORE_GET_SNAPSHOT_OFFSET :: "pupa_store_section \<Rightarrow> size_t" where
  "PUPA_STORE_GET_SNAPSHOT_OFFSET s =
     (if sec_id s = PUPA_STORE_SECTION_ONE then sec2_offset s else sec1_offset s)"

text \<open>The address macros add the offset to \<open>store_hdr\<close>, which is address 0.\<close>

definition PUPA_STORE_GET_ADDR :: "pupa_store_section \<Rightarrow> addr" where
  "PUPA_STORE_GET_ADDR s =
     (if sec_id s = PUPA_STORE_SECTION_ONE then 0 + sec1_offset s else 0 + sec2_offset s)"

definition PUPA_STORE_GET_SNAPSHOT_ADDR :: "pupa_store_section \<Rightarrow> addr" where
  "PUPA_STORE_GET_SNAPSHOT_ADDR s =
     (if sec_id s = PUPA_STORE_SECTION_ONE then 0 + sec2_offset s else 0 + sec1_offset s)"

definition PUPA_STORE_GET_FREE_ADDR :: "pupa_store_section \<Rightarrow> addr" where
  "PUPA_STORE_GET_FREE_ADDR s =
     (if sec_id s = PUPA_STORE_SECTION_ONE then 0 + sec1_offset s + sec_used s
      else 0 + sec2_offset s + sec_used s)"

lemmas section_macros =
  PUPA_STORE_GET_SEC_SNAPSHOT_ID_def PUPA_STORE_GET_OFFSET_def
  PUPA_STORE_GET_SNAPSHOT_OFFSET_def PUPA_STORE_GET_ADDR_def
  PUPA_STORE_GET_SNAPSHOT_ADDR_def PUPA_STORE_GET_FREE_ADDR_def

text \<open>
  The expression every operation computes for the size of an index entry,
  \<open>sizeof(pupa_store_item_t) + max_ver_num * sizeof(pupa_store_item_val_t)\<close>, stored in an
  \<open>int\<close>; \<open>item_stride\<close> is that \<open>int\<close> where it meets a \<open>size_t\<close> again.
\<close>

definition item_len :: "pupa_store_hdr \<Rightarrow> c_int" where
  "item_len h = ucast (sizeof_item + scast (max_ver_num h) * sizeof_item_val)"

definition item_stride :: "pupa_store_hdr \<Rightarrow> size_t" where
  "item_stride h = scast (item_len h)"

subsection \<open>Creating the layout\<close>

text \<open>
  \<open>offset\<close> is an \<open>int32_t\<close>: a \<open>size_t\<close> added to it is computed in 64 bits and cut back,
  an \<open>int\<close> added to it in 32 bits.
\<close>

definition pupa_store_init :: "c_int \<Rightarrow> c_int \<Rightarrow> c_int \<times> pupa_store_hdr" where
  "pupa_store_init key_count max_ver =
     (let item_bytes = scast key_count * sizeof_item + scast max_ver * sizeof_item_val;
          o0 = W32 sizeof_hdr;
          o1 = ucast (scast o0 + item_bytes) :: c_int;
          o2 = ucast (scast o1 + item_bytes) :: c_int;
          o3 = o2 + key_count * PUPA_KEY_AVERAGE_LEN;
          o4 = o3 + key_count * PUPA_KEY_AVERAGE_LEN;
          o5 = o4 + key_count * PUPA_VALUE_AVERAGE_LEN;
          o6 = o5 + key_count * PUPA_VALUE_AVERAGE_LEN
      in (o6,
          \<lparr>max_ver_num = max_ver,
           item_section =
             \<lparr>sec_id = PUPA_STORE_SECTION_ONE, sec_size = scast key_count, sec_used = 0,
              sec1_offset = scast o0, sec2_offset = scast o1\<rparr>,
           key_section =
             \<lparr>sec_id = PUPA_STORE_SECTION_ONE,
              sec_size = scast (PUPA_KEY_AVERAGE_LEN * key_count), sec_used = 0,
              sec1_offset = scast o2, sec2_offset = scast o3\<rparr>,
           value_section =
             \<lparr>sec_id = PUPA_STORE_SECTION_ONE,
              sec_size = scast (PUPA_VALUE_AVERAGE_LEN * key_count), sec_used = 0,
              sec1_offset = scast o4, sec2_offset = scast o5\<rparr>\<rparr>))"


subsection \<open>Encoding and decoding the header\<close>

lemma rd_section_wr_section: "rd_section (wr_section m a s) a = s"
  by (simp add: rd_section_def wr_section_def mem_simps)

lemma rd_section_wr_section_other:
  "a + 40 \<le> b \<or> b + 40 \<le> a \<Longrightarrow> rd_section (wr_section m a s) b = rd_section m b"
  by (auto simp: rd_section_def wr_section_def mem_simps)

lemma rd32_wr_section_other: "b + 4 \<le> a \<Longrightarrow> rd32 (wr_section m a s) b = rd32 m b"
  by (simp add: wr_section_def mem_simps)

lemma rd_hdr_wr_hdr: "rd_hdr (wr_hdr m h) = h"
  by (simp add: rd_hdr_def wr_hdr_def rd_section_wr_section rd_section_wr_section_other
      rd32_wr_section_other mem_simps)

lemma wr_section_outside: "x < a \<or> a + 40 \<le> x \<Longrightarrow> wr_section m a s x = m x"
  by (auto simp: wr_section_def mem_simps)

lemma wr_hdr_outside: "128 \<le> x \<Longrightarrow> wr_hdr m h x = m x"
  by (simp add: wr_hdr_def wr_section_outside mem_simps)

text \<open>The header is unchanged by a write behind it and changed in one field by the code's
  header writes.\<close>

lemma rd_section_cong:
  assumes "\<And>x. a \<le> x \<Longrightarrow> x < a + 40 \<Longrightarrow> m x = m' x"
  shows "rd_section m a = rd_section m' a"
  using assms
  by (simp add: rd_section_def rd8_def rd64_def cong: bytes_at_cong)

lemma rd_hdr_cong:
  assumes "\<And>x. x < 128 \<Longrightarrow> m x = m' x"
  shows "rd_hdr m = rd_hdr m'"
proof -
  have "rd_section m 8 = rd_section m' 8" "rd_section m 48 = rd_section m' 48"
    "rd_section m 88 = rd_section m' 88"
    by (rule rd_section_cong; simp add: assms)+
  moreover have "rd32 m 0 = rd32 m' 0"
    by (simp add: rd32_def assms cong: bytes_at_cong)
  ultimately show ?thesis by (simp add: rd_hdr_def)
qed

lemma rd_hdr_put_bytes [mem_simps]: "128 \<le> a \<Longrightarrow> rd_hdr (put_bytes m a bs) = rd_hdr m"
  by (rule rd_hdr_cong) (simp add: mem_simps)

lemma rd_section_wr_used:
  "rd_section (wr64 m (a + 16) v) a = rd_section m a\<lparr>sec_used := v\<rparr>"
  "rd_section (wr8 m a w) a = rd_section m a\<lparr>sec_id := w\<rparr>"
  by (simp_all add: rd_section_def mem_simps)

lemma rd_section_wr_other:
  "a + 40 \<le> d \<or> d + 8 \<le> a \<Longrightarrow> rd_section (wr64 m d v) a = rd_section m a"
  "a + 40 \<le> d \<or> d + 1 \<le> a \<Longrightarrow> rd_section (wr8 m d w) a = rd_section m a"
  by (auto intro!: rd_section_cong simp: mem_simps)

lemma rd_hdr_wr_used [mem_simps]:
  "rd_hdr (wr64 m 24 v) =
     rd_hdr m\<lparr>item_section := item_section (rd_hdr m)\<lparr>sec_used := v\<rparr>\<rparr>"
  "rd_hdr (wr64 m 64 v) =
     rd_hdr m\<lparr>key_section := key_section (rd_hdr m)\<lparr>sec_used := v\<rparr>\<rparr>"
  "rd_hdr (wr64 m 104 v) =
     rd_hdr m\<lparr>value_section := value_section (rd_hdr m)\<lparr>sec_used := v\<rparr>\<rparr>"
  using rd_section_wr_used(1) [of m 8 v] rd_section_wr_used(1) [of m 48 v]
    rd_section_wr_used(1) [of m 88 v]
  by (simp_all add: rd_hdr_def rd_section_wr_other mem_simps)

lemma rd_hdr_wr_id [mem_simps]:
  "rd_hdr (wr8 m 8 w) = rd_hdr m\<lparr>item_section := item_section (rd_hdr m)\<lparr>sec_id := w\<rparr>\<rparr>"
  "rd_hdr (wr8 m 48 w) = rd_hdr m\<lparr>key_section := key_section (rd_hdr m)\<lparr>sec_id := w\<rparr>\<rparr>"
  "rd_hdr (wr8 m 88 w) =
     rd_hdr m\<lparr>value_section := value_section (rd_hdr m)\<lparr>sec_id := w\<rparr>\<rparr>"
  by (simp_all add: rd_hdr_def rd_section_wr_used rd_section_wr_other mem_simps)

text \<open>Items and value records depend on their own bytes only.\<close>

lemma rd_item_cong:
  assumes "\<And>x. a \<le> x \<Longrightarrow> x < a + 16 \<Longrightarrow> m x = m' x"
  shows "rd_item m a = rd_item m' a"
  using assms by (simp add: rd_item_def rd32_def rd64_def cong: bytes_at_cong)

lemma rd_item_val_cong:
  assumes "\<And>x. a \<le> x \<Longrightarrow> x < a + 12 \<Longrightarrow> m x = m' x"
  shows "rd_item_val m a = rd_item_val m' a"
  using assms by (simp add: rd_item_val_def rd32_def rd64_def cong: bytes_at_cong)

subsection \<open>The layout of a new file\<close>

text \<open>
  The header of a new file for \<open>n\<close> keys and \<open>v\<close> versions, over the naturals, with the
  offset at which the file ends.
\<close>

definition item_area :: "nat \<Rightarrow> nat \<Rightarrow> nat" where
  "item_area n v = 16 * n + 16 * v"

definition layout_total :: "nat \<Rightarrow> nat \<Rightarrow> nat" where
  "layout_total n v = 128 + 2 * item_area n v + 2 * (64 * n) + 2 * (256 * n)"

definition layout_hdr :: "nat \<Rightarrow> nat \<Rightarrow> pupa_store_hdr" where
  "layout_hdr n v =
     \<lparr>max_ver_num = W32 v,
      item_section =
        \<lparr>sec_id = 1, sec_size = W64 n, sec_used = 0, sec1_offset = W64 128,
         sec2_offset = W64 (128 + item_area n v)\<rparr>,
      key_section =
        \<lparr>sec_id = 1, sec_size = W64 (64 * n), sec_used = 0,
         sec1_offset = W64 (128 + 2 * item_area n v),
         sec2_offset = W64 (128 + 2 * item_area n v + 64 * n)\<rparr>,
      value_section =
        \<lparr>sec_id = 1, sec_size = W64 (256 * n), sec_used = 0,
         sec1_offset = W64 (128 + 2 * item_area n v + 128 * n),
         sec2_offset = W64 (128 + 2 * item_area n v + 128 * n + 256 * n)\<rparr>\<rparr>"

lemma pupa_store_init_eq:
  assumes "layout_total n v < 2 ^ 31"
  shows "pupa_store_init (W32 n) (W32 v) = (W32 (layout_total n v), layout_hdr n v)"
proof -
  have b: "128 + 2 * (16 * n + 16 * v) + 640 * n < 2 ^ 31"
    using assms by (simp add: layout_total_def item_area_def)
  then have bn: "n < 2 ^ 31" and bv: "v < 2 ^ 31" by simp_all
  have cut: "ucast (scast (W32 x) + W64 y) = W32 (x + y)" if "x < 2 ^ 31" "y < 2 ^ 31" for x y
    using that by (simp add: scast_32_64 W64_add ucast_64_32)
  show ?thesis
    using b bn bv
    by (simp add: pupa_store_init_def Let_def sizeofs PUPA_KEY_AVERAGE_LEN_def
        PUPA_VALUE_AVERAGE_LEN_def section_ids scast_32_64 ucast_64_32 cut addr_simps
        layout_hdr_def layout_total_def item_area_def)
       (simp add: algebra_simps)
qed

end
