(* ===== verification/Compare.thy ===== *)
theory Compare
  imports Layout
begin

text \<open>
  The order of the index: \<open>_pupa_store_item_compare\<close> and \<open>pupa_store_item_compare\<close> of
  \<open>pupa_store.c\<close>, and the linear order on stored keys they implement (shorter keys first,
  keys of one length by their bytes).
\<close>

subsection \<open>The comparison functions\<close>

text \<open>
  \<open>pupa_store_item_wrapper_t\<close>: \<open>w_key_len\<close> is \<open>store_item.key_len\<close>; the other fields of
  \<open>store_item\<close> are never set. \<open>w_key\<close> is the place \<open>store_hdr + key_offset\<close>: the caller's
  buffer, or an address of the mapping; the value 0 of \<open>key_offset\<close> is \<open>Off 0\<close>.
\<close>

record pupa_store_item_wrapper =
  w_key_len :: uint32
  w_key :: cptr

text \<open>
  The first argument is the item the code calls \<open>p1\<close>: its \<open>key_offset\<close> (\<open>None\<close> where
  the field was never initialised) and its \<open>key_len\<close>.
\<close>

definition pupa_store_item_compare_arg ::
  "pupa_ctx \<Rightarrow> size_t option \<times> uint32 \<Rightarrow> addr \<Rightarrow> cptr \<Rightarrow> c_int option" where
  "pupa_store_item_compare_arg c p1 p2 key_place =
     do {
       len2 \<leftarrow> ld32 c (p2 + 8);
       let ret = snd p1 - len2;
       if ret \<noteq> 0 then Some ret
       else if key_place = Off 0 then
         do {
           off1 \<leftarrow> fst p1;
           off2 \<leftarrow> ld64 c p2;
           xs \<leftarrow> ldn c off1 (unat (snd p1));
           ys \<leftarrow> ldn c off2 (unat (snd p1));
           Some (memcmp xs ys)
         }
       else
         do {
           off2 \<leftarrow> ld64 c p2;
           xs \<leftarrow> cptr_bytes c key_place (unat (snd p1));
           ys \<leftarrow> ldn c off2 (unat (snd p1));
           Some (memcmp xs ys)
         }
     }"

definition pupa_store_item_compare ::
  "pupa_ctx \<Rightarrow> pupa_store_item_wrapper \<Rightarrow> addr \<Rightarrow> c_int option" where
  "pupa_store_item_compare c w p2 =
     pupa_store_item_compare_arg c (None, w_key_len w) p2 (w_key w)"

subsection \<open>The order of stored keys\<close>

datatype store_key = StoreKey (key_bytes: "byte list")

fun bytes_less :: "byte list \<Rightarrow> byte list \<Rightarrow> bool" where
  "bytes_less (x # xs) (y # ys) \<longleftrightarrow> x < y \<or> x = y \<and> bytes_less xs ys"
| "bytes_less [] (y # ys) \<longleftrightarrow> True"
| "bytes_less xs [] \<longleftrightarrow> False"

lemma bytes_less_irrefl: "\<not> bytes_less xs xs"
  by (induction xs) auto

lemma bytes_less_trans: "bytes_less xs ys \<Longrightarrow> bytes_less ys zs \<Longrightarrow> bytes_less xs zs"
proof (induction xs ys arbitrary: zs rule: bytes_less.induct)
  case (1 x xs y ys)
  then show ?case by (cases zs) auto
next
  case (2 y ys)
  then show ?case by (cases zs) auto
next
  case (3 xs)
  then show ?case by simp
qed

lemma bytes_less_total: "xs = ys \<or> bytes_less xs ys \<or> bytes_less ys xs"
  by (induction xs ys rule: bytes_less.induct) (auto, (metis bytes_less.simps(2) neq_Nil_conv)+)

instantiation store_key :: linorder
begin

definition less_store_key :: "store_key \<Rightarrow> store_key \<Rightarrow> bool" where
  "less_store_key a b \<longleftrightarrow>
     length (key_bytes a) < length (key_bytes b) \<or>
     length (key_bytes a) = length (key_bytes b) \<and> bytes_less (key_bytes a) (key_bytes b)"

definition less_eq_store_key :: "store_key \<Rightarrow> store_key \<Rightarrow> bool" where
  "less_eq_store_key a b \<longleftrightarrow> a = b \<or> a < b" for a b :: store_key

instance
proof
  fix a b c :: store_key
  have trans: "a < c" if "a < b" "b < c" for a b c :: store_key
    using that by (auto simp: less_store_key_def intro: bytes_less_trans)
  have irr: False if "a < a" for a :: store_key
    using that by (simp add: less_store_key_def bytes_less_irrefl)
  show "(a < b) = (a \<le> b \<and> \<not> b \<le> a)"
    by (auto simp: less_eq_store_key_def dest: trans irr)
  show "a \<le> a" by (simp add: less_eq_store_key_def)
  show "a \<le> b \<Longrightarrow> b \<le> c \<Longrightarrow> a \<le> c"
    by (auto simp: less_eq_store_key_def dest: trans)
  show "a \<le> b \<Longrightarrow> b \<le> a \<Longrightarrow> a = b"
    by (auto simp: less_eq_store_key_def dest: trans irr)
  show "a \<le> b \<or> b \<le> a"
    using bytes_less_total [of "key_bytes a" "key_bytes b"]
    by (auto simp: less_eq_store_key_def less_store_key_def intro: store_key.expand)
qed

end

text \<open>What a comparison result says of two keys; the code uses the sign only.\<close>

definition cmp_sign :: "c_int \<Rightarrow> 'a::linorder \<Rightarrow> 'a \<Rightarrow> bool" where
  "cmp_sign r a b \<longleftrightarrow> (sint r < 0 \<longleftrightarrow> a < b) \<and> (r = 0 \<longleftrightarrow> a = b)"

lemma cmp_sign_pos: "cmp_sign r a b \<Longrightarrow> 0 < sint r \<longleftrightarrow> b < a"
  by (metis cmp_sign_def linorder_less_linear order_less_imp_not_less signed_eq_0_iff)

lemma memcmp_sign:
  "length xs = length ys \<Longrightarrow> cmp_sign (memcmp xs ys) (StoreKey xs) (StoreKey ys)"
proof (induction xs ys rule: list_induct2)
  case Nil
  then show ?case by (simp add: cmp_sign_def)
next
  case (Cons x xs y ys)
  then show ?case
    by (auto simp: cmp_sign_def less_store_key_def word_less_nat_alt)
qed

lemma sint_word_of_int_small:
  "- (2 ^ 31) \<le> k \<Longrightarrow> k < 2 ^ 31 \<Longrightarrow> sint (word_of_int k :: 32 word) = k"
  by (simp add: signed_of_int signed_take_bit_int_eq_self)

lemma sint_diff_small:
  fixes a b :: "32 word"
  assumes "unat a < 2 ^ 31" "unat b < 2 ^ 31"
  shows "sint (a - b) = int (unat a) - int (unat b)"
proof -
  have a: "a = word_of_int (int (unat a))" and b: "b = word_of_int (int (unat b))" by simp_all
  have "a - b = word_of_int (int (unat a) - int (unat b))"
    by (subst a, subst b) (simp only: wi_hom_sub)
  moreover have "sint (word_of_int (int (unat a) - int (unat b)) :: 32 word) =
      int (unat a) - int (unat b)"
    using assms by (intro sint_word_of_int_small) (simp_all del: of_nat_unat)
  ultimately show ?thesis by (simp only:)
qed

text \<open>
  The comparison of a probe with the item at \<open>p2\<close>: the probe's key bytes \<open>xs\<close> (as many
  as its \<open>key_len\<close> says) against the bytes the item refers to.
\<close>

lemma compare_arg_sign:
  assumes len1: "unat (snd p1) = length xs" "length xs < 2 ^ 31"
    and place: "if place = Off 0
                then fst p1 \<noteq> None \<and> ldn c (the (fst p1)) (length xs) = Some xs
                else cptr_bytes c place (length xs) = Some xs"
    and item: "in_map c p2 16" "unat p2 + 16 < 2 ^ 64"
    and it: "it = rd_item (mbytes c) (unat p2)"
    and key2: "unat (key_len it) < 2 ^ 31" "ldn c (key_offset it) (unat (key_len it)) = Some ys"
  shows "\<exists>r. pupa_store_item_compare_arg c p1 p2 place = Some r \<and>
             cmp_sign r (StoreKey xs) (StoreKey ys)"
proof -
  have a8: "unat (p2 + 8) = unat p2 + 8"
    using item(2) unat_plus64 [of p2 8] by simp
  have ld: "ld32 c (p2 + 8) = Some (key_len it)" "ld64 c p2 = Some (key_offset it)"
    using item(1) by (simp_all add: ld32_def ld64_def in_map_def a8 it rd_item_def)
  have ly: "length ys = unat (key_len it)"
    using key2(2) by (auto simp: ldn_def split: if_splits)
  have s: "sint (snd p1 - key_len it) = int (length xs) - int (length ys)"
    using sint_diff_small [of "snd p1" "key_len it"] len1 key2(1) ly by simp
  show ?thesis
  proof (cases "snd p1 = key_len it")
    case True
    then have eq: "length xs = length ys" using len1 ly by simp
    then have sgn: "cmp_sign (memcmp xs ys) (StoreKey xs) (StoreKey ys)"
      by (rule memcmp_sign)
    have "pupa_store_item_compare_arg c p1 p2 place = Some (memcmp xs ys)"
      using True place len1 key2(2) ly eq
      by (auto simp: pupa_store_item_compare_arg_def ld split: if_splits)
    then show ?thesis using sgn by blast
  next
    case False
    then have ne: "length xs \<noteq> length ys"
      using len1 ly by (metis word_unat_eq_iff)
    then have "cmp_sign (snd p1 - key_len it) (StoreKey xs) (StoreKey ys)"
      using s False by (auto simp: cmp_sign_def less_store_key_def)
    then show ?thesis
      using False by (simp add: pupa_store_item_compare_arg_def ld)
  qed
qed

end
