(* ===== verification/Search.thy ===== *)
theory Search
  imports Compare
begin

text \<open>
  The two binary searches of the store, over a comparison function that takes the address
  of an element: \<open>bsearch\<close> of the C library (as glibc implements it), which every lookup
  calls, and \<open>pupa_bsearch\<close>, which finds the place of a new entry. The second is recursive
  and converts between \<open>int\<close> and \<open>size_t\<close>; it need not return.
\<close>

subsection \<open>The C library's bsearch\<close>

text \<open>The outer option is a fault of the comparison, the inner one the \<open>NULL\<close> result.\<close>

function bsearch_loop ::
  "(addr \<Rightarrow> c_int option) \<Rightarrow> addr \<Rightarrow> size_t \<Rightarrow> nat \<Rightarrow> nat \<Rightarrow> addr option option" where
  "bsearch_loop cmp base sz l u =
     (if l < u then
        do {
          r \<leftarrow> cmp (base + W64 ((l + u) div 2) * sz);
          if sint r < 0 then bsearch_loop cmp base sz l ((l + u) div 2)
          else if 0 < sint r then bsearch_loop cmp base sz (Suc ((l + u) div 2)) u
          else Some (Some (base + W64 ((l + u) div 2) * sz))
        }
      else Some None)"
  by pat_completeness auto
termination
  by (relation "measure (\<lambda>(_, _, _, l, u). u - l)") auto

declare bsearch_loop.simps [simp del]

definition bsearch ::
  "(addr \<Rightarrow> c_int option) \<Rightarrow> addr \<Rightarrow> size_t \<Rightarrow> size_t \<Rightarrow> addr option option" where
  "bsearch cmp base nmemb sz = bsearch_loop cmp base sz 0 (unat nmemb)"

text \<open>A comparison function that compares a probe \<open>k\<close> with an array holding \<open>ks\<close>.\<close>

definition compares_to ::
  "(addr \<Rightarrow> c_int option) \<Rightarrow> addr \<Rightarrow> size_t \<Rightarrow> 'a::linorder \<Rightarrow> 'a list \<Rightarrow> bool" where
  "compares_to cmp base sz k ks \<longleftrightarrow>
     (\<forall>i < length ks. \<exists>r. cmp (base + W64 i * sz) = Some r \<and> cmp_sign r k (ks ! i))"

lemma compares_to_prefix:
  assumes "compares_to cmp base sz k (xs @ ys)"
  shows "compares_to cmp base sz k xs"
  unfolding compares_to_def
proof (intro allI impI)
  fix i
  assume i: "i < length xs"
  then show "\<exists>r. cmp (base + W64 i * sz) = Some r \<and> cmp_sign r k (xs ! i)"
    using assms [unfolded compares_to_def, rule_format, of i] by (simp add: nth_append)
qed

lemma compares_toD:
  assumes "compares_to cmp base sz k ks" "i < length ks"
  shows "\<exists>r. cmp (base + W64 i * sz) = Some r \<and> (sint r < 0 \<longleftrightarrow> k < ks ! i) \<and>
             (0 < sint r \<longleftrightarrow> ks ! i < k) \<and> (r = 0 \<longleftrightarrow> k = ks ! i)"
proof -
  from assms obtain r where r: "cmp (base + W64 i * sz) = Some r" "cmp_sign r k (ks ! i)"
    unfolding compares_to_def by blast
  then show ?thesis
    using cmp_sign_pos [OF r(2)] by (auto simp: cmp_sign_def)
qed

lemma sorted_strict_nth:
  "sorted_wrt (<) ks \<Longrightarrow> i < j \<Longrightarrow> j < length ks \<Longrightarrow> (ks ! i :: 'a::linorder) < ks ! j"
  by (simp add: sorted_wrt_iff_nth_less)

lemma bsearch_loop_result:
  fixes k :: "'a::linorder"
  assumes "compares_to cmp base sz k ks" "sorted_wrt (<) ks" "u \<le> length ks"
    and "\<And>i. i < l \<Longrightarrow> i < length ks \<Longrightarrow> ks ! i < k"
    and "\<And>i. u \<le> i \<Longrightarrow> i < length ks \<Longrightarrow> k < ks ! i"
  shows "if k \<in> set ks
         then \<exists>i < length ks. ks ! i = k \<and>
                bsearch_loop cmp base sz l u = Some (Some (base + W64 i * sz))
         else bsearch_loop cmp base sz l u = Some None"
  using assms
proof (induction cmp base sz l u rule: bsearch_loop.induct)
  case (1 cmp base sz l u)
  note cmp = "1.prems"(1) and srt = "1.prems"(2) and u = "1.prems"(3)
    and lo = "1.prems"(4) and hi = "1.prems"(5)
  let ?m = "(l + u) div 2"
  show ?case
  proof (cases "l < u")
    case False
    then have "k \<notin> set ks"
      using lo hi by (metis in_set_conv_nth linorder_not_less order_less_irrefl order_trans)
    with False show ?thesis by (simp add: bsearch_loop.simps [of cmp base sz l u])
  next
    case True
    then have m: "?m < u" "l \<le> ?m" "?m < length ks" using u by auto
    obtain r where r: "cmp (base + W64 ?m * sz) = Some r" "sint r < 0 \<longleftrightarrow> k < ks ! ?m"
      "0 < sint r \<longleftrightarrow> ks ! ?m < k" "r = 0 \<longleftrightarrow> k = ks ! ?m"
      using compares_toD [OF cmp m(3)] by blast
    consider (lt) "k < ks ! ?m" | (gt) "ks ! ?m < k" | (eq) "k = ks ! ?m"
      by (meson linorder_cases)
    then show ?thesis
    proof cases
      case lt
      have "\<And>i. ?m \<le> i \<Longrightarrow> i < length ks \<Longrightarrow> k < ks ! i"
        using lt srt by (metis le_neq_implies_less order_less_trans sorted_strict_nth)
      then have "if k \<in> set ks
         then \<exists>i < length ks. ks ! i = k \<and>
                bsearch_loop cmp base sz l ?m = Some (Some (base + W64 i * sz))
         else bsearch_loop cmp base sz l ?m = Some None"
        using "1.IH"(1) [OF True r(1) _ cmp srt] r(2) lt lo m by auto
      then show ?thesis
        using True r lt by (simp add: bsearch_loop.simps [of cmp base sz l u])
    next
      case gt
      have "\<And>i. i < Suc ?m \<Longrightarrow> i < length ks \<Longrightarrow> ks ! i < k"
        using gt srt m(3) by (metis less_antisym order_less_trans sorted_strict_nth)
      then have "if k \<in> set ks
         then \<exists>i < length ks. ks ! i = k \<and>
                bsearch_loop cmp base sz (Suc ?m) u = Some (Some (base + W64 i * sz))
         else bsearch_loop cmp base sz (Suc ?m) u = Some None"
        using "1.IH"(2) [OF True r(1) _ _ cmp srt u] r(2,3) gt hi by auto
      then show ?thesis
        using True r gt by (simp add: bsearch_loop.simps [of cmp base sz l u])
    next
      case eq
      then show ?thesis
        using True r m by (auto simp: bsearch_loop.simps [of cmp base sz l u])
    qed
  qed
qed

text \<open>
  What a client relies on: an exact hit in a strictly sorted array is found at its index,
  and a probe that is not there gives \<open>NULL\<close>.
\<close>

locale index_search =
  fixes search :: "(addr \<Rightarrow> c_int option) \<Rightarrow> addr \<Rightarrow> size_t \<Rightarrow> size_t \<Rightarrow> addr option option"
  assumes search_hit:
    "compares_to cmp base sz (k :: store_key) ks \<Longrightarrow> sorted_wrt (<) ks \<Longrightarrow>
     length ks = unat n \<Longrightarrow> i < length ks \<Longrightarrow> ks ! i = k \<Longrightarrow>
     search cmp base n sz = Some (Some (base + W64 i * sz))"
  and search_miss:
    "compares_to cmp base sz (k :: store_key) ks \<Longrightarrow> sorted_wrt (<) ks \<Longrightarrow>
     length ks = unat n \<Longrightarrow> k \<notin> set ks \<Longrightarrow> search cmp base n sz = Some None"
begin

lemma search_total:
  assumes "compares_to cmp base sz (k :: store_key) ks" "sorted_wrt (<) ks" "length ks = unat n"
  shows "\<exists>r. search cmp base n sz = Some r"
proof (cases "k \<in> set ks")
  case True
  then obtain i where "i < length ks" "ks ! i = k" by (auto simp: in_set_conv_nth)
  then show ?thesis using search_hit [OF assms] by blast
next
  case False
  then show ?thesis using search_miss [OF assms] by blast
qed

lemma search_iff:
  assumes "compares_to cmp base sz (k :: store_key) ks" "sorted_wrt (<) ks" "length ks = unat n"
  shows "search cmp base n sz = Some None \<longleftrightarrow> k \<notin> set ks"
proof (cases "k \<in> set ks")
  case True
  then obtain i where "i < length ks" "ks ! i = k" by (auto simp: in_set_conv_nth)
  then show ?thesis using search_hit [OF assms] True by simp
next
  case False
  then show ?thesis using search_miss [OF assms] by simp
qed

end

interpretation libc: index_search bsearch
proof
  fix cmp base sz and n :: size_t and i and k :: store_key and ks
  assume a: "compares_to cmp base sz k ks" "sorted_wrt (<) ks" "length ks = unat n"
  have res: "if k \<in> set ks
         then \<exists>i < length ks. ks ! i = k \<and> bsearch cmp base n sz = Some (Some (base + W64 i * sz))
         else bsearch cmp base n sz = Some None"
    unfolding bsearch_def by (rule bsearch_loop_result [OF a(1,2)]) (use a(3) in simp_all)
  {
    assume i: "i < length ks" "ks ! i = k"
    obtain j where j: "j < length ks" "ks ! j = k"
      "bsearch cmp base n sz = Some (Some (base + W64 j * sz))"
      using res i by (auto split: if_splits)
    have "i = j" using i j(1,2) a(2)
      by (metis linorder_neqE_nat order_less_irrefl sorted_strict_nth)
    then show "bsearch cmp base n sz = Some (Some (base + W64 i * sz))" using j by simp
  }
  {
    assume "k \<notin> set ks"
    then show "bsearch cmp base n sz = Some None" using res by simp
  }
qed

subsection \<open>The insertion search\<close>

text \<open>
  \<open>mid\<close> and the result are \<open>int\<close>, the bounds \<open>size_t\<close>: \<open>mid - 1\<close> passed for \<open>mid = 0\<close>
  becomes the largest \<open>size_t\<close>.
\<close>

partial_function (option) pupa_bsearch ::
  "(addr \<Rightarrow> c_int option) \<Rightarrow> addr \<Rightarrow> size_t \<Rightarrow> size_t \<Rightarrow> size_t \<Rightarrow> c_int option" where
  "pupa_bsearch cmp base sz low high =
     (if high \<le> low then
        do {
          ret \<leftarrow> cmp (base + low * sz);
          if 0 < sint ret then Some (ucast (low + 1)) else Some (ucast low)
        }
      else
        (let mid = ucast ((low + high) div 2) :: c_int in
         do {
           ret \<leftarrow> cmp (base + scast mid * sz);
           if ret = 0 then Some (mid + 1)
           else if 0 < sint ret then pupa_bsearch cmp base sz (scast (mid + 1)) high
           else pupa_bsearch cmp base sz low (scast (mid - 1))
         }))"

declare pupa_bsearch.simps [code]

text \<open>
  Going left from the range \<open>[0, h]\<close> every time, the search ends in the range \<open>[0, 0]\<close>,
  unless it meets \<open>[0, 1]\<close>, whose \<open>mid\<close> is 0.
\<close>

fun left_ok :: "nat \<Rightarrow> bool" where
  "left_ok h = (if h = 0 then True else if h = 1 then False else left_ok (h div 2 - 1))"

declare left_ok.simps [simp del]

text \<open>Where a key belongs: the number of smaller ones.\<close>

definition insert_pos :: "'a::linorder \<Rightarrow> 'a list \<Rightarrow> nat" where
  "insert_pos k ks = length (takeWhile (\<lambda>x. x < k) ks)"

lemma insert_pos_le: "insert_pos k ks \<le> length ks"
  by (simp add: insert_pos_def length_takeWhile_le)

lemma insert_pos_less: "i < insert_pos k ks \<Longrightarrow> ks ! i < k"
  unfolding insert_pos_def
  by (metis nth_mem set_takeWhileD takeWhile_nth)

lemma insert_pos_ge:
  assumes "sorted_wrt (<) ks" "k \<notin> set ks" "insert_pos k ks \<le> i" "i < length ks"
  shows "k < ks ! i"
proof -
  let ?p = "insert_pos k ks"
  have p: "?p < length ks" using assms by simp
  have "\<not> ks ! ?p < k"
    using p unfolding insert_pos_def by (rule nth_length_takeWhile)
  moreover have "ks ! ?p \<noteq> k" using assms(2) p nth_mem by metis
  ultimately have "k < ks ! ?p" by simp
  moreover have "ks ! ?p \<le> ks ! i"
    using assms sorted_strict_nth [OF assms(1), of ?p i]
    by (metis le_neq_implies_less order_less_imp_le order_refl)
  ultimately show ?thesis by simp
qed

lemma insert_pos_less_iff:
  "sorted_wrt (<) ks \<Longrightarrow> k \<notin> set ks \<Longrightarrow> i < length ks \<Longrightarrow> ks ! i < k \<longleftrightarrow> i < insert_pos k ks"
  by (meson insert_pos_ge insert_pos_less not_le_imp_less order_less_asym)

end
