(* ===== verification/Sort.thy ===== *)
theory Sort
  imports Search
begin

text \<open>
  The binary insertion of \<open>pupa_sort\<close>: \<open>pupa_bsearch\<close> finds the place of the last entry
  when it returns, a condition under which it does not, and the effect of the insertion on
  the index area.
\<close>

subsection \<open>The insertion search returns the place of the new key\<close>

lemma bsearch_mid:
  assumes "l + h < 2 ^ 32"
  shows "(ucast ((W64 l + W64 h) div 2) :: c_int) = W32 ((l + h) div 2)"
  using assms W64_div [of "l + h" 2] by (simp add: W64_add W64_numeral ucast_64_32)

lemma bsearch_mid_down: "0 < m \<Longrightarrow> m < 2 ^ 31 \<Longrightarrow> (scast (W32 m - 1) :: size_t) = W64 (m - 1)"
  by (simp add: W32_diff_one scast_32_64)

lemma pupa_bsearch_unfold:
  assumes "l + h < 2 ^ 32" "l < 2 ^ 31" "h < 2 ^ 31"
  shows "pupa_bsearch cmp base sz (W64 l) (W64 h) =
     (if h \<le> l then
        do {
          ret \<leftarrow> cmp (base + W64 l * sz);
          if 0 < sint ret then Some (W32 (l + 1)) else Some (W32 l)
        }
      else
        do {
          ret \<leftarrow> cmp (base + W64 ((l + h) div 2) * sz);
          if ret = 0 then Some (W32 ((l + h) div 2 + 1))
          else if 0 < sint ret then pupa_bsearch cmp base sz (W64 ((l + h) div 2 + 1)) (W64 h)
          else if (l + h) div 2 = 0 then pupa_bsearch cmp base sz (W64 l) (- 1)
          else pupa_bsearch cmp base sz (W64 l) (W64 ((l + h) div 2 - 1))
        })"
proof -
  define m where "m = (l + h) div 2"
  have le: "W64 h \<le> W64 l \<longleftrightarrow> h \<le> l" using assms by (simp add: W64_le_iff)
  have u: "(ucast (W64 l + 1) :: c_int) = W32 (l + 1)" "(ucast (W64 l) :: c_int) = W32 l"
    using assms by (simp_all add: W64_add_one ucast_64_32)
  have m: "m < 2 ^ 31" using assms by (simp add: m_def)
  have mid: "(ucast ((W64 l + W64 h) div 2) :: c_int) = W32 m"
    using assms(1) by (simp add: m_def bsearch_mid)
  have s: "(scast (W32 m) :: size_t) = W64 m"
    using m by (rule scast_32_64)
  have up: "(scast (W32 (Suc m)) :: size_t) = W64 (Suc m)" if "l < h"
    using assms that by (intro scast_32_64) (simp add: m_def)
  have down: "(scast (W32 m - 1) :: size_t) = (if m = 0 then - 1 else W64 (m - 1))"
    using bsearch_mid_down [of m] m by (simp add: W32_def)
  have one: "W32 m + 1 = W32 (m + 1)" by (rule W32_add_one)
  show ?thesis
    unfolding m_def [symmetric]
    by (cases "l < h"; subst pupa_bsearch.simps)
       (simp_all add: Let_def le u mid s up down one cong: if_cong)
qed

lemma pupa_bsearch_range:
  fixes ks :: "'a::linorder list"
  assumes cmp: "compares_to cmp base sz k (ks @ [k])" and srt: "sorted_wrt (<) ks"
    and new: "k \<notin> set ks" and len: "length ks < 2 ^ 31 - 1"
    and "l \<le> insert_pos k ks" "insert_pos k ks \<le> h + 1" "h \<le> length ks"
    and "insert_pos k ks = 0 \<Longrightarrow> left_ok h"
  shows "pupa_bsearch cmp base sz (W64 l) (W64 h) = Some (W32 (insert_pos k ks))"
  using assms(5-8)
proof (induction "h + 1 - l" arbitrary: l h rule: less_induct)
  case less
  let ?p = "insert_pos k ks"
  have pl: "?p \<le> length ks" by (rule insert_pos_le)
  have b: "l + h < 2 ^ 32" "l < 2 ^ 31" "h < 2 ^ 31"
    using less.prems len pl by simp_all
  have at: "\<exists>r. cmp (base + W64 i * sz) = Some r \<and> (0 < sint r \<longleftrightarrow> i < ?p) \<and>
      (r = 0 \<longleftrightarrow> i = length ks)" if i: "i \<le> length ks" for i
  proof -
    have i': "i < length (ks @ [k])" using i by simp
    obtain r where r: "cmp (base + W64 i * sz) = Some r"
      "0 < sint r \<longleftrightarrow> (ks @ [k]) ! i < k" "r = 0 \<longleftrightarrow> k = (ks @ [k]) ! i"
      using compares_toD [OF cmp i'] by blast
    have "(ks @ [k]) ! i < k \<longleftrightarrow> i < ?p" and "k = (ks @ [k]) ! i \<longleftrightarrow> i = length ks"
      using i new pl insert_pos_less_iff [OF srt new, of i] nth_mem [of i ks]
      by (auto simp: nth_append)
    with r show ?thesis by auto
  qed
  show ?case
  proof (cases "h \<le> l")
    case True
    have ll: "l \<le> length ks" using less.prems pl by simp
    obtain r where r: "cmp (base + W64 l * sz) = Some r" "0 < sint r \<longleftrightarrow> l < ?p"
      using at [OF ll] by blast
    have "?p = (if l < ?p then l + 1 else l)" using less.prems True by auto
    then show ?thesis
      using True r by (simp add: pupa_bsearch_unfold [OF b] split: if_splits)
  next
    case False
    let ?m = "(l + h) div 2"
    have m: "l \<le> ?m" "?m < h" "?m < length ks" using False less.prems by auto
    obtain r where r: "cmp (base + W64 ?m * sz) = Some r" "0 < sint r \<longleftrightarrow> ?m < ?p" "r \<noteq> 0"
      using at [of ?m] m(3) by auto
    show ?thesis
    proof (cases "?m < ?p")
      case True
      have "pupa_bsearch cmp base sz (W64 (?m + 1)) (W64 h) = Some (W32 ?p)"
        using less.hyps [of h "?m + 1"] less.prems m True by simp
      then show ?thesis using False r True by (simp add: pupa_bsearch_unfold [OF b])
    next
      case np: False
      have "?m \<noteq> 0"
      proof
        assume m0: "?m = 0"
        then have "?p = 0" "h = 1" using np False by auto
        with less.prems(4) show False by (simp add: left_ok.simps)
      qed
      moreover have "left_ok (?m - 1)" if "?p = 0"
      proof -
        have "l = 0" "left_ok h" using that less.prems by simp_all
        then show ?thesis using False \<open>?m \<noteq> 0\<close> by (simp add: left_ok.simps [of h] split: if_splits)
      qed
      ultimately have "pupa_bsearch cmp base sz (W64 l) (W64 (?m - 1)) = Some (W32 ?p)"
        using less.hyps [of "?m - 1" l] less.prems m np by simp
      then show ?thesis using False r np \<open>?m \<noteq> 0\<close> by (simp add: pupa_bsearch_unfold [OF b])
    qed
  qed
qed

text \<open>The call of \<open>pupa_sort\<close>: the range \<open>[0, count]\<close>, with the new entry at \<open>count\<close>.\<close>

lemma pupa_bsearch_insert_pos:
  fixes ks :: "'a::linorder list"
  assumes "compares_to cmp base sz k (ks @ [k])" "sorted_wrt (<) ks" "k \<notin> set ks"
    "length ks < 2 ^ 31 - 1" "insert_pos k ks = 0 \<Longrightarrow> left_ok (length ks)"
  shows "pupa_bsearch cmp base sz 0 (W64 (length ks)) = Some (W32 (insert_pos k ks))"
  using pupa_bsearch_range [OF assms(1-4), of 0 "length ks"] insert_pos_le [of k ks] assms(5)
  by (simp add: W64_zero)


subsection \<open>When the insertion search does not return\<close>

text \<open>
  Called with \<open>low = 0\<close> and \<open>high = (size_t) -1\<close> or \<open>-2\<close>, the search probes the address one
  element before the array and calls itself with such bounds again.
\<close>

lemma pupa_bsearch_stuck:
  assumes "cmp (base - sz) \<noteq> Some 0" "h = - 1 \<or> h = - 2"
  shows "pupa_bsearch cmp base sz 0 h = None"
proof (rule ccontr)
  assume "pupa_bsearch cmp base sz 0 h \<noteq> None"
  then obtain r where ret: "pupa_bsearch cmp base sz 0 h = Some r" by auto
  have "cmp (base - sz) \<noteq> Some 0 \<longrightarrow> \<not> (0 = (0 :: size_t) \<and> (h = - 1 \<or> h = - 2))"
  proof (rule pupa_bsearch.raw_induct
      [where P = "\<lambda>cmp base sz low high r. cmp (base - sz) \<noteq> Some 0 \<longrightarrow>
         \<not> (low = 0 \<and> (high = - 1 \<or> high = - 2))", OF _ ret], rule impI, rule notI)
    fix f :: "(addr \<Rightarrow> c_int option) \<Rightarrow> addr \<Rightarrow> size_t \<Rightarrow> size_t \<Rightarrow> size_t \<Rightarrow> c_int option"
      and cmp base sz low high r
    assume IH: "\<And>cmp base sz low high r. f cmp base sz low high = Some r \<Longrightarrow>
        cmp (base - sz) \<noteq> Some 0 \<longrightarrow> \<not> (low = 0 \<and> (high = - 1 \<or> high = - 2))"
      and eq: "(if high \<le> low then cmp (base + low * sz) \<bind>
          (\<lambda>ret. if 0 < sint ret then Some (ucast (low + 1)) else Some (ucast low))
        else let mid = ucast ((low + high) div 2) :: c_int
          in cmp (base + scast mid * sz) \<bind>
            (\<lambda>ret. if ret = 0 then Some (mid + 1)
               else if 0 < sint ret then f cmp base sz (scast (mid + 1)) high
               else f cmp base sz low (scast (mid - 1)))) = Some r"
      and nz: "cmp (base - sz) \<noteq> Some 0" and at: "low = 0 \<and> (high = - 1 \<or> high = - 2)"
    have mid: "(ucast ((low + high) div 2) :: c_int) = - 1" using at by auto
    have "\<not> high \<le> low" using at by auto
    with eq mid obtain a where a: "cmp (base - sz) = Some a"
      and rec: "a = 0 \<or> f cmp base sz 0 high = Some r \<or> f cmp base sz low (- 2) = Some r"
      by (auto simp: Let_def bind_Some_iff split: if_splits)
    from rec show False using IH [of cmp base sz] nz a at by auto
  qed
  with assms show False by simp
qed

lemma pupa_bsearch_diverges:
  fixes ks :: "'a::linorder list"
  assumes cmp: "compares_to cmp base sz k ks" and srt: "sorted_wrt (<) ks"
    and below: "\<forall>x \<in> set ks. k < x" and len: "length ks < 2 ^ 31 - 1"
    and h: "h \<le> length ks" "\<not> left_ok h" and nz: "cmp (base - sz) \<noteq> Some 0"
  shows "pupa_bsearch cmp base sz 0 (W64 h) = None"
  using h
proof (induction h rule: less_induct)
  case (less h)
  have b: "0 + h < 2 ^ 32" "(0 :: nat) < 2 ^ 31" "h < 2 ^ 31" using less.prems len by simp_all
  have h0: "h \<noteq> 0" using less.prems(2) left_ok.simps [of h] by metis
  let ?m = "h div 2"
  have m: "?m < length ks" using less.prems h0 by simp
  obtain r where r: "cmp (base + W64 ?m * sz) = Some r" "0 < sint r \<longleftrightarrow> ks ! ?m < k"
    "r = 0 \<longleftrightarrow> k = ks ! ?m"
    using compares_toD [OF cmp m] by blast
  have "k < ks ! ?m" using below m by simp
  then have step: "pupa_bsearch cmp base sz 0 (W64 h) =
      (if ?m = 0 then pupa_bsearch cmp base sz 0 (- 1)
       else pupa_bsearch cmp base sz 0 (W64 (?m - 1)))"
    using r h0 pupa_bsearch_unfold [OF b, of cmp base sz] by (auto simp: W64_zero [symmetric])
  show ?case
  proof (cases "?m = 0")
    case True
    then show ?thesis using step pupa_bsearch_stuck [of cmp base sz "- 1"] nz by simp
  next
    case False
    then have "h \<noteq> 1" by auto
    then have "\<not> left_ok (?m - 1)"
      using less.prems(2) h0 by (simp add: left_ok.simps [of h])
    then have "pupa_bsearch cmp base sz 0 (W64 (?m - 1)) = None"
      using less.IH [of "?m - 1"] less.prems(1) h0 by linarith
    then show ?thesis using step False by simp
  qed
qed

subsection \<open>The insertion\<close>

text \<open>
  \<open>malloc_ok\<close> says whether the call of \<open>malloc\<close> succeeds; \<open>p\<close> is the copy of the last
  entry it holds. The comparison of the code is \<open>_pupa_store_item_compare\<close> with the wrapper
  \<open>w\<close> as its argument.
\<close>

definition pupa_sort ::
  "bool \<Rightarrow> pupa_ctx \<Rightarrow> addr \<Rightarrow> size_t \<Rightarrow> size_t \<Rightarrow> pupa_store_item_wrapper \<Rightarrow> pupa_ctx option" where
  "pupa_sort malloc_ok c base n sz w =
     (let count = ucast (n - 1) :: c_int in
      if \<not> malloc_ok then Some c
      else
        do {
          p \<leftarrow> ldn c (base + scast count * sz) (unat sz);
          let elt = rd_item (\<lambda>i. p ! i) 0;
          pos \<leftarrow> pupa_bsearch
            (\<lambda>p2. pupa_store_item_compare_arg c (Some (key_offset elt), key_len elt) p2 (w_key w))
            base sz 0 (scast count);
          if sint pos < sint count then
            do {
              c \<leftarrow> memmove c (base + scast (pos + 1) * sz) (base + scast pos * sz)
                     (unat (scast (count - pos) * sz));
              stn c (base + scast pos * sz) p
            }
          else Some c
        })"

text \<open>The bytes after the insertion of entry \<open>count\<close> at \<open>pos\<close>, entries taking 64 bytes.\<close>

definition insert_slot :: "(nat \<Rightarrow> byte) \<Rightarrow> nat \<Rightarrow> nat \<Rightarrow> nat \<Rightarrow> (nat \<Rightarrow> byte)" where
  "insert_slot m b pos count =
     (if pos < count then
        put_bytes
          (put_bytes m (b + 64 * (pos + 1)) (bytes_at m (b + 64 * pos) (64 * (count - pos))))
          (b + 64 * pos) (bytes_at m (b + 64 * count) 64)
      else m)"

lemma insert_slot_outside:
  "x < b \<or> b + 64 * (count + 1) \<le> x \<Longrightarrow> insert_slot m b pos count x = m x"
  by (auto simp: insert_slot_def mem_simps)

lemma insert_slot_bytes:
  assumes "pos \<le> count" "i \<le> count" "j < 64"
  shows "insert_slot m b pos count (b + 64 * i + j) =
     m (b + 64 * (if i < pos then i else if i = pos then count else i - 1) + j)"
proof -
  consider "pos = count" | "pos < count" "i < pos" | "pos < count" "i = pos"
    | "pos < count" "pos < i"
    using assms by linarith
  then show ?thesis
  proof cases
    case 4
    then obtain d where d: "i = pos + 1 + d" by (metis Suc_eq_plus1 less_iff_Suc_add add_Suc)
    then show ?thesis
      using 4 assms by (simp add: insert_slot_def put_bytes_outside put_bytes_inside)
        (simp add: algebra_simps)
  qed (use assms in \<open>auto simp: insert_slot_def put_bytes_outside put_bytes_inside\<close>)
qed


lemma rd_item_copy: "16 \<le> n \<Longrightarrow> rd_item (\<lambda>i. bytes_at m a n ! i) 0 = rd_item m a"
proof -
  assume n: "16 \<le> n"
  have "bytes_at (\<lambda>i. bytes_at m a n ! i) j k = bytes_at m (a + j) k" if "j + k \<le> n" for j k
    using that by (intro nth_equalityI) (auto simp: add.assoc)
  then show ?thesis using n by (simp add: rd_item_def rd32_def rd64_def)
qed

lemma in_mapI: "unat a + n \<le> msize c \<Longrightarrow> in_map c a n"
  by (simp add: in_map_def)

lemma pupa_sort_inserts:
  assumes room: "b + 64 * (Suc (length ks)) \<le> msize c" "msize c < 2 ^ 63" "mwritable c"
    and e: "e = rd_item (mbytes c) (b + 64 * length ks)"
    and cmp: "compares_to
        (\<lambda>p2. pupa_store_item_compare_arg c (Some (key_offset e), key_len e) p2 (w_key w))
        (W64 b) 64 (k :: store_key) (ks @ [k])"
    and srt: "sorted_wrt (<) ks" and new: "k \<notin> set ks" and len: "length ks < 2 ^ 31 - 1"
    and ok: "insert_pos k ks = 0 \<Longrightarrow> left_ok (length ks)"
  shows "pupa_sort True c (W64 b) (W64 (Suc (length ks))) 64 w =
     Some (c\<lparr>mbytes := insert_slot (mbytes c) b (insert_pos k ks) (length ks)\<rparr>)"
proof -
  let ?n = "length ks" and ?pos = "insert_pos k ks" and ?m = "mbytes c"
  have pos: "?pos \<le> ?n" by (rule insert_pos_le)
  have n1: "(ucast (W64 (Suc ?n) - 1) :: c_int) = W32 ?n"
  proof -
    have "W64 (Suc ?n) - 1 = W64 ?n" by (simp add: W64_def)
    then show ?thesis using len by (simp add: ucast_64_32)
  qed
  have cn: "scast (W32 ?n) = W64 ?n" "scast (W32 ?pos) = W64 ?pos"
    "scast (W32 ?pos + 1) = W64 (Suc ?pos)"
    using len pos by (simp_all add: scast_32_64 addr_simps)
  have addr: "unat (W64 (b + 64 * i)) = b + 64 * i" if "i \<le> Suc ?n" for i
    using room that by (intro unat_W64) simp
  have a: "W64 b + W64 i * 64 = W64 (b + 64 * i)" for i
    by (simp add: addr_simps mult.commute)
  have last: "ldn c (W64 b + W64 ?n * 64) 64 = Some (bytes_at ?m (b + 64 * ?n) 64)"
    using room addr [of ?n] by (simp add: a ldn_def in_map_def)
  have srch: "pupa_bsearch
      (\<lambda>p2. pupa_store_item_compare_arg c (Some (key_offset e), key_len e) p2 (w_key w))
      (W64 b) 64 0 (W64 ?n) = Some (W32 ?pos)"
    by (rule pupa_bsearch_insert_pos [OF cmp srt new len ok])
  have sgn: "sint (W32 ?pos) < sint (W32 ?n) \<longleftrightarrow> ?pos < ?n"
    using len pos by (simp add: sint_W32)
  show ?thesis
  proof (cases "?pos < ?n")
    case False
    then show ?thesis
      using last srch sgn
      by (simp add: pupa_sort_def Let_def n1 cn rd_item_copy e [symmetric] insert_slot_def)
  next
    case True
    have d: "(scast (W32 ?n - W32 ?pos) :: size_t) * 64 = W64 (64 * (?n - ?pos))"
    proof -
      have "W32 ?n - W32 ?pos = W32 (?n - ?pos)" using pos by (simp add: W32_def of_nat_diff)
      then show ?thesis using len by (simp add: scast_32_64 addr_simps mult.commute)
    qed
    have du: "unat (W64 (64 * (?n - ?pos))) = 64 * (?n - ?pos)"
      using room by (intro unat_W64) simp
    have ld: "ldn c (W64 (b + 64 * ?pos)) (64 * (?n - ?pos)) =
        Some (bytes_at ?m (b + 64 * ?pos) (64 * (?n - ?pos)))"
      using room True addr [of ?pos] by (simp add: ldn_def in_map_def)
    show ?thesis
      using last srch sgn True room addr [of ?pos] addr [of "Suc ?pos"] pos
      by (simp add: pupa_sort_def Let_def n1 cn rd_item_copy e [symmetric] d du memmove_def a
          ld stn_def in_map_def insert_slot_def)
  qed
qed

end
