(* ===== verification/Shm.thy ===== *)
theory Shm
  imports Layout
begin

text \<open>
  \<open>pupa_shm.c\<close>: mapping the store file, synchronising and unmapping it. The files are a map
  from paths to their size and bytes; the outcome of each system call (and of \<open>malloc\<close>) is a
  field of \<open>os_env\<close>, \<open>True\<close> for success, on top of the failures POSIX prescribes for the
  arguments the code passes (opening a missing file without \<open>O_CREAT\<close>, a negative
  \<open>ftruncate\<close> length, an empty \<open>mmap\<close>).
\<close>

record os_env =
  malloc_ok :: bool
  open_ok :: bool
  fstat_ok :: bool
  ftruncate_ok :: bool
  mmap_ok :: bool
  msync_ok :: bool
  munmap_ok :: bool

definition env_good :: os_env where
  "env_good = \<lparr>malloc_ok = True, open_ok = True, fstat_ok = True, ftruncate_ok = True,
     mmap_ok = True, msync_ok = True, munmap_ok = True\<rparr>"

record disk_file =
  file_size :: nat
  file_bytes :: "nat \<Rightarrow> byte"

type_synonym disk = "string \<Rightarrow> disk_file option"

definition empty_file :: disk_file where
  "empty_file = \<lparr>file_size = 0, file_bytes = (\<lambda>_. 0)\<rparr>"

text \<open>The mapping of a whole file, established at \<open>shm->data\<close>.\<close>

definition map_file :: "pupa_ctx \<Rightarrow> disk_file \<Rightarrow> bool \<Rightarrow> pupa_ctx" where
  "map_file c f rw = c\<lparr>mbytes := file_bytes f, msize := file_size f, mwritable := rw\<rparr>"

definition pupa_shm_init_ro :: "os_env \<Rightarrow> disk \<Rightarrow> pupa_ctx \<Rightarrow> int \<times> pupa_ctx" where
  "pupa_shm_init_ro env d c =
     (case d (shm_path (shm c)) of
        None \<Rightarrow> (PUPA_ERROR, c)
      | Some f \<Rightarrow>
          if \<not> open_ok env then (PUPA_ERROR, c)
          else if \<not> fstat_ok env then (PUPA_ERROR, c)
          else if file_size f = 0 then (PUPA_ERROR, c)
          else
            (let c = c\<lparr>shm := (shm c)\<lparr>shm_size := W64 (file_size f), shm_exists := True\<rparr>\<rparr> in
             if \<not> mmap_ok env then (PUPA_ERROR, c)
             else (PUPA_OK, map_file c f False)))"

text \<open>\<open>open\<close> with \<open>O_CREAT\<close>.\<close>

definition open_create :: "disk \<Rightarrow> string \<Rightarrow> disk_file \<times> disk" where
  "open_create d p =
     (case d p of None \<Rightarrow> (empty_file, d(p \<mapsto> empty_file)) | Some f \<Rightarrow> (f, d))"

definition pupa_shm_init_rw :: "os_env \<Rightarrow> disk \<Rightarrow> pupa_ctx \<Rightarrow> int \<times> pupa_ctx \<times> disk" where
  "pupa_shm_init_rw env d c =
     (if \<not> open_ok env then (PUPA_ERROR, c, d)
      else
        (let (f, d) = open_create d (shm_path (shm c)) in
         if \<not> fstat_ok env then (PUPA_ERROR, c, d)
         else
           (let sz = (if file_size f = 0 then shm_size (shm c) else W64 (file_size f));
                c = c\<lparr>shm := (shm c)\<lparr>shm_exists := file_size f \<noteq> 0, shm_size := sz\<rparr>\<rparr> in
            if \<not> shm_exists (shm c) \<and> (\<not> ftruncate_ok env \<or> sint sz < 0)
            then (PUPA_ERROR, c, d)
            else
              (let f = (if shm_exists (shm c) then f else f\<lparr>file_size := unat sz\<rparr>);
                   d = d(shm_path (shm c) \<mapsto> f) in
               if \<not> mmap_ok env \<or> sz = 0 then (PUPA_ERROR, c, d)
               else (PUPA_OK, map_file c f True, d)))))"

definition pupa_shm_init :: "os_env \<Rightarrow> disk \<Rightarrow> pupa_ctx \<Rightarrow> int \<Rightarrow> int \<times> pupa_ctx \<times> disk" where
  "pupa_shm_init env d c op_type =
     (if op_type = PUPA_OP_TYPE_RO
      then (case pupa_shm_init_ro env d c of (ret, c) \<Rightarrow> (ret, c, d))
      else pupa_shm_init_rw env d c)"

definition pupa_shm_sync :: "os_env \<Rightarrow> pupa_ctx \<Rightarrow> int" where
  "pupa_shm_sync env c = (if msync_ok env then PUPA_OK else PUPA_ERROR)"

text \<open>After \<open>munmap\<close> neither \<open>store_hdr\<close> nor a pointer into the mapping leads anywhere.\<close>

definition pupa_shm_fini :: "os_env \<Rightarrow> pupa_ctx \<Rightarrow> int \<times> pupa_ctx" where
  "pupa_shm_fini env c =
     (if munmap_ok env then (PUPA_OK, c\<lparr>mapped := False, msize := 0\<rparr>) else (PUPA_ERROR, c))"

end
