(* ===== verification/Store.thy ===== *)
theory Store
  imports Sort Shm
begin

text \<open>
  The operations of \<open>pupa_store.c\<close> on a mapped store: lookups, the snapshot of the index,
  the two compactions, insertion, replacement and deletion. Each returns its C result code
  and the context after it, errors included; \<open>None\<close> is a fault (see \<open>Prelude\<close>).
\<close>

subsection \<open>Lookups\<close>

definition probe :: "pupa_str \<Rightarrow> pupa_store_item_wrapper" where
  "probe key = \<lparr>w_key_len = str_len key + 1, w_key = str_data key\<rparr>"

text \<open>The second component is what \<open>*value\<close> is set to, if it is set.\<close>

definition pupa_store_get ::
  "pupa_ctx \<Rightarrow> pupa_str \<Rightarrow> c_int \<Rightarrow> (int \<times> pupa_str option \<times> pupa_ctx) option" where
  "pupa_store_get c key version =
     do {
       h \<leftarrow> load_hdr c;
       if sint (max_ver_num h) < sint version then Some (PUPA_EXCEED_MAXIMUM_NUM, None, c)
       else
         (let c = c\<lparr>store_items := PUPA_STORE_GET_ADDR (item_section h)\<rparr> in
          do {
            found \<leftarrow> bsearch (pupa_store_item_compare c (probe key)) (store_items c)
                       (sec_used (item_section h)) (item_stride h);
            case found of
              None \<Rightarrow> Some (PUPA_NOT_FOUND, None, c)
            | Some p \<Rightarrow>
                do {
                  it \<leftarrow> load_item c p;
                  if key_len it = 0 then Some (PUPA_ERROR, None, c)
                  else if sint (val_cnt it) < sint version
                  then Some (PUPA_NOT_FOUND_VALUE, None, c)
                  else
                    do {
                      v \<leftarrow> load_item_val c (p + sizeof_item
                             + scast (max_ver_num h) * sizeof_item_val
                             - scast version * sizeof_item_val);
                      Some (PUPA_OK,
                        Some \<lparr>str_len = value_len v, str_data = Off (0 + value_offset v)\<rparr>, c)
                    }
                }
          })
     }"

text \<open>The entries written to \<open>values\<close>, from index 0 on.\<close>

function values_loop :: "pupa_ctx \<Rightarrow> addr \<Rightarrow> int \<Rightarrow> int \<Rightarrow> pupa_str list option" where
  "values_loop c pv lo i =
     (if lo \<le> i then
        do {
          v \<leftarrow> load_item_val c (pv + word_of_int i * sizeof_item_val);
          rest \<leftarrow> values_loop c pv lo (i - 1);
          Some (\<lparr>str_len = value_len v, str_data = Off (0 + value_offset v)\<rparr> # rest)
        }
      else Some [])"
  by pat_completeness auto
termination
  by (relation "measure (\<lambda>(_, _, lo, i). nat (i - lo + 1))") auto

declare values_loop.simps [simp del]

definition pupa_store_get_values ::
  "pupa_ctx \<Rightarrow> pupa_str \<Rightarrow> (int \<times> pupa_str list \<times> pupa_ctx) option" where
  "pupa_store_get_values c key =
     do {
       h \<leftarrow> load_hdr c;
       let c = c\<lparr>store_items := PUPA_STORE_GET_ADDR (item_section h)\<rparr>;
       found \<leftarrow> bsearch (pupa_store_item_compare c (probe key)) (store_items c)
                  (sec_used (item_section h)) (item_stride h);
       case found of
         None \<Rightarrow> Some (PUPA_NOT_FOUND, [], c)
       | Some p \<Rightarrow>
           do {
             it \<leftarrow> load_item c p;
             if key_len it = 0 then Some (PUPA_ERROR, [], c)
             else
               do {
                 vs \<leftarrow> values_loop c (p + sizeof_item)
                         (sint (max_ver_num h) - sint (val_cnt it)) (sint (max_ver_num h) - 1);
                 Some (PUPA_OK, vs, c)
               }
           }
     }"

subsection \<open>The snapshot of the index\<close>

definition pupa_store_item_make_snapshot :: "pupa_ctx \<Rightarrow> pupa_ctx option" where
  "pupa_store_item_make_snapshot c =
     do {
       h \<leftarrow> load_hdr c;
       let p = PUPA_STORE_GET_SNAPSHOT_ADDR (item_section h);
       c \<leftarrow> (if sec_used (item_section h) \<noteq> 0
             then memcpy c p (store_items c) (unat (item_stride h * sec_used (item_section h)))
             else Some c);
       Some (c\<lparr>store_items_snapshot := p\<rparr>)
     }"

subsection \<open>Compaction\<close>

text \<open>
  The inner loop of \<open>pupa_store_value_compaction\<close> over the values of the item at \<open>item\<close>.
  The code adds \<open>sizeof(pupa_store_item_t) + j * sizeof(pupa_store_item_val_t)\<close> to a pointer
  to items, so that number is scaled by the item size.
\<close>

function compact_item_values ::
  "pupa_ctx \<Rightarrow> addr \<Rightarrow> addr \<Rightarrow> size_t \<Rightarrow> size_t \<Rightarrow> nat \<Rightarrow> (pupa_ctx \<times> size_t) option" where
  "compact_item_values c item p offset used j =
     do {
       cnt \<leftarrow> ld32 c (item + 12);
       if int j < sint cnt then
         (let pv = item + (sizeof_item + W64 j * sizeof_item_val) * sizeof_item in
          do {
            v \<leftarrow> load_item_val c pv;
            c \<leftarrow> memcpy c (p + used) (0 + value_offset v) (unat (value_len v));
            c \<leftarrow> st64 c pv (offset + used);
            len \<leftarrow> ld32 c (pv + 8);
            compact_item_values c item p offset (used + ucast len) (Suc j)
          })
       else Some (c, used)
     }"
  by pat_completeness auto
termination
proof (relation "measure (\<lambda>(_, _, _, _, _, j). 2 ^ 31 - j)", goal_cases)
  case 1
  then show ?case by simp
next
  case (2 c item p offset used j cnt)
  have "sint cnt < 2 ^ 31" using sint_lt [of cnt] by simp
  with 2 have "j < 2 ^ 31" by simp
  then show ?case by simp
qed

declare compact_item_values.simps [simp del]

text \<open>The outer loop; \<open>ctx->store_items_snapshot[i]\<close> steps by the item size.\<close>

function compact_values ::
  "pupa_ctx \<Rightarrow> addr \<Rightarrow> size_t \<Rightarrow> size_t \<Rightarrow> nat \<Rightarrow> (pupa_ctx \<times> size_t) option" where
  "compact_values c p offset used i =
     do {
       h \<leftarrow> load_hdr c;
       if i < unat (sec_used (item_section h)) then
         do {
           (c, used) \<leftarrow> compact_item_values c (store_items_snapshot c + W64 i * sizeof_item)
                          p offset used 0;
           compact_values c p offset used (Suc i)
         }
       else Some (c, used)
     }"
  by pat_completeness auto
termination
proof (relation "measure (\<lambda>(_, _, _, _, i). 2 ^ 64 - i)", goal_cases)
  case 1
  then show ?case by simp
next
  case (2 c p offset used i h)
  then have "i < 2 ^ 64"
    using unsigned_less [of "sec_used (item_section h)", where ?'a = nat] by simp
  then show ?case by simp
qed

declare compact_values.simps [simp del]

text \<open>The second component is what \<open>*address\<close> is set to, if it is set.\<close>

definition pupa_store_value_compaction ::
  "pupa_ctx \<Rightarrow> pupa_str \<Rightarrow> (int \<times> addr option \<times> pupa_ctx) option" where
  "pupa_store_value_compaction c val =
     do {
       h \<leftarrow> load_hdr c;
       let p = PUPA_STORE_GET_SNAPSHOT_ADDR (value_section h);
       let offset = PUPA_STORE_GET_SNAPSHOT_OFFSET (value_section h);
       (c, used) \<leftarrow> compact_values c p offset 0 0;
       h \<leftarrow> load_hdr c;
       if sec_size (value_section h) < scast (str_len val + 1) + used
       then Some (PUPA_OVERFLOW, None, c)
       else
         do {
           c \<leftarrow> put_sec_used c value_section_addr used;
           h \<leftarrow> load_hdr c;
           c \<leftarrow> put_sec_id c value_section_addr
                 (PUPA_STORE_GET_SEC_SNAPSHOT_ID (value_section h));
           Some (PUPA_OK, Some (p + used), c)
         }
     }"

function compact_keys ::
  "pupa_ctx \<Rightarrow> addr \<Rightarrow> size_t \<Rightarrow> size_t \<Rightarrow> nat \<Rightarrow> (pupa_ctx \<times> size_t) option" where
  "compact_keys c p offset used i =
     do {
       h \<leftarrow> load_hdr c;
       if i < unat (sec_used (item_section h)) then
         (let item = store_items_snapshot c + W64 i * sizeof_item in
          do {
            it \<leftarrow> load_item c item;
            c \<leftarrow> memcpy c (p + used) (0 + key_offset it) (unat (key_len it));
            c \<leftarrow> st64 c item (offset + used);
            len \<leftarrow> ld32 c (item + 8);
            compact_keys c p offset (used + ucast len) (Suc i)
          })
       else Some (c, used)
     }"
  by pat_completeness auto
termination
proof (relation "measure (\<lambda>(_, _, _, _, i). 2 ^ 64 - i)", goal_cases)
  case 1
  then show ?case by simp
next
  case (2 c p offset used i h)
  then have "i < 2 ^ 64"
    using unsigned_less [of "sec_used (item_section h)", where ?'a = nat] by simp
  then show ?case by simp
qed

declare compact_keys.simps [simp del]

definition pupa_store_key_compaction ::
  "pupa_ctx \<Rightarrow> pupa_str \<Rightarrow> (int \<times> addr option \<times> pupa_ctx) option" where
  "pupa_store_key_compaction c key =
     do {
       h \<leftarrow> load_hdr c;
       let p = PUPA_STORE_GET_SNAPSHOT_ADDR (key_section h);
       let offset = PUPA_STORE_GET_SNAPSHOT_OFFSET (key_section h);
       (c, used) \<leftarrow> compact_keys c p offset 0 0;
       h \<leftarrow> load_hdr c;
       if sec_size (key_section h) < scast (str_len key + 1) + used
       then Some (PUPA_OVERFLOW, None, c)
       else
         do {
           c \<leftarrow> put_sec_used c key_section_addr used;
           h \<leftarrow> load_hdr c;
           c \<leftarrow> put_sec_id c key_section_addr
                 (PUPA_STORE_GET_SEC_SNAPSHOT_ID (key_section h));
           Some (PUPA_OK, Some p, c)
         }
     }"


subsection \<open>Storing keys and values\<close>

text \<open>
  Where a value goes: the free space of the current value section, or the space behind the
  compacted values when it does not fit. The result code, the address, the offset of its
  section.
\<close>

definition value_place ::
  "pupa_ctx \<Rightarrow> pupa_str \<Rightarrow> (int \<times> addr option \<times> size_t \<times> pupa_ctx) option" where
  "value_place c val =
     do {
       h \<leftarrow> load_hdr c;
       if sec_size (value_section h) < sec_used (value_section h) + scast (str_len val + 1)
       then
         do {
           let offset = PUPA_STORE_GET_SNAPSHOT_OFFSET (value_section h);
           (ret, p, c) \<leftarrow> pupa_store_value_compaction c val;
           Some (ret, p, offset, c)
         }
       else
         Some (PUPA_OK, Some (PUPA_STORE_GET_FREE_ADDR (value_section h)),
               PUPA_STORE_GET_OFFSET (value_section h), c)
     }"

definition key_place ::
  "pupa_ctx \<Rightarrow> pupa_str \<Rightarrow> (int \<times> addr option \<times> size_t \<times> pupa_ctx) option" where
  "key_place c key =
     do {
       h \<leftarrow> load_hdr c;
       if sec_size (key_section h) < sec_used (key_section h) + scast (str_len key + 1)
       then
         do {
           let offset = PUPA_STORE_GET_SNAPSHOT_OFFSET (key_section h);
           (ret, p, c) \<leftarrow> pupa_store_key_compaction c key;
           Some (ret, p, offset, c)
         }
       else
         Some (PUPA_OK, Some (PUPA_STORE_GET_FREE_ADDR (key_section h)),
               PUPA_STORE_GET_OFFSET (key_section h), c)
     }"

text \<open>\<open>memcpy(p, s->data, s->len); p += s->len; *p = '\0'\<close>\<close>

definition put_str :: "pupa_ctx \<Rightarrow> addr \<Rightarrow> pupa_str \<Rightarrow> pupa_ctx option" where
  "put_str c p s =
     do {
       bs \<leftarrow> cptr_bytes c (str_data s) (unat (scast (str_len s) :: size_t));
       c \<leftarrow> stn c p bs;
       st8 c (p + scast (str_len s)) 0
     }"

text \<open>The end of an insertion or replacement: the value record at \<open>pv\<close> and \<open>used\<close>.\<close>

definition put_item_val :: "pupa_ctx \<Rightarrow> addr \<Rightarrow> size_t \<Rightarrow> pupa_str \<Rightarrow> pupa_ctx option" where
  "put_item_val c pv offset val =
     do {
       h \<leftarrow> load_hdr c;
       c \<leftarrow> st64 c pv (offset + sec_used (value_section h));
       st32 c (pv + 8) (str_len val + 1)
     }"

definition add_value_used :: "pupa_ctx \<Rightarrow> addr \<Rightarrow> pupa_ctx option" where
  "add_value_used c pv =
     do {
       h \<leftarrow> load_hdr c;
       len \<leftarrow> ld32 c (pv + 8);
       put_sec_used c value_section_addr (sec_used (value_section h) + ucast len)
     }"

text \<open>The first half of \<open>pupa_store_item_add\<close>: the key, its length and its offset.\<close>

definition item_add_key ::
  "pupa_ctx \<Rightarrow> addr \<Rightarrow> pupa_str \<Rightarrow> addr \<Rightarrow> size_t \<Rightarrow> pupa_ctx option" where
  "item_add_key c item key p offset =
     do {
       c \<leftarrow> st32 c (item + 8) (str_len key + 1);
       h \<leftarrow> load_hdr c;
       c \<leftarrow> st64 c item (offset + sec_used (key_section h));
       c \<leftarrow> put_str c p key;
       h \<leftarrow> load_hdr c;
       len \<leftarrow> ld32 c (item + 8);
       put_sec_used c key_section_addr (sec_used (key_section h) + ucast len)
     }"

definition item_add_value ::
  "pupa_ctx \<Rightarrow> addr \<Rightarrow> pupa_str \<Rightarrow> addr \<Rightarrow> size_t \<Rightarrow> pupa_ctx option" where
  "item_add_value c item val p offset =
     do {
       c \<leftarrow> put_str c p val;
       h \<leftarrow> load_hdr c;
       let pv = item + sizeof_item + scast (max_ver_num h) * sizeof_item_val - sizeof_item_val;
       c \<leftarrow> put_item_val c pv offset val;
       c \<leftarrow> st32 c (item + 12) 1;
       add_value_used c pv
     }"

definition pupa_store_item_add ::
  "pupa_ctx \<Rightarrow> addr \<Rightarrow> pupa_str \<Rightarrow> pupa_str \<Rightarrow> (int \<times> pupa_ctx) option" where
  "pupa_store_item_add c item key val =
     do {
       h \<leftarrow> load_hdr c;
       if sec_used (item_section h) = sec_size (item_section h) then Some (PUPA_OVERFLOW, c)
       else
         do {
           (ret, p, offset, c) \<leftarrow> key_place c key;
           case p of
             None \<Rightarrow> Some (ret, c)
           | Some p \<Rightarrow>
               do {
                 c \<leftarrow> item_add_key c item key p offset;
                 (ret, p, offset, c) \<leftarrow> value_place c val;
                 case p of
                   None \<Rightarrow> Some (ret, c)
                 | Some p \<Rightarrow>
                     do {
                       c \<leftarrow> item_add_value c item val p offset;
                       Some (PUPA_OK, c)
                     }
               }
         }
     }"

text \<open>
  \<open>pupa_store_item_replace\<close>. The value records of an item are kept at the end of its array:
  the newest at index \<open>max_ver_num - 1\<close>. The two copies move records that overlap.
\<close>

definition item_shift_values :: "pupa_ctx \<Rightarrow> addr \<Rightarrow> (addr \<times> pupa_ctx) option" where
  "item_shift_values c item =
     do {
       h \<leftarrow> load_hdr c;
       cnt \<leftarrow> ld32 c (item + 12);
       let pv = item + sizeof_item;
       let maxv = max_ver_num h;
       if maxv = 1 then Some (pv, c)
       else if sint maxv \<le> sint cnt then
         do {
           c \<leftarrow> memcpy c pv (pv + sizeof_item_val) (unat (scast (cnt - 1) * sizeof_item_val));
           Some (pv + scast (cnt - 1) * sizeof_item_val, c)
         }
       else
         do {
           c \<leftarrow> memcpy c (pv + scast (maxv - cnt - 1) * sizeof_item_val)
                 (pv + scast (maxv - cnt) * sizeof_item_val)
                 (unat (scast cnt * sizeof_item_val));
           c \<leftarrow> st32 c (item + 12) (cnt + 1);
           Some (pv + scast (maxv - 1) * sizeof_item_val, c)
         }
     }"

definition pupa_store_item_replace ::
  "pupa_ctx \<Rightarrow> addr \<Rightarrow> pupa_str \<Rightarrow> (int \<times> pupa_ctx) option" where
  "pupa_store_item_replace c item val =
     do {
       (ret, p, offset, c) \<leftarrow> value_place c val;
       case p of
         None \<Rightarrow> Some (ret, c)
       | Some p \<Rightarrow>
           do {
             c \<leftarrow> put_str c p val;
             (pv, c) \<leftarrow> item_shift_values c item;
             c \<leftarrow> put_item_val c pv offset val;
             c \<leftarrow> add_value_used c pv;
             Some (PUPA_OK, c)
           }
     }"

subsection \<open>Set and delete\<close>

text \<open>\<open>p_item_section->id = PUPA_STORE_GET_SEC_SNAPSHOT_ID(...)\<close> of the item section\<close>

definition switch_items :: "pupa_ctx \<Rightarrow> pupa_ctx option" where
  "switch_items c =
     do {
       h \<leftarrow> load_hdr c;
       put_sec_id c item_section_addr (PUPA_STORE_GET_SEC_SNAPSHOT_ID (item_section h))
     }"

text \<open>The part of \<open>pupa_store_set\<close> that follows a successful insertion.\<close>

definition set_resort :: "os_env \<Rightarrow> pupa_ctx \<Rightarrow> pupa_str \<Rightarrow> size_t \<Rightarrow> pupa_ctx option" where
  "set_resort env c key stride =
     do {
       h \<leftarrow> load_hdr c;
       c \<leftarrow> put_sec_used c item_section_addr (sec_used (item_section h) + 1);
       h \<leftarrow> load_hdr c;
       c \<leftarrow> pupa_sort (malloc_ok env) c (store_items_snapshot c) (sec_used (item_section h))
             stride ((probe key)\<lparr>w_key := Off 0\<rparr>);
       Some (c\<lparr>store_items := store_items_snapshot c\<rparr>)
     }"

definition pupa_store_set ::
  "os_env \<Rightarrow> pupa_ctx \<Rightarrow> pupa_str \<Rightarrow> pupa_str \<Rightarrow> (int \<times> pupa_ctx) option" where
  "pupa_store_set env c key val =
     do {
       c \<leftarrow> pupa_store_item_make_snapshot c;
       h \<leftarrow> load_hdr c;
       let stride = item_stride h;
       found \<leftarrow> bsearch (pupa_store_item_compare c (probe key)) (store_items_snapshot c)
                  (sec_used (item_section h)) stride;
       (ret, c) \<leftarrow>
         (case found of
            None \<Rightarrow> pupa_store_item_add c
              (store_items_snapshot c + sec_used (item_section h) * stride) key val
          | Some p \<Rightarrow> pupa_store_item_replace c p val);
       if ret \<noteq> PUPA_OK then Some (ret, c)
       else
         do {
           c \<leftarrow> (if found = None then set_resort env c key stride else Some c);
           c \<leftarrow> switch_items c;
           Some (pupa_shm_sync env c, c)
         }
     }"

text \<open>
  \<open>p_store_item - ctx->store_items_snapshot\<close> is a difference of pointers to items, and
  \<open>p_store_item + 1\<close> is one item further: both count in units of \<open>sizeof(pupa_store_item_t)\<close>.
\<close>

definition item_diff :: "addr \<Rightarrow> addr \<Rightarrow> size_t" where
  "item_diff p q = (p - q) div sizeof_item"

definition pupa_store_del ::
  "os_env \<Rightarrow> pupa_ctx \<Rightarrow> pupa_str \<Rightarrow> (int \<times> pupa_ctx) option" where
  "pupa_store_del env c key =
     do {
       c \<leftarrow> pupa_store_item_make_snapshot c;
       h \<leftarrow> load_hdr c;
       let stride = item_stride h;
       let used = sec_used (item_section h);
       found \<leftarrow> bsearch (pupa_store_item_compare c (probe key)) (store_items_snapshot c)
                  used stride;
       case found of
         None \<Rightarrow> Some (PUPA_NOT_FOUND, c)
       | Some p \<Rightarrow>
           do {
             let i = item_diff p (store_items_snapshot c);
             c \<leftarrow> (if i + 1 < used
                   then memcpy c p (p + sizeof_item) (unat (stride * (used - i + 1)))
                   else Some c);
             c \<leftarrow> switch_items c;
             h \<leftarrow> load_hdr c;
             c \<leftarrow> put_sec_used c item_section_addr (sec_used (item_section h) - 1);
             Some (pupa_shm_sync env c, c)
           }
     }"

end
