(* ===== verification/Inv.thy ===== *)
theory Inv
  imports Store
begin

text \<open>
  What a mapped store means and when it is well formed, for the three versions per key that
  \<open>pupa_init\<close> asks for (an index entry then takes 64 bytes).

  \<open>entries\<close> decodes an index area into keys and values, \<open>store_map\<close> is the abstract
  key-value map of a store: a key, stored with its terminating zero, leads to its values,
  newest first. \<open>store_wf\<close> is the invariant: the header is one \<open>pupa_store_init\<close> made and the
  operations updated, the entries fit into an index area, their keys and values lie in the
  used parts of the current sections, and the index is strictly sorted.
\<close>

subsection \<open>Decoding the index\<close>

definition item_key :: "(nat \<Rightarrow> byte) \<Rightarrow> nat \<Rightarrow> store_key" where
  "item_key m a =
     (let it = rd_item m a in StoreKey (bytes_at m (unat (key_offset it)) (unat (key_len it))))"

definition item_val :: "(nat \<Rightarrow> byte) \<Rightarrow> nat \<Rightarrow> nat \<Rightarrow> pupa_store_item_val" where
  "item_val m a j = rd_item_val m (a + 16 + 16 * j)"

definition val_bytes :: "(nat \<Rightarrow> byte) \<Rightarrow> pupa_store_item_val \<Rightarrow> byte list" where
  "val_bytes m v = bytes_at m (unat (value_offset v)) (unat (value_len v))"

text \<open>Version \<open>r\<close> of a key is at index \<open>3 - r\<close>.\<close>

definition item_values :: "(nat \<Rightarrow> byte) \<Rightarrow> nat \<Rightarrow> byte list list" where
  "item_values m a =
     map (\<lambda>r. val_bytes m (item_val m a (3 - r))) [1..<Suc (unat (val_cnt (rd_item m a)))]"

definition entry :: "(nat \<Rightarrow> byte) \<Rightarrow> nat \<Rightarrow> store_key \<times> byte list list" where
  "entry m a = (item_key m a, item_values m a)"

definition entries :: "(nat \<Rightarrow> byte) \<Rightarrow> nat \<Rightarrow> nat \<Rightarrow> (store_key \<times> byte list list) list" where
  "entries m b n = map (\<lambda>i. entry m (b + 64 * i)) [0..<n]"

lemma length_entries [simp]: "length (entries m b n) = n"
  by (simp add: entries_def)

lemma nth_entries [simp]: "i < n \<Longrightarrow> entries m b n ! i = entry m (b + 64 * i)"
  by (simp add: entries_def)

subsection \<open>The header as a view\<close>

record store_view =
  v_keys :: nat
  v_item_one :: bool
  v_key_one :: bool
  v_val_one :: bool
  v_used :: nat
  v_key_used :: nat
  v_val_used :: nat

definition view_of :: "pupa_ctx \<Rightarrow> store_view" where
  "view_of c =
     (let h = rd_hdr (mbytes c) in
      \<lparr>v_keys = unat (sec_size (item_section h)),
       v_item_one = (sec_id (item_section h) = 1),
       v_key_one = (sec_id (key_section h) = 1),
       v_val_one = (sec_id (value_section h) = 1),
       v_used = unat (sec_used (item_section h)),
       v_key_used = unat (sec_used (key_section h)),
       v_val_used = unat (sec_used (value_section h))\<rparr>)"

definition sec_no :: "bool \<Rightarrow> byte" where
  "sec_no one = (if one then 1 else 2)"

lemma sec_no_eq_1 [simp]: "sec_no one = 1 \<longleftrightarrow> one"
  by (simp add: sec_no_def)

text \<open>Start of the current and of the other area of each kind, as offsets in the file.\<close>

definition item_area_at :: "nat \<Rightarrow> bool \<Rightarrow> nat" where
  "item_area_at n one = (if one then 128 else 176 + 16 * n)"

definition key_area_at :: "nat \<Rightarrow> bool \<Rightarrow> nat" where
  "key_area_at n one = (if one then 224 + 32 * n else 224 + 96 * n)"

definition val_area_at :: "nat \<Rightarrow> bool \<Rightarrow> nat" where
  "val_area_at n one = (if one then 224 + 160 * n else 224 + 416 * n)"

definition file_len :: "nat \<Rightarrow> nat" where
  "file_len n = 224 + 672 * n"

lemmas areas = item_area_at_def key_area_at_def val_area_at_def file_len_def

abbreviation i_base :: "store_view \<Rightarrow> nat" where
  "i_base s \<equiv> item_area_at (v_keys s) (v_item_one s)"

abbreviation i_snap :: "store_view \<Rightarrow> nat" where
  "i_snap s \<equiv> item_area_at (v_keys s) (\<not> v_item_one s)"

abbreviation k_base :: "store_view \<Rightarrow> nat" where
  "k_base s \<equiv> key_area_at (v_keys s) (v_key_one s)"

abbreviation v_base :: "store_view \<Rightarrow> nat" where
  "v_base s \<equiv> val_area_at (v_keys s) (v_val_one s)"

definition view_hdr :: "store_view \<Rightarrow> pupa_store_hdr" where
  "view_hdr s =
     \<lparr>max_ver_num = W32 3,
      item_section =
        \<lparr>sec_id = sec_no (v_item_one s), sec_size = W64 (v_keys s), sec_used = W64 (v_used s),
         sec1_offset = W64 (item_area_at (v_keys s) True),
         sec2_offset = W64 (item_area_at (v_keys s) False)\<rparr>,
      key_section =
        \<lparr>sec_id = sec_no (v_key_one s), sec_size = W64 (64 * v_keys s),
         sec_used = W64 (v_key_used s),
         sec1_offset = W64 (key_area_at (v_keys s) True),
         sec2_offset = W64 (key_area_at (v_keys s) False)\<rparr>,
      value_section =
        \<lparr>sec_id = sec_no (v_val_one s), sec_size = W64 (256 * v_keys s),
         sec_used = W64 (v_val_used s),
         sec1_offset = W64 (val_area_at (v_keys s) True),
         sec2_offset = W64 (val_area_at (v_keys s) False)\<rparr>\<rparr>"

text \<open>The header of a new file is the view of an empty store.\<close>

definition fresh_view :: "nat \<Rightarrow> store_view" where
  "fresh_view n =
     \<lparr>v_keys = n, v_item_one = True, v_key_one = True, v_val_one = True,
      v_used = 0, v_key_used = 0, v_val_used = 0\<rparr>"

lemma layout_hdr_view: "layout_hdr n 3 = view_hdr (fresh_view n)"
  by (simp add: layout_hdr_def view_hdr_def fresh_view_def item_area_def areas sec_no_def
      W64_zero) (simp add: add.commute)

lemma layout_total_3: "layout_total n 3 = file_len n"
  by (simp add: layout_total_def item_area_def file_len_def)

subsection \<open>The invariant\<close>

definition val_ok :: "store_view \<Rightarrow> (nat \<Rightarrow> byte) \<Rightarrow> pupa_store_item_val \<Rightarrow> bool" where
  "val_ok s m v \<longleftrightarrow>
     v_base s \<le> unat (value_offset v) \<and>
     unat (value_offset v) + unat (value_len v) \<le> v_base s + v_val_used s \<and>
     1 \<le> unat (value_len v) \<and>
     m (unat (value_offset v) + unat (value_len v) - 1) = 0"

definition item_ok :: "store_view \<Rightarrow> (nat \<Rightarrow> byte) \<Rightarrow> nat \<Rightarrow> bool" where
  "item_ok s m a \<longleftrightarrow>
     (let it = rd_item m a; n = unat (val_cnt it) in
      k_base s \<le> unat (key_offset it) \<and>
      unat (key_offset it) + unat (key_len it) \<le> k_base s + v_key_used s \<and>
      1 \<le> unat (key_len it) \<and>
      m (unat (key_offset it) + unat (key_len it) - 1) = 0 \<and>
      1 \<le> n \<and> n \<le> 3 \<and>
      (\<forall>j < 3. 3 - n \<le> j \<longrightarrow> val_ok s m (item_val m a j)))"

text \<open>What a search needs of an entry: its key lies in the current key section.\<close>

definition key_ok :: "store_view \<Rightarrow> (nat \<Rightarrow> byte) \<Rightarrow> nat \<Rightarrow> bool" where
  "key_ok s m a \<longleftrightarrow>
     (let it = rd_item m a in
      k_base s \<le> unat (key_offset it) \<and>
      unat (key_offset it) + unat (key_len it) \<le> k_base s + v_key_used s \<and>
      1 \<le> unat (key_len it))"

lemma item_ok_key_ok: "item_ok s m a \<Longrightarrow> key_ok s m a"
  by (simp add: item_ok_def key_ok_def Let_def)

text \<open>\<open>index_ok s m b\<close>: the index at \<open>b\<close> has the entries \<open>s\<close> counts, in strict order.\<close>

definition index_ok :: "store_view \<Rightarrow> (nat \<Rightarrow> byte) \<Rightarrow> nat \<Rightarrow> bool" where
  "index_ok s m b \<longleftrightarrow>
     (\<forall>i < v_used s. item_ok s m (b + 64 * i)) \<and>
     sorted_wrt (<) (map fst (entries m b (v_used s)))"

text \<open>
  The bounds on what a view counts. \<open>pupa_store_init\<close> gives an index area \<open>16 n + 48\<close> bytes,
  enough for a quarter of the \<open>n\<close> entries that \<open>pupa_store_item_add\<close> allows.
\<close>

definition view_ok :: "store_view \<Rightarrow> bool" where
  "view_ok s \<longleftrightarrow>
     file_len (v_keys s) < 2 ^ 31 \<and> v_used s \<le> v_keys s \<and>
     64 * v_used s \<le> 16 * v_keys s + 48 \<and>
     v_key_used s \<le> 64 * v_keys s \<and> v_val_used s \<le> 256 * v_keys s"

definition wf_view :: "store_view \<Rightarrow> pupa_ctx \<Rightarrow> bool" where
  "wf_view s c \<longleftrightarrow>
     mapped c \<and> msize c = file_len (v_keys s) \<and> rd_hdr (mbytes c) = view_hdr s \<and>
     view_ok s \<and> index_ok s (mbytes c) (i_base s)"

definition store_wf :: "pupa_ctx \<Rightarrow> bool" where
  "store_wf c = wf_view (view_of c) c"

definition store_entries :: "pupa_ctx \<Rightarrow> (store_key \<times> byte list list) list" where
  "store_entries c = entries (mbytes c) (i_base (view_of c)) (v_used (view_of c))"

definition store_map :: "pupa_ctx \<Rightarrow> store_key \<Rightarrow> byte list list option" where
  "store_map c = map_of (store_entries c)"

text \<open>
  The pointer \<open>ctx->store_items\<close> leads to the current index area. A lookup and an insertion
  establish this, a replacement and a deletion do not.
\<close>

definition synced :: "pupa_ctx \<Rightarrow> bool" where
  "synced c \<longleftrightarrow> store_items c = W64 (i_base (view_of c))"

lemma view_of_hdr:
  assumes "rd_hdr (mbytes c) = view_hdr s" "v_used s < 2 ^ 64" "v_keys s < 2 ^ 64"
    "v_key_used s < 2 ^ 64" "v_val_used s < 2 ^ 64"
  shows "view_of c = s"
  using assms by (simp add: view_of_def view_hdr_def unat_W64)

lemma wf_viewD:
  assumes "wf_view s c"
  shows "mapped c" "msize c = file_len (v_keys s)" "224 + 672 * v_keys s < 2 ^ 31"
    "rd_hdr (mbytes c) = view_hdr s" "v_used s \<le> v_keys s"
    "64 * v_used s \<le> 16 * v_keys s + 48"
    "v_key_used s \<le> 64 * v_keys s" "v_val_used s \<le> 256 * v_keys s"
    "sorted_wrt (<) (map fst (entries (mbytes c) (i_base s) (v_used s)))"
  using assms by (auto simp: wf_view_def view_ok_def index_ok_def file_len_def)

lemma wf_view_item: "wf_view s c \<Longrightarrow> i < v_used s \<Longrightarrow> item_ok s (mbytes c) (i_base s + 64 * i)"
  by (simp add: wf_view_def index_ok_def)

lemma wf_view_index: "wf_view s c \<Longrightarrow> view_ok s \<and> index_ok s (mbytes c) (i_base s)"
  by (simp add: wf_view_def)

lemma view_okD:
  assumes "view_ok s"
  shows "224 + 672 * v_keys s < 2 ^ 31" "v_used s \<le> v_keys s"
    "64 * v_used s \<le> 16 * v_keys s + 48"
    "v_key_used s \<le> 64 * v_keys s" "v_val_used s \<le> 256 * v_keys s"
  using assms by (simp_all add: view_ok_def file_len_def)

lemma index_okD:
  assumes "index_ok s m b"
  shows "\<And>i. i < v_used s \<Longrightarrow> item_ok s m (b + 64 * i)"
    "sorted_wrt (<) (map fst (entries m b (v_used s)))"
  using assms by (simp_all add: index_ok_def)

lemma wf_view_view: "wf_view s c \<Longrightarrow> view_of c = s"
  using wf_viewD [of s c] by (intro view_of_hdr) auto

lemma wf_view_wf: "wf_view s c \<Longrightarrow> store_wf c"
  by (simp add: store_wf_def wf_view_view)

lemma store_entries_view: "wf_view s c \<Longrightarrow> store_entries c = entries (mbytes c) (i_base s) (v_used s)"
  by (simp add: store_entries_def wf_view_view)

lemma load_hdr_wf: "wf_view s c \<Longrightarrow> load_hdr c = Some (view_hdr s)"
  using wf_viewD [of s c] by (simp add: load_hdr_def sizeof_hdr_def file_len_def)

text \<open>
  A store in which a search finds every entry, whatever the values of the entries are.
\<close>

definition searchable :: "store_view \<Rightarrow> pupa_ctx \<Rightarrow> bool" where
  "searchable s c \<longleftrightarrow>
     mapped c \<and> msize c = file_len (v_keys s) \<and> rd_hdr (mbytes c) = view_hdr s \<and> view_ok s \<and>
     (\<forall>i < v_used s. key_ok s (mbytes c) (i_base s + 64 * i)) \<and>
     sorted_wrt (<) (map fst (entries (mbytes c) (i_base s) (v_used s)))"

lemma wf_searchable: "wf_view s c \<Longrightarrow> searchable s c"
  by (auto simp: wf_view_def searchable_def index_ok_def item_ok_key_ok)

lemma searchableD:
  assumes "searchable s c"
  shows "mapped c" "msize c = file_len (v_keys s)" "224 + 672 * v_keys s < 2 ^ 31"
    "rd_hdr (mbytes c) = view_hdr s" "v_used s \<le> v_keys s"
    "64 * v_used s \<le> 16 * v_keys s + 48" "v_key_used s \<le> 64 * v_keys s"
    "sorted_wrt (<) (map fst (entries (mbytes c) (i_base s) (v_used s)))"
    "\<And>i. i < v_used s \<Longrightarrow> key_ok s (mbytes c) (i_base s + 64 * i)"
    "load_hdr c = Some (view_hdr s)" "view_of c = s"
proof -
  show c: "mapped c" "msize c = file_len (v_keys s)" "224 + 672 * v_keys s < 2 ^ 31"
    "rd_hdr (mbytes c) = view_hdr s" "v_used s \<le> v_keys s"
    "64 * v_used s \<le> 16 * v_keys s + 48" "v_key_used s \<le> 64 * v_keys s"
    "sorted_wrt (<) (map fst (entries (mbytes c) (i_base s) (v_used s)))"
    "\<And>i. i < v_used s \<Longrightarrow> key_ok s (mbytes c) (i_base s + 64 * i)"
    using assms by (simp_all add: searchable_def view_ok_def file_len_def)
  show "load_hdr c = Some (view_hdr s)"
    using c(1-4) by (simp add: load_hdr_def sizeof_hdr_def file_len_def)
  show "view_of c = s"
    using assms c(3,5-7) by (intro view_of_hdr [OF c(4)]) (simp_all add: searchable_def view_ok_def)
qed

lemma item_stride_view: "item_stride (view_hdr s) = 64"
  by (simp add: item_stride_def item_len_def view_hdr_def sizeofs W32_def)

lemma view_hdr_macros:
  "PUPA_STORE_GET_ADDR (item_section (view_hdr s)) = W64 (i_base s)"
  "PUPA_STORE_GET_SNAPSHOT_ADDR (item_section (view_hdr s)) = W64 (i_snap s)"
  "PUPA_STORE_GET_FREE_ADDR (key_section (view_hdr s)) = W64 (k_base s + v_key_used s)"
  "PUPA_STORE_GET_OFFSET (key_section (view_hdr s)) = W64 (k_base s)"
  "PUPA_STORE_GET_FREE_ADDR (value_section (view_hdr s)) = W64 (v_base s + v_val_used s)"
  "PUPA_STORE_GET_OFFSET (value_section (view_hdr s)) = W64 (v_base s)"
  "PUPA_STORE_GET_SEC_SNAPSHOT_ID (item_section (view_hdr s)) = sec_no (\<not> v_item_one s)"
  by (simp_all add: section_macros section_ids view_hdr_def W64_add sec_no_def)

lemma view_hdr_sel:
  "max_ver_num (view_hdr s) = W32 3"
  "sec_used (item_section (view_hdr s)) = W64 (v_used s)"
  "sec_size (item_section (view_hdr s)) = W64 (v_keys s)"
  "sec_used (key_section (view_hdr s)) = W64 (v_key_used s)"
  "sec_size (key_section (view_hdr s)) = W64 (64 * v_keys s)"
  "sec_used (value_section (view_hdr s)) = W64 (v_val_used s)"
  "sec_size (value_section (view_hdr s)) = W64 (256 * v_keys s)"
  by (simp_all add: view_hdr_def)

lemmas view_simps = item_stride_view view_hdr_macros view_hdr_sel

subsection \<open>Entries depend on their slot and on the used key and value space\<close>

lemma item_val_cong:
  "j < 3 \<Longrightarrow> (\<And>i. i < 64 \<Longrightarrow> m' (a' + i) = m (a + i)) \<Longrightarrow> item_val m' a' j = item_val m a j"
proof -
  assume j: "j < 3" and eq: "\<And>i. i < 64 \<Longrightarrow> m' (a' + i) = m (a + i)"
  have "bytes_at m' (a' + (16 + 16 * j + k)) l = bytes_at m (a + (16 + 16 * j + k)) l"
    if "16 + 16 * j + k + l \<le> 64" for k l
    using eq that by (intro nth_equalityI) (simp_all add: add.assoc)
  from this [of 0 8] this [of 8 4] show ?thesis
    using j by (simp add: item_val_def rd_item_val_def rd64_def rd32_def algebra_simps)
qed

lemma rd_item_shift:
  assumes eq: "\<And>i. i < 64 \<Longrightarrow> m' (a' + i) = m (a + i)"
  shows "rd_item m' a' = rd_item m a"
proof -
  have "bytes_at m' (a' + k) l = bytes_at m (a + k) l" if "k + l \<le> 64" for k l
    using eq that by (intro nth_equalityI) (simp_all add: add.assoc)
  from this [of 0 8] this [of 8 4] this [of 12 4] show ?thesis
    by (simp add: rd_item_def rd64_def rd32_def)
qed

lemma entry_transfer:
  assumes ok: "item_ok s m a"
    and slot: "\<And>i. i < 64 \<Longrightarrow> m' (a' + i) = m (a + i)"
    and keys: "\<And>x. k_base s \<le> x \<Longrightarrow> x < k_base s + v_key_used s \<Longrightarrow> m' x = m x"
    and vals: "\<And>x. v_base s \<le> x \<Longrightarrow> x < v_base s + v_val_used s \<Longrightarrow> m' x = m x"
    and s': "k_base s' = k_base s" "v_base s' = v_base s"
      "v_key_used s \<le> v_key_used s'" "v_val_used s \<le> v_val_used s'"
  shows "item_ok s' m' a'" "entry m' a' = entry m a"
proof -
  let ?it = "rd_item m a"
  let ?n = "unat (val_cnt ?it)"
  note it = rd_item_shift [of m' a' m a, OF slot]
  note iv = item_val_cong [of _ m' a' m a, OF _ slot]
  have v: "val_ok s m (item_val m a j)" if "j < 3" "3 - ?n \<le> j" for j
    using ok that by (simp add: item_ok_def Let_def)
  have kr: "k_base s \<le> unat (key_offset ?it)" "1 \<le> unat (key_len ?it)"
    "unat (key_offset ?it) + unat (key_len ?it) \<le> k_base s + v_key_used s"
    "m (unat (key_offset ?it) + unat (key_len ?it) - 1) = 0"
    and n: "1 \<le> ?n" "?n \<le> 3"
    using ok by (simp_all add: item_ok_def Let_def)
  have vb: "val_bytes m' (item_val m a j) = val_bytes m (item_val m a j)"
    "val_ok s' m' (item_val m a j)" if "j < 3" "3 - ?n \<le> j" for j
    using v [OF that] s' vals
    by (auto simp: val_bytes_def val_ok_def intro!: bytes_at_cong)
  have key: "item_key m' a' = item_key m a"
    using kr keys by (auto simp: item_key_def it Let_def intro!: bytes_at_cong)
  have "m' (unat (key_offset ?it) + unat (key_len ?it) - 1) = 0"
    using kr by (subst keys) auto
  then show "item_ok s' m' a'"
    using kr n s' vb(2) by (auto simp: item_ok_def Let_def it iv)
  have "item_values m' a' = item_values m a"
    using n by (auto simp: item_values_def it iv vb(1) simp del: upt_Suc)
  then show "entry m' a' = entry m a" by (simp add: entry_def key)
qed

text \<open>Copied or rearranged slots of a well-formed index give the rearranged entries.\<close>

lemma entries_transfer:
  assumes ok: "\<And>i. i < n \<Longrightarrow> item_ok s m (b + 64 * f i)"
    and slot: "\<And>i j. i < n \<Longrightarrow> j < 64 \<Longrightarrow> m' (b' + 64 * i + j) = m (b + 64 * f i + j)"
    and keys: "\<And>x. k_base s \<le> x \<Longrightarrow> x < k_base s + v_key_used s \<Longrightarrow> m' x = m x"
    and vals: "\<And>x. v_base s \<le> x \<Longrightarrow> x < v_base s + v_val_used s \<Longrightarrow> m' x = m x"
    and s': "k_base s' = k_base s" "v_base s' = v_base s"
      "v_key_used s \<le> v_key_used s'" "v_val_used s \<le> v_val_used s'"
  shows "\<forall>i < n. item_ok s' m' (b' + 64 * i)"
    "entries m' b' n = map (\<lambda>i. entry m (b + 64 * f i)) [0..<n]"
proof -
  have tr: "item_ok s' m' (b' + 64 * i) \<and> entry m' (b' + 64 * i) = entry m (b + 64 * f i)"
    if "i < n" for i
    using entry_transfer [OF ok [OF that] slot [OF that] keys vals s'] by blast
  then show "\<forall>i < n. item_ok s' m' (b' + 64 * i)" by blast
  show "entries m' b' n = map (\<lambda>i. entry m (b + 64 * f i)) [0..<n]"
    using tr by (auto simp: entries_def)
qed

end
