(* ===== verification/Lookup.thy ===== *)
theory Lookup
  imports Inv
begin

text \<open>
  Lookups in a well-formed store: what \<open>pupa_store_get\<close> and \<open>pupa_store_get_values\<close> return
  for every key and version, in terms of the abstract map. The binary search is used through
  its interface (\<open>libc.search_hit\<close>, \<open>libc.search_miss\<close>).
\<close>

subsection \<open>Strings of the caller\<close>

text \<open>
  A zero-terminated string in a buffer of the caller, as the SDKs pass it; the key under
  which the store keeps it includes the zero.
\<close>

definition cstr :: "pupa_str \<Rightarrow> byte list \<Rightarrow> bool" where
  "cstr s bs \<longleftrightarrow>
     str_len s = W32 (length bs) \<and> length bs + 1 < 2 ^ 31 \<and>
     (case str_data s of Ext buf \<Rightarrow> length bs < length buf \<and> take (length bs + 1) buf = bs @ [0]
      | Off _ \<Rightarrow> False)"

definition mk_str :: "byte list \<Rightarrow> pupa_str" where
  "mk_str bs = \<lparr>str_len = W32 (length bs), str_data = Ext (bs @ [0])\<rparr>"

lemma cstr_mk_str: "length bs + 1 < 2 ^ 31 \<Longrightarrow> cstr (mk_str bs) bs"
  by (simp add: cstr_def mk_str_def)

definition stored :: "byte list \<Rightarrow> byte list" where
  "stored bs = bs @ [0]"

abbreviation skey :: "byte list \<Rightarrow> store_key" where
  "skey bs \<equiv> StoreKey (stored bs)"

text \<open>The string \<open>s\<close> a lookup returned denotes the bytes \<open>bs\<close>.\<close>

definition denotes :: "pupa_ctx \<Rightarrow> pupa_str \<Rightarrow> byte list \<Rightarrow> bool" where
  "denotes c s bs \<longleftrightarrow>
     unat (str_len s) = length bs \<and> cptr_bytes c (str_data s) (length bs) = Some bs"

lemma cstr_place:
  assumes "cstr s bs"
  shows "str_data s \<noteq> Off 0" "cptr_bytes c (str_data s) (length bs + 1) = Some (stored bs)"
    "cptr_bytes c (str_data s) (length bs) = Some bs"
    "str_len s = W32 (length bs)" "length bs + 1 < 2 ^ 31"
proof -
  obtain buf where b: "str_data s = Ext buf" "length bs < length buf"
    "take (length bs + 1) buf = bs @ [0]"
    using assms by (auto simp: cstr_def split: cptr.splits)
  have "take (length bs) buf = take (length bs) (take (length bs + 1) buf)" by simp
  also have "\<dots> = bs" by (simp only: b(3)) simp
  finally show "cptr_bytes c (str_data s) (length bs) = Some bs"
    using b by (simp add: cptr_bytes_def)
  show "str_data s \<noteq> Off 0" "cptr_bytes c (str_data s) (length bs + 1) = Some (stored bs)"
    using b by (simp_all add: cptr_bytes_def stored_def)
  show "str_len s = W32 (length bs)" "length bs + 1 < 2 ^ 31"
    using assms by (simp_all add: cstr_def)
qed

lemma length_stored [simp]: "length (stored bs) = length bs + 1"
  by (simp add: stored_def)

subsection \<open>The comparison on a well-formed index\<close>

lemma item_ok_key:
  assumes ok: "key_ok s m a" and ku: "v_key_used s \<le> 64 * v_keys s"
    and sz: "msize c = file_len (v_keys s)" "file_len (v_keys s) < 2 ^ 31" "mbytes c = m"
  shows "unat (key_len (rd_item m a)) < 2 ^ 31"
    "ldn c (key_offset (rd_item m a)) (unat (key_len (rd_item m a))) =
       Some (key_bytes (item_key m a))"
  using assms
  by (auto simp: key_ok_def Let_def areas ldn_def in_map_def item_key_def split: if_splits)

lemma compares_to_entries:
  assumes ok: "\<And>i. i < u \<Longrightarrow> key_ok s (mbytes c) (b + 64 * i)"
    and sz: "msize c = file_len (v_keys s)" "file_len (v_keys s) < 2 ^ 31"
    and ku: "v_key_used s \<le> 64 * v_keys s" and fit: "b + 64 * u \<le> file_len (v_keys s)"
    and p1: "unat (snd p1) = length xs" "length xs < 2 ^ 31"
    and place: "if place = Off 0
                then fst p1 \<noteq> None \<and> ldn c (the (fst p1)) (length xs) = Some xs
                else cptr_bytes c place (length xs) = Some xs"
  shows "compares_to (\<lambda>p2. pupa_store_item_compare_arg c p1 p2 place) (W64 b) 64
           (StoreKey xs) (map fst (entries (mbytes c) b u))"
  unfolding compares_to_def
proof (intro allI impI)
  fix i
  assume "i < length (map fst (entries (mbytes c) b u))"
  then have i: "i < u" by simp
  let ?a = "b + 64 * i"
  have a: "W64 b + W64 i * 64 = W64 ?a" by (simp add: addr_simps mult.commute)
  have u: "unat (W64 ?a) = ?a" using fit i sz by (intro unat_W64) simp
  have "in_map c (W64 ?a) 16" "unat (W64 ?a) + 16 < 2 ^ 64"
    using fit i sz by (simp_all add: in_map_def u)
  moreover have "rd_item (mbytes c) ?a = rd_item (mbytes c) (unat (W64 ?a))" by (simp add: u)
  ultimately obtain r where r: "pupa_store_item_compare_arg c p1 (W64 ?a) place = Some r"
    "cmp_sign r (StoreKey xs) (StoreKey (key_bytes (item_key (mbytes c) ?a)))"
    using compare_arg_sign [OF p1 place] item_ok_key [OF ok [OF i] ku sz refl] by blast
  then show "\<exists>r. pupa_store_item_compare_arg c p1 (W64 b + W64 i * 64) place = Some r \<and>
        cmp_sign r (StoreKey xs) (map fst (entries (mbytes c) b u) ! i)"
    using i by (simp add: a entry_def)
qed

lemma compares_to_probe:
  assumes "\<And>i. i < u \<Longrightarrow> key_ok s (mbytes c) (b + 64 * i)"
    "msize c = file_len (v_keys s)" "file_len (v_keys s) < 2 ^ 31"
    "v_key_used s \<le> 64 * v_keys s" "b + 64 * u \<le> file_len (v_keys s)" "cstr key kb"
  shows "compares_to (pupa_store_item_compare c (probe key)) (W64 b) 64
           (skey kb) (map fst (entries (mbytes c) b u))"
  unfolding pupa_store_item_compare_def [abs_def]
proof (rule compares_to_entries [OF assms(1-5)])
  note k = cstr_place [OF assms(6)]
  show "unat (snd (None, w_key_len (probe key))) = length (stored kb)"
    using k(4,5) by (simp add: probe_def W32_add_one unat_W32)
  show "length (stored kb) < 2 ^ 31" using k(5) by simp
  show "if w_key (probe key) = Off 0
        then fst (None, w_key_len (probe key)) \<noteq> None \<and>
          ldn c (the (fst (None, w_key_len (probe key)))) (length (stored kb)) = Some (stored kb)
        else cptr_bytes c (w_key (probe key)) (length (stored kb)) = Some (stored kb)"
    using k(1,2) by (simp add: probe_def)
qed auto

text \<open>The search of every operation, on the current index and on its copy.\<close>

lemma bsearch_entries:
  assumes "\<And>i. i < u \<Longrightarrow> key_ok s (mbytes c) (b + 64 * i)"
    "msize c = file_len (v_keys s)" "file_len (v_keys s) < 2 ^ 31"
    "v_key_used s \<le> 64 * v_keys s" "b + 64 * u \<le> file_len (v_keys s)" "cstr key kb"
    and srt: "sorted_wrt (<) (map fst (entries (mbytes c) b u))"
  shows "\<And>i. i < u \<Longrightarrow> item_key (mbytes c) (b + 64 * i) = skey kb \<Longrightarrow>
      bsearch (pupa_store_item_compare c (probe key)) (W64 b) (W64 u) 64 =
        Some (Some (W64 (b + 64 * i)))"
    and "skey kb \<notin> fst ` set (entries (mbytes c) b u) \<Longrightarrow>
      bsearch (pupa_store_item_compare c (probe key)) (W64 b) (W64 u) 64 = Some None"
proof -
  note cmp = compares_to_probe [OF assms(1-6)]
  have u: "u < 2 ^ 64" using assms(3,5) by simp
  have len: "length (map fst (entries (mbytes c) b u)) = unat (W64 u)"
    using u by (simp add: unat_W64)
  show "bsearch (pupa_store_item_compare c (probe key)) (W64 b) (W64 u) 64 =
        Some (Some (W64 (b + 64 * i)))"
    if "i < u" "item_key (mbytes c) (b + 64 * i) = skey kb" for i
    using libc.search_hit [OF cmp srt len, of i] that
    by (simp add: entry_def addr_simps mult.commute)
  show "bsearch (pupa_store_item_compare c (probe key)) (W64 b) (W64 u) 64 = Some None"
    if "skey kb \<notin> fst ` set (entries (mbytes c) b u)"
    using libc.search_miss [OF cmp srt len] that by simp
qed

subsection \<open>Keys of the abstract map\<close>

lemma wf_index_distinct: "wf_view s c \<Longrightarrow> distinct (map fst (store_entries c))"
  using wf_viewD(9) [of s c] strict_sorted_iff [of "map fst (store_entries c)"]
  by (simp add: store_entries_view strict_sorted_iff)

lemma store_map_None:
  "wf_view s c \<Longrightarrow> store_map c k = None \<longleftrightarrow> k \<notin> fst ` set (entries (mbytes c) (i_base s) (v_used s))"
  by (simp add: store_map_def store_entries_view map_of_eq_None_iff)

lemma store_map_Some:
  assumes wf: "wf_view s c" and k: "store_map c k = Some vs"
  shows "\<exists>i < v_used s. item_key (mbytes c) (i_base s + 64 * i) = k \<and>
      item_values (mbytes c) (i_base s + 64 * i) = vs"
proof -
  have "(k, vs) \<in> set (entries (mbytes c) (i_base s) (v_used s))"
    using k map_of_SomeD [of "store_entries c"]
    by (simp add: store_map_def store_entries_view [OF wf])
  then show ?thesis by (auto simp: in_set_conv_nth entry_def)
qed

lemma store_map_entry:
  assumes wf: "wf_view s c" and i: "i < v_used s"
  shows "store_map c (item_key (mbytes c) (i_base s + 64 * i)) =
      Some (item_values (mbytes c) (i_base s + 64 * i))"
proof -
  have "(item_key (mbytes c) (i_base s + 64 * i), item_values (mbytes c) (i_base s + 64 * i))
      \<in> set (store_entries c)"
    using i nth_mem [of i "store_entries c"]
    by (simp add: store_entries_view [OF wf] entry_def)
  then show ?thesis
    using wf_index_distinct [OF wf] by (simp add: store_map_def)
qed

lemma index_fits:
  assumes "searchable s c"
  shows "item_area_at (v_keys s) one + 64 * v_used s \<le> file_len (v_keys s)"
  using searchableD(6) [OF assms] by (auto simp: areas)


subsection \<open>pupa\_store\_get\<close>

text \<open>Every lookup sets \<open>ctx->store_items\<close> to the current index area, and nothing else.\<close>

definition refresh :: "pupa_ctx \<Rightarrow> pupa_ctx" where
  "refresh c = c\<lparr>store_items := W64 (i_base (view_of c))\<rparr>"

lemma view_of_store_items [simp]: "view_of (c\<lparr>store_items := x\<rparr>) = view_of c"
  "view_of (c\<lparr>store_items_snapshot := x\<rparr>) = view_of c"
  by (simp_all add: view_of_def)

lemma wf_view_store_items [simp]: "wf_view s (c\<lparr>store_items := x\<rparr>) = wf_view s c"
  "wf_view s (c\<lparr>store_items_snapshot := x\<rparr>) = wf_view s c"
  by (simp_all add: wf_view_def)

lemma refresh_wf: "store_wf (refresh c) = store_wf c" "store_map (refresh c) = store_map c"
  "synced (refresh c)"
  by (simp_all add: refresh_def store_wf_def store_map_def store_entries_def synced_def)

lemma denotes_refresh [simp]: "denotes (refresh c) s bs = denotes c s bs"
  by (simp add: denotes_def refresh_def cptr_bytes_def ldn_def in_map_def split: cptr.splits)

lemma search_entries:
  assumes sr: "searchable s c" and key: "cstr key kb"
  shows "\<And>i. i < v_used s \<Longrightarrow> item_key (mbytes c) (i_base s + 64 * i) = skey kb \<Longrightarrow>
      bsearch (pupa_store_item_compare (refresh c) (probe key)) (W64 (i_base s))
        (W64 (v_used s)) 64 = Some (Some (W64 (i_base s + 64 * i)))"
    and "skey kb \<notin> fst ` set (entries (mbytes c) (i_base s) (v_used s)) \<Longrightarrow>
      bsearch (pupa_store_item_compare (refresh c) (probe key)) (W64 (i_base s))
        (W64 (v_used s)) 64 = Some None"
proof -
  note w = searchableD [OF sr]
  have len: "file_len (v_keys s) < 2 ^ 31" using w(3) by (simp add: file_len_def)
  note b = bsearch_entries [of "v_used s" s "refresh c" "i_base s" key kb]
  show "bsearch (pupa_store_item_compare (refresh c) (probe key)) (W64 (i_base s))
        (W64 (v_used s)) 64 = Some (Some (W64 (i_base s + 64 * i)))"
    if "i < v_used s" "item_key (mbytes c) (i_base s + 64 * i) = skey kb" for i
    using b(1) [of i] that w len index_fits [OF sr] key by (simp add: refresh_def)
  show "bsearch (pupa_store_item_compare (refresh c) (probe key)) (W64 (i_base s))
        (W64 (v_used s)) 64 = Some None"
    if "skey kb \<notin> fst ` set (entries (mbytes c) (i_base s) (v_used s))"
    using b(2) that w len index_fits [OF sr] key by (simp add: refresh_def)
qed

lemma lookup_search:
  assumes wf: "wf_view s c" and key: "cstr key kb"
  shows "\<And>i. i < v_used s \<Longrightarrow> item_key (mbytes c) (i_base s + 64 * i) = skey kb \<Longrightarrow>
      bsearch (pupa_store_item_compare (refresh c) (probe key)) (W64 (i_base s))
        (W64 (v_used s)) 64 = Some (Some (W64 (i_base s + 64 * i)))"
    and "store_map c (skey kb) = None \<Longrightarrow>
      bsearch (pupa_store_item_compare (refresh c) (probe key)) (W64 (i_base s))
        (W64 (v_used s)) 64 = Some None"
  using search_entries [OF wf_searchable [OF wf] key] by (simp_all add: store_map_None [OF wf])

lemma get_missing:
  assumes wf: "wf_view s c" and key: "cstr key kb" and none: "store_map c (skey kb) = None"
    and ver: "sint ver \<le> 3"
  shows "pupa_store_get c key ver = Some (PUPA_NOT_FOUND, None, refresh c)"
  using lookup_search(2) [OF wf key none] ver
  by (simp add: pupa_store_get_def load_hdr_wf [OF wf] view_simps sint_W32
      refresh_def wf_view_view [OF wf] Let_def)

lemma slot_in_map:
  assumes wf: "searchable s c" and i: "i < v_used s" and o: "off + k \<le> 80"
  shows "unat (W64 (i_base s + 64 * i + off)) = i_base s + 64 * i + off"
    "in_map c (W64 (i_base s + 64 * i + off)) k"
proof -
  note w = searchableD [OF wf]
  have "i_base s + 64 * i + 64 \<le> 224 + 32 * v_keys s"
    using w(6) i by (simp add: areas)
  then show u: "unat (W64 (i_base s + 64 * i + off)) = i_base s + 64 * i + off"
    using w(3) o by (intro unat_W64) simp
  have "i_base s + 64 * i + 80 \<le> file_len (v_keys s)"
    using w(5,6) i by (simp add: areas)
  then show "in_map c (W64 (i_base s + 64 * i + off)) k"
    using o w(2) unfolding in_map_def u by simp
qed

text \<open>
  The record a hit reads: at index \<open>3 - r\<close> for version \<open>r\<close>, which for version 0 is the one
  behind the array.
\<close>

lemma get_entry:
  assumes wf: "searchable s c" and key: "cstr key kb"
    and i: "i < v_used s" "item_key (mbytes c) (i_base s + 64 * i) = skey kb"
    and r: "r \<le> 3" and cn: "unat (val_cnt (rd_item (mbytes c) (i_base s + 64 * i))) \<le> 3"
  shows "pupa_store_get c key (W32 r) =
     (let a = i_base s + 64 * i; v = rd_item_val (mbytes c) (a + 64 - 16 * r) in
      if unat (val_cnt (rd_item (mbytes c) a)) < r
      then Some (PUPA_NOT_FOUND_VALUE, None, refresh c)
      else Some (PUPA_OK, Some \<lparr>str_len = value_len v, str_data = Off (value_offset v)\<rparr>,
                 refresh c))"
proof -
  let ?a = "i_base s + 64 * i"
  let ?it = "rd_item (mbytes c) ?a"
  have it: "1 \<le> unat (key_len ?it)" "unat (val_cnt ?it) \<le> 3"
    using searchableD(9) [OF wf i(1)] cn by (simp_all add: key_ok_def Let_def)
  have cnt: "sint (val_cnt ?it) < int r \<longleftrightarrow> unat (val_cnt ?it) < r"
    using sint_W32 [of "unat (val_cnt ?it)"] it(2) by (simp del: of_nat_unat)
  have li: "load_item (refresh c) (W64 ?a) = Some ?it"
    using slot_in_map [OF wf i(1), of 0 16]
    by (simp add: load_item_def refresh_def in_map_def)
  have va: "W64 ?a + 16 + scast (W32 3) * 16 - scast (W32 r) * 16 = W64 (?a + (64 - 16 * r))"
    using r W64_diff [of "r * 16" "?a + 64"]
    by (simp add: scast_32_64 addr_simps) (simp add: algebra_simps)
  have lv: "load_item_val (refresh c) (W64 (?a + (64 - 16 * r))) =
      Some (rd_item_val (mbytes c) (?a + 64 - 16 * r))"
    using slot_in_map [OF wf i(1), of "64 - 16 * r" 12] r
    by (simp add: load_item_val_def refresh_def in_map_def)
  have kl: "key_len ?it \<noteq> 0" using it(1) by auto
  have rc: "refresh c = c\<lparr>store_items := W64 (i_base s)\<rparr>"
    by (simp add: refresh_def searchableD(11) [OF wf])
  show ?thesis
    using search_entries(1) [OF wf key i] r li lv
    by (simp add: pupa_store_get_def searchableD(10) [OF wf] view_simps sint_W32 rc kl cnt sizeofs
        va Let_def)
qed

lemma get_hit:
  assumes wf: "wf_view s c" and key: "cstr key kb"
    and i: "i < v_used s" "item_key (mbytes c) (i_base s + 64 * i) = skey kb"
    and r: "r \<le> 3"
  shows "pupa_store_get c key (W32 r) =
     (let a = i_base s + 64 * i; v = rd_item_val (mbytes c) (a + 64 - 16 * r) in
      if unat (val_cnt (rd_item (mbytes c) a)) < r
      then Some (PUPA_NOT_FOUND_VALUE, None, refresh c)
      else Some (PUPA_OK, Some \<lparr>str_len = value_len v, str_data = Off (value_offset v)\<rparr>,
                 refresh c))"
  using get_entry [OF wf_searchable [OF wf] key i r] wf_view_item [OF wf i(1)]
  by (simp add: item_ok_def Let_def)

lemma item_values_nth:
  assumes "1 \<le> r" "r \<le> unat (val_cnt (rd_item m a))"
  shows "item_values m a ! (r - 1) = val_bytes m (item_val m a (3 - r))"
proof -
  have "r - 1 < unat (val_cnt (rd_item m a))" "1 + (r - 1) = r" using assms by auto
  then show ?thesis by (simp add: item_values_def nth_upt del: upt_Suc)
qed

lemma length_item_values [simp]: "length (item_values m a) = unat (val_cnt (rd_item m a))"
  by (simp add: item_values_def del: upt_Suc)

lemma val_denotes:
  assumes wf: "wf_view s c" and v: "val_ok s (mbytes c) v"
  shows "denotes c \<lparr>str_len = value_len v, str_data = Off (value_offset v)\<rparr>
           (val_bytes (mbytes c) v)"
  using v wf_viewD(2,8) [OF wf]
  by (auto simp: denotes_def cptr_bytes_def ldn_def in_map_def val_bytes_def val_ok_def areas
      split: if_splits)


subsection \<open>pupa\_store\_get\_values\<close>

definition val_ref :: "pupa_store_item_val \<Rightarrow> pupa_str" where
  "val_ref v = \<lparr>str_len = value_len v, str_data = Off (value_offset v)\<rparr>"

lemma values_loop_entry:
  assumes wf: "wf_view s c" and i: "i < v_used s" and n: "1 \<le> n" "n \<le> 3"
  shows "values_loop c (W64 (i_base s + 64 * i + 16)) (3 - int n) 2 =
     Some (map (\<lambda>r. val_ref (item_val (mbytes c) (i_base s + 64 * i) (3 - r))) [1..<Suc n])"
proof -
  let ?a = "i_base s + 64 * i"
  have ld: "load_item_val c (W64 (?a + 16) + word_of_int (int j) * 16) =
      Some (item_val (mbytes c) ?a j)" if "j < 3" for j
  proof -
    have "W64 (?a + 16) + word_of_int (int j) * 16 = W64 (?a + (16 + 16 * j))"
      by (simp add: W64_def)
    then show ?thesis
      using slot_in_map [OF wf_searchable [OF wf] i, of "16 + 16 * j" 12] that
      by (simp add: load_item_val_def item_val_def add.assoc)
  qed
  from ld [of 0] ld [of 1] ld [of 2] consider "n = 1" | "n = 2" | "n = 3"
    using n by linarith
  then show ?thesis
    using ld [of 0] ld [of 1] ld [of 2]
    by cases (simp_all add: values_loop.simps sizeofs val_ref_def upt_rec)
qed

lemma get_values_hit:
  assumes wf: "wf_view s c" and key: "cstr key kb"
    and i: "i < v_used s" "item_key (mbytes c) (i_base s + 64 * i) = skey kb"
  shows "pupa_store_get_values c key =
     Some (PUPA_OK,
       map (\<lambda>r. val_ref (item_val (mbytes c) (i_base s + 64 * i) (3 - r)))
         [1..<Suc (unat (val_cnt (rd_item (mbytes c) (i_base s + 64 * i))))],
       refresh c)"
proof -
  let ?a = "i_base s + 64 * i"
  let ?it = "rd_item (mbytes c) ?a"
  have it: "1 \<le> unat (key_len ?it)" "1 \<le> unat (val_cnt ?it)" "unat (val_cnt ?it) \<le> 3"
    using wf_view_item [OF wf i(1)] by (simp_all add: item_ok_def Let_def)
  have cnt: "sint (val_cnt ?it) = int (unat (val_cnt ?it))"
    using sint_W32 [of "unat (val_cnt ?it)"] it(3) by simp
  have rc: "refresh c = c\<lparr>store_items := W64 (i_base s)\<rparr>"
    by (simp add: refresh_def wf_view_view [OF wf])
  have li: "load_item (refresh c) (W64 ?a) = Some ?it"
    using slot_in_map [OF wf_searchable [OF wf] i(1), of 0 16]
    by (simp add: load_item_def refresh_def in_map_def)
  have kl: "key_len ?it \<noteq> 0" using it(1) by auto
  have wfr: "wf_view s (refresh c)" using wf by (simp add: refresh_def)
  have vl: "values_loop (refresh c) (W64 ?a + 16) (3 - sint (val_cnt ?it)) 2 =
     Some (map (\<lambda>r. val_ref (item_val (mbytes c) ?a (3 - r)))
       [1..<Suc (unat (val_cnt ?it))])"
    using values_loop_entry [OF wfr i(1) it(2,3)]
    by (simp add: cnt W64_add_numeral refresh_def)
  show ?thesis
    using lookup_search(1) [OF wf key i] li vl kl
    by (simp add: pupa_store_get_values_def load_hdr_wf [OF wf] view_simps sint_W32 rc
        sizeofs Let_def del: upt_Suc)
qed

lemma get_values_missing:
  assumes wf: "wf_view s c" and key: "cstr key kb" and none: "store_map c (skey kb) = None"
  shows "pupa_store_get_values c key = Some (PUPA_NOT_FOUND, [], refresh c)"
  using lookup_search(2) [OF wf key none]
  by (simp add: pupa_store_get_values_def load_hdr_wf [OF wf] view_simps refresh_def
      wf_view_view [OF wf] Let_def)

text \<open>A key of the abstract map, with the entry that holds it.\<close>

lemma wf_hit:
  assumes wf: "store_wf c" and k: "store_map c (skey kb) = Some vs"
  obtains s i where "wf_view s c" "view_of c = s" "i < v_used s"
    "item_key (mbytes c) (i_base s + 64 * i) = skey kb"
    "item_values (mbytes c) (i_base s + 64 * i) = vs"
    "length vs = unat (val_cnt (rd_item (mbytes c) (i_base s + 64 * i)))"
    "1 \<le> length vs" "length vs \<le> 3"
    "\<And>r. 1 \<le> r \<Longrightarrow> r \<le> length vs \<Longrightarrow>
       val_ok s (mbytes c) (item_val (mbytes c) (i_base s + 64 * i) (3 - r)) \<and>
       vs ! (r - 1) = val_bytes (mbytes c) (item_val (mbytes c) (i_base s + 64 * i) (3 - r))"
proof -
  have wv: "wf_view (view_of c) c" using wf by (simp add: store_wf_def)
  from store_map_Some [OF wv k] obtain i where i: "i < v_used (view_of c)"
    "item_key (mbytes c) (i_base (view_of c) + 64 * i) = skey kb"
    "item_values (mbytes c) (i_base (view_of c) + 64 * i) = vs" by blast
  let ?a = "i_base (view_of c) + 64 * i"
  have len: "length vs = unat (val_cnt (rd_item (mbytes c) ?a))" using i(3) by auto
  have ok: "item_ok (view_of c) (mbytes c) ?a" by (rule wf_view_item [OF wv i(1)])
  then have n: "1 \<le> length vs" "length vs \<le> 3" by (simp_all add: item_ok_def Let_def len)
  have v: "val_ok (view_of c) (mbytes c) (item_val (mbytes c) ?a (3 - r)) \<and>
       vs ! (r - 1) = val_bytes (mbytes c) (item_val (mbytes c) ?a (3 - r))"
    if "1 \<le> r" "r \<le> length vs" for r
  proof -
    have "3 - r < 3" "3 - length vs \<le> 3 - r" using that n by auto
    then have "val_ok (view_of c) (mbytes c) (item_val (mbytes c) ?a (3 - r))"
      using ok by (simp add: item_ok_def Let_def len)
    moreover have "vs ! (r - 1) = val_bytes (mbytes c) (item_val (mbytes c) ?a (3 - r))"
      using item_values_nth [of r "mbytes c" ?a] that len i(3) by simp
    ultimately show ?thesis by blast
  qed
  show thesis by (rule that [OF wv refl i len n v])
qed

subsection \<open>The abstract lookup\<close>

text \<open>
  What a lookup of version \<open>ver\<close> (counted from 1, the newest) of a key should return, given
  the versions the abstract map has for it.
\<close>

definition get_spec :: "byte list list option \<Rightarrow> int \<Rightarrow> int \<times> byte list option" where
  "get_spec h ver =
     (if 3 < ver then (PUPA_EXCEED_MAXIMUM_NUM, None)
      else case h of
        None \<Rightarrow> (PUPA_NOT_FOUND, None)
      | Some vs \<Rightarrow>
          if int (length vs) < ver then (PUPA_NOT_FOUND_VALUE, None)
          else (PUPA_OK, Some (vs ! (nat ver - 1))))"

text \<open>The result of the code, its string read in the context it returns.\<close>

definition result_denotes :: "pupa_ctx \<Rightarrow> pupa_str option \<Rightarrow> byte list option \<Rightarrow> bool" where
  "result_denotes c v bs \<longleftrightarrow>
     (case v of None \<Rightarrow> bs = None | Some s \<Rightarrow> (case bs of None \<Rightarrow> False | Some b \<Rightarrow> denotes c s b))"

lemma get_exceeds:
  assumes wf: "store_wf c" and v: "3 < sint ver"
  shows "pupa_store_get c key ver = Some (PUPA_EXCEED_MAXIMUM_NUM, None, c)"
proof -
  have wv: "wf_view (view_of c) c" using wf by (simp add: store_wf_def)
  have "sint (W32 3) = 3" by (simp add: sint_W32)
  then show ?thesis using v by (simp add: pupa_store_get_def load_hdr_wf [OF wv] view_simps)
qed

lemma get_refines:
  assumes wf: "store_wf c" and key: "cstr key kb" and pos: "1 \<le> sint ver"
  shows "\<exists>v. pupa_store_get c key ver =
       Some (fst (get_spec (store_map c (skey kb)) (sint ver)), v,
             if 3 < sint ver then c else refresh c) \<and>
     result_denotes c v (snd (get_spec (store_map c (skey kb)) (sint ver)))"
proof (cases "3 < sint ver")
  case True
  then show ?thesis
    using get_exceeds [OF wf True] by (simp add: get_spec_def result_denotes_def)
next
  case False
  show ?thesis
  proof (cases "store_map c (skey kb)")
    case None
    have wv: "wf_view (view_of c) c" using wf by (simp add: store_wf_def)
    show ?thesis
      using get_missing [OF wv key None, of ver] None False
      by (simp add: get_spec_def result_denotes_def)
  next
    case (Some vs)
    obtain r where r: "ver = W32 r" "sint ver = int r" "1 \<le> r" "r \<le> 3"
    proof
      show "sint ver = int (nat (sint ver))" using pos by simp
      have "word_of_int (sint ver) = ver" by simp
      then show "ver = W32 (nat (sint ver))" using pos unfolding W32_def by simp
    qed (use pos False in auto)
    obtain s i where si: "wf_view s c" "view_of c = s" "i < v_used s"
      "item_key (mbytes c) (i_base s + 64 * i) = skey kb"
      "item_values (mbytes c) (i_base s + 64 * i) = vs"
      "length vs = unat (val_cnt (rd_item (mbytes c) (i_base s + 64 * i)))"
      "1 \<le> length vs" "length vs \<le> 3"
      "\<And>r. 1 \<le> r \<Longrightarrow> r \<le> length vs \<Longrightarrow>
         val_ok s (mbytes c) (item_val (mbytes c) (i_base s + 64 * i) (3 - r)) \<and>
         vs ! (r - 1) = val_bytes (mbytes c) (item_val (mbytes c) (i_base s + 64 * i) (3 - r))"
      by (rule wf_hit [OF wf Some]) (rule that)
    have "16 + 16 * (3 - r) = 64 - 16 * r" using r by simp
    then have iv: "rd_item_val (mbytes c) (i_base s + 64 * i + 64 - 16 * r) =
        item_val (mbytes c) (i_base s + 64 * i) (3 - r)"
      using r by (simp add: item_val_def add.assoc)
    show ?thesis
    proof (cases "length vs < r")
      case True
      then show ?thesis
        using True get_hit [OF si(1) key si(3,4) r(4)] si(6) [symmetric] Some r False
        by (simp add: get_spec_def result_denotes_def Let_def)
    next
      case nl: False
      have "denotes c \<lparr>str_len = value_len (item_val (mbytes c) (i_base s + 64 * i) (3 - r)),
          str_data = Off (value_offset (item_val (mbytes c) (i_base s + 64 * i) (3 - r)))\<rparr>
          (vs ! (r - 1))"
        using si(9) [of r] r nl val_denotes [OF si(1)] by simp
      then show ?thesis
        using get_hit [OF si(1) key si(3,4) r(4)] si(6) [symmetric] Some r False nl iv
        by (simp add: get_spec_def result_denotes_def Let_def)
    qed
  qed
qed

lemma store_map_length:
  assumes "store_wf c" "store_map c (skey kb) = Some vs"
  shows "1 \<le> length vs" "length vs \<le> 3"
  using wf_hit [OF assms] by metis+

lemma get_present:
  assumes wf: "store_wf c" and key: "cstr key kb" and some: "store_map c (skey kb) = Some vs"
    and r: "1 \<le> r" "r \<le> length vs"
  shows "\<exists>v. pupa_store_get c key (W32 r) = Some (PUPA_OK, Some v, refresh c) \<and>
     denotes c v (vs ! (r - 1))"
proof -
  have sr: "sint (W32 r) = int r" "r \<le> 3"
    using r store_map_length [OF wf some] by (auto intro!: sint_W32)
  then have sp: "get_spec (store_map c (skey kb)) (sint (W32 r)) = (PUPA_OK, Some (vs ! (r - 1)))"
    using r some by (simp add: get_spec_def)
  obtain v where "pupa_store_get c key (W32 r) = Some (PUPA_OK, v, refresh c)"
    "result_denotes c v (Some (vs ! (r - 1)))"
    using get_refines [OF wf key, of "W32 r"] sp sr r by auto
  then show ?thesis by (cases v) (auto simp: result_denotes_def)
qed

text \<open>All versions, the newest first.\<close>

lemma get_values_refines:
  assumes wf: "store_wf c" and key: "cstr key kb"
  shows "\<exists>vs. pupa_store_get_values c key =
       Some (if store_map c (skey kb) = None then PUPA_NOT_FOUND else PUPA_OK, vs, refresh c) \<and>
     list_all2 (denotes c) vs (case store_map c (skey kb) of None \<Rightarrow> [] | Some bs \<Rightarrow> bs)"
proof (cases "store_map c (skey kb)")
  case None
  have "wf_view (view_of c) c" using wf by (simp add: store_wf_def)
  from get_values_missing [OF this key None] None show ?thesis by simp
next
  case (Some bs)
  obtain s i where si: "wf_view s c" "view_of c = s" "i < v_used s"
    "item_key (mbytes c) (i_base s + 64 * i) = skey kb"
    "item_values (mbytes c) (i_base s + 64 * i) = bs"
    "length bs = unat (val_cnt (rd_item (mbytes c) (i_base s + 64 * i)))"
    "1 \<le> length bs" "length bs \<le> 3"
    "\<And>r. 1 \<le> r \<Longrightarrow> r \<le> length bs \<Longrightarrow>
       val_ok s (mbytes c) (item_val (mbytes c) (i_base s + 64 * i) (3 - r)) \<and>
       bs ! (r - 1) = val_bytes (mbytes c) (item_val (mbytes c) (i_base s + 64 * i) (3 - r))"
    by (rule wf_hit [OF wf Some]) (rule that)
  let ?vs = "map (\<lambda>r. val_ref (item_val (mbytes c) (i_base s + 64 * i) (3 - r)))
      [1..<Suc (length bs)]"
  have "list_all2 (denotes c) ?vs bs"
  proof (rule list_all2_all_nthI)
    fix r
    assume "r < length ?vs"
    then have r: "r < length bs" by (simp del: upt_Suc)
    then show "denotes c (?vs ! r) (bs ! r)"
      using si(9) [of "r + 1"] val_denotes [OF si(1)]
      by (simp add: val_ref_def nth_upt del: upt_Suc)
  qed (simp del: upt_Suc)
  then show ?thesis
    using get_values_hit [OF si(1) key si(3,4)] si(6) Some by (simp del: upt_Suc)
qed

end
