(* ===== verification/SetSteps.thy ===== *)
theory SetSteps
  imports Lookup
begin

text \<open>
  The steps of the write operations on a well-formed store, one lemma each: the snapshot of
  the index, storing a key, storing a value, filling an index entry, shifting the versions
  of an entry, switching the index areas. Each says that the step succeeds, what it leaves
  unchanged and what can be read afterwards.
\<close>

subsection \<open>Changing the header fields of the view\<close>

lemma view_hdr_upd:
  "view_hdr s\<lparr>item_section := item_section (view_hdr s)\<lparr>sec_used := W64 u\<rparr>\<rparr> =
     view_hdr (s\<lparr>v_used := u\<rparr>)"
  "view_hdr s\<lparr>key_section := key_section (view_hdr s)\<lparr>sec_used := W64 u\<rparr>\<rparr> =
     view_hdr (s\<lparr>v_key_used := u\<rparr>)"
  "view_hdr s\<lparr>value_section := value_section (view_hdr s)\<lparr>sec_used := W64 u\<rparr>\<rparr> =
     view_hdr (s\<lparr>v_val_used := u\<rparr>)"
  "view_hdr s\<lparr>item_section := item_section (view_hdr s)\<lparr>sec_id := sec_no one\<rparr>\<rparr> =
     view_hdr (s\<lparr>v_item_one := one\<rparr>)"
  by (simp_all add: view_hdr_def)

lemma load_hdr_view:
  "mapped c \<Longrightarrow> rd_hdr (mbytes c) = view_hdr s \<Longrightarrow> 128 \<le> msize c \<Longrightarrow>
     load_hdr c = Some (view_hdr s)"
  by (simp add: load_hdr_def sizeof_hdr_def)

text \<open>What the steps share: a mapped, writable file with the header of \<open>s\<close>.\<close>

definition hdr_ok :: "store_view \<Rightarrow> pupa_ctx \<Rightarrow> bool" where
  "hdr_ok s c \<longleftrightarrow> mapped c \<and> mwritable c \<and> msize c = file_len (v_keys s) \<and>
     file_len (v_keys s) < 2 ^ 31 \<and> rd_hdr (mbytes c) = view_hdr s"

lemma hdr_okD:
  assumes "hdr_ok s c"
  shows "mapped c" "mwritable c" "msize c = 224 + 672 * v_keys s" "224 + 672 * v_keys s < 2 ^ 31"
    "rd_hdr (mbytes c) = view_hdr s" "load_hdr c = Some (view_hdr s)"
  using assms by (simp_all add: hdr_ok_def file_len_def load_hdr_view)

lemma hdr_ok_put:
  "hdr_ok s c \<Longrightarrow> rd_hdr m = view_hdr s' \<Longrightarrow> v_keys s' = v_keys s \<Longrightarrow>
     hdr_ok s' (c\<lparr>mbytes := m\<rparr>)"
  by (simp add: hdr_ok_def)

lemma wf_hdr_ok: "wf_view s c \<Longrightarrow> mwritable c \<Longrightarrow> hdr_ok s c"
  by (auto simp: hdr_ok_def wf_view_def view_ok_def)

subsection \<open>The snapshot\<close>

definition snap_bytes :: "store_view \<Rightarrow> nat \<Rightarrow> (nat \<Rightarrow> byte) \<Rightarrow> (nat \<Rightarrow> byte)" where
  "snap_bytes s b m = put_bytes m (i_snap s) (bytes_at m b (64 * v_used s))"

lemma make_snapshot_step:
  assumes h: "hdr_ok s c" and u: "64 * v_used s \<le> 16 * v_keys s + 48"
    and items: "store_items c = W64 b" "b = item_area_at (v_keys s) one"
  shows "pupa_store_item_make_snapshot c =
     Some (c\<lparr>mbytes := snap_bytes s b (mbytes c), store_items_snapshot := W64 (i_snap s)\<rparr>)"
proof -
  note d = hdr_okD [OF h]
  have fit: "i_snap s + 64 * v_used s \<le> msize c" "b + 64 * v_used s \<le> msize c"
    using u d(3) items(2) by (auto simp: areas)
  have n: "unat (64 * W64 (v_used s)) = 64 * v_used s"
    using u d(4) by (simp add: W64_numeral_mult unat_W64)
  have z: "W64 (v_used s) = 0 \<longleftrightarrow> v_used s = 0"
    using u d(4) W64_eq_iff [of "v_used s" 0] by (simp add: W64_zero)
  have cp: "memcpy c (W64 (i_snap s)) (W64 b) (64 * v_used s) =
      Some (c\<lparr>mbytes := snap_bytes s b (mbytes c)\<rparr>)"
    using fit d by (simp add: memcpy_W64 snap_bytes_def)
  have "snap_bytes s b (mbytes c) = mbytes c" if "v_used s = 0"
    using that by (auto simp: snap_bytes_def put_bytes_def fun_eq_iff)
  then show ?thesis
    using cp by (auto simp: pupa_store_item_make_snapshot_def d(6) view_simps items(1) n z
        Let_def)
qed

lemma snap_bytes_outside:
  "x < i_snap s \<or> i_snap s + 64 * v_used s \<le> x \<Longrightarrow> snap_bytes s b m x = m x"
  by (simp add: snap_bytes_def put_bytes_outside)

lemma snap_bytes_hdr: "rd_hdr (snap_bytes s b m) = rd_hdr m"
  by (rule rd_hdr_cong) (simp add: snap_bytes_outside areas)

lemma snap_bytes_slot:
  "i < v_used s \<Longrightarrow> j < 64 \<Longrightarrow> snap_bytes s b m (i_snap s + 64 * i + j) = m (b + 64 * i + j)"
  by (simp add: snap_bytes_def put_bytes_inside add.assoc)

lemma snap_bytes_self: "snap_bytes s (i_snap s) m = m"
  by (rule ext) (auto simp: snap_bytes_def put_bytes_def)

text \<open>The copy of an index has the same entries, whichever of the two areas it comes from.\<close>

lemma snapshot_entries:
  assumes v: "view_ok s" and ix: "index_ok s m b"
  shows "index_ok s (snap_bytes s b m) (i_snap s)"
    "entries (snap_bytes s b m) (i_snap s) (v_used s) = entries m b (v_used s)"
proof -
  have a: "i_snap s + 64 * v_used s \<le> k_base s" "i_snap s + 64 * v_used s \<le> v_base s"
    using view_okD(3) [OF v] by (auto simp: areas)
  note tr = entries_transfer [where n = "v_used s" and s = s and s' = s and f = "\<lambda>i. i"
      and m = m and b = b and b' = "i_snap s" and m' = "snap_bytes s b m"]
  have keys: "snap_bytes s b m x = m x" if "k_base s \<le> x" for x
    using that a(1) by (simp add: snap_bytes_outside)
  have vals: "snap_bytes s b m x = m x" if "v_base s \<le> x" for x
    using that a(2) by (simp add: snap_bytes_outside)
  have "entries (snap_bytes s b m) (i_snap s) (v_used s) =
      map (\<lambda>i. entry m (b + 64 * i)) [0..<v_used s]"
    by (rule tr(2)) (simp_all add: index_okD [OF ix] snap_bytes_slot keys vals)
  then show es: "entries (snap_bytes s b m) (i_snap s) (v_used s) = entries m b (v_used s)"
    by (simp add: entries_def)
  have "\<forall>i < v_used s. item_ok s (snap_bytes s b m) (i_snap s + 64 * i)"
    by (rule tr(1)) (simp_all add: index_okD [OF ix] snap_bytes_slot keys vals)
  then show "index_ok s (snap_bytes s b m) (i_snap s)"
    using index_okD(2) [OF ix] by (simp add: index_ok_def es)
qed

text \<open>A change of bytes elsewhere keeps an index.\<close>

lemma index_ok_frame:
  assumes ix: "index_ok s m b"
    and idx: "\<And>x. b \<le> x \<Longrightarrow> x < b + 64 * v_used s \<Longrightarrow> m' x = m x"
    and keys: "\<And>x. k_base s \<le> x \<Longrightarrow> x < k_base s + v_key_used s \<Longrightarrow> m' x = m x"
    and vals: "\<And>x. v_base s \<le> x \<Longrightarrow> x < v_base s + v_val_used s \<Longrightarrow> m' x = m x"
    and s': "k_base s' = k_base s" "v_base s' = v_base s" "v_used s' = v_used s"
      "v_key_used s \<le> v_key_used s'" "v_val_used s \<le> v_val_used s'"
  shows "index_ok s' m' b" "entries m' b (v_used s) = entries m b (v_used s)"
proof -
  note tr = entries_transfer [where n = "v_used s" and s = s and s' = s' and f = "\<lambda>i. i"
      and m = m and b = b and b' = b and m' = m']
  have "entries m' b (v_used s) = map (\<lambda>i. entry m (b + 64 * i)) [0..<v_used s]"
    by (rule tr(2)) (use index_okD(1) [OF ix] s' keys vals in \<open>auto intro!: idx\<close>)
  then show es: "entries m' b (v_used s) = entries m b (v_used s)"
    by (simp add: entries_def)
  have "\<forall>i < v_used s. item_ok s' m' (b + 64 * i)"
    by (rule tr(1)) (use index_okD(1) [OF ix] s' keys vals in \<open>auto intro!: idx\<close>)
  then show "index_ok s' m' b"
    using index_okD(2) [OF ix] by (simp add: index_ok_def es s'(3))
qed

subsection \<open>Storing a key\<close>

lemma rd_hdr_body [mem_simps]:
  "128 \<le> a \<Longrightarrow> rd_hdr (wr8 m a v8) = rd_hdr m"
  "128 \<le> a \<Longrightarrow> rd_hdr (wr32 m a v32) = rd_hdr m"
  "128 \<le> a \<Longrightarrow> rd_hdr (wr64 m a v64) = rd_hdr m"
  by (simp_all add: wr8_def wr32_def wr64_def rd_hdr_put_bytes)

lemma load_hdr_upd:
  "hdr_ok s c \<Longrightarrow> rd_hdr m = view_hdr s' \<Longrightarrow> load_hdr (c\<lparr>mbytes := m\<rparr>) = Some (view_hdr s')"
  by (simp add: hdr_ok_def load_hdr_def sizeof_hdr_def file_len_def)

lemma wr8_put_bytes: "wr8 (put_bytes m p bs) (p + length bs) 0 = put_bytes m p (stored bs)"
  by (rule ext) (auto simp: wr8_def put_bytes_def stored_def nth_append)

lemma put_str_step:
  assumes "mwritable c" "msize c < 2 ^ 31" "p + length bs + 1 \<le> msize c" "cstr s bs"
  shows "put_str c (W64 p) s = Some (c\<lparr>mbytes := put_bytes (mbytes c) p (stored bs)\<rparr>)"
proof -
  note k = cstr_place [OF assms(4)]
  have l: "(scast (str_len s) :: size_t) = W64 (length bs)"
    using k(4,5) by (simp add: scast_32_64)
  have "unat (W64 (length bs)) = length bs" using k(5) by (simp add: unat_W64)
  then show ?thesis
    using assms by (simp add: put_str_def l k(3) W64_add acc_W64 wr8_put_bytes)
qed

definition add_key_bytes ::
  "store_view \<Rightarrow> nat \<Rightarrow> byte list \<Rightarrow> (nat \<Rightarrow> byte) \<Rightarrow> (nat \<Rightarrow> byte)" where
  "add_key_bytes s a kb m =
     wr64 (put_bytes (wr64 (wr32 m (a + 8) (W32 (length kb + 1))) a
               (W64 (k_base s + v_key_used s)))
            (k_base s + v_key_used s) (stored kb))
       64 (W64 (v_key_used s + length kb + 1))"

lemma item_add_key_step:
  assumes h: "hdr_ok s c" and a: "128 \<le> a" "a + 64 \<le> k_base s"
    and room: "v_key_used s + length kb + 1 \<le> 64 * v_keys s" and key: "cstr key kb"
  shows "item_add_key c (W64 a) key (W64 (k_base s + v_key_used s)) (W64 (k_base s)) =
     Some (c\<lparr>mbytes := add_key_bytes s a kb (mbytes c)\<rparr>)"
proof -
  note d = hdr_okD [OF h]
  note k = cstr_place [OF key]
  let ?m = "mbytes c" and ?p = "k_base s + v_key_used s"
  let ?m1 = "wr32 ?m (a + 8) (W32 (length kb + 1))"
  let ?m2 = "wr64 ?m1 a (W64 ?p)"
  let ?m3 = "put_bytes ?m2 ?p (stored kb)"
  have fit: "?p + length kb + 1 \<le> msize c" "128 \<le> ?p" "a + 64 \<le> msize c"
    using room a d(3) by (auto simp: areas split: if_splits)
  have h1: "load_hdr (c\<lparr>mbytes := ?m1\<rparr>) = Some (view_hdr s)"
    and h3: "load_hdr (c\<lparr>mbytes := ?m3\<rparr>) = Some (view_hdr s)"
    using a fit(2) d(5) by (auto intro!: load_hdr_upd [OF h] simp: mem_simps)
  have len: "str_len key + 1 = W32 (length kb + 1)" "length kb + 1 < 2 ^ 32"
    using k(4,5) by (simp_all add: W32_add_one)
  have rl: "rd32 ?m3 (a + 8) = W32 (length kb + 1)"
    using a by (simp add: mem_simps)
  have s1: "st32 c (W64 (a + 8)) (W32 (length kb + 1)) = Some (c\<lparr>mbytes := ?m1\<rparr>)"
    using d fit by (simp add: acc_W64)
  have s2: "st64 (c\<lparr>mbytes := ?m1\<rparr>) (W64 a) (W64 ?p) = Some (c\<lparr>mbytes := ?m2\<rparr>)"
    using d fit by (simp add: acc_W64)
  have s3: "put_str (c\<lparr>mbytes := ?m2\<rparr>) (W64 ?p) key = Some (c\<lparr>mbytes := ?m3\<rparr>)"
    using put_str_step [of "c\<lparr>mbytes := ?m2\<rparr>" ?p kb key] d fit key by simp
  have s4: "ld32 (c\<lparr>mbytes := ?m3\<rparr>) (W64 (a + 8)) = Some (W32 (length kb + 1))"
    using d fit rl by (simp add: acc_W64)
  have s5: "put_sec_used (c\<lparr>mbytes := ?m3\<rparr>) key_section_addr
      (W64 (v_key_used s + length kb + 1)) = Some (c\<lparr>mbytes := wr64 ?m3 64
      (W64 (v_key_used s + length kb + 1))\<rparr>)"
    using d st_W64(3) [of 64 "c\<lparr>mbytes := ?m3\<rparr>"]
    by (simp add: put_sec_used_def section_addrs W64_numeral [symmetric])
  show ?thesis
    using len s1 s2 s3 s4 s5 h1 h3
    by (simp add: item_add_key_def view_simps W64_add_numeral W64_add ucast_32_64 unat_W32
        add_key_bytes_def add.assoc)
qed

lemma add_key_bytes_facts:
  assumes "128 \<le> a" "a + 64 \<le> k_base s" "length kb + 1 < 2 ^ 31"
    and m: "rd_hdr m = view_hdr s"
  shows "rd_hdr (add_key_bytes s a kb m) =
      view_hdr (s\<lparr>v_key_used := v_key_used s + length kb + 1\<rparr>)"
    "rd64 (add_key_bytes s a kb m) a = W64 (k_base s + v_key_used s)"
    "rd32 (add_key_bytes s a kb m) (a + 8) = W32 (length kb + 1)"
    "bytes_at (add_key_bytes s a kb m) (k_base s + v_key_used s) (length kb + 1) = stored kb"
    "\<And>x. 128 \<le> x \<Longrightarrow> x < a \<or> a + 12 \<le> x \<Longrightarrow>
       x < k_base s + v_key_used s \<or> k_base s + v_key_used s + length kb + 1 \<le> x \<Longrightarrow>
       add_key_bytes s a kb m x = m x"
proof -
  have kb: "224 \<le> k_base s" by (simp add: areas)
  show "rd_hdr (add_key_bytes s a kb m) =
      view_hdr (s\<lparr>v_key_used := v_key_used s + length kb + 1\<rparr>)"
    using assms kb by (simp add: add_key_bytes_def mem_simps view_hdr_upd)
  show "rd64 (add_key_bytes s a kb m) a = W64 (k_base s + v_key_used s)"
    "rd32 (add_key_bytes s a kb m) (a + 8) = W32 (length kb + 1)"
    using assms by (simp_all add: add_key_bytes_def mem_simps)
  show "bytes_at (add_key_bytes s a kb m) (k_base s + v_key_used s) (length kb + 1) = stored kb"
    using kb by (simp add: add_key_bytes_def mem_simps)
  show "add_key_bytes s a kb m x = m x" if "128 \<le> x" "x < a \<or> a + 12 \<le> x"
    "x < k_base s + v_key_used s \<or> k_base s + v_key_used s + length kb + 1 \<le> x" for x
    using that by (auto simp: add_key_bytes_def mem_simps)
qed


subsection \<open>Storing a value\<close>

definition rec_bytes ::
  "store_view \<Rightarrow> nat \<Rightarrow> byte list \<Rightarrow> (nat \<Rightarrow> byte) \<Rightarrow> (nat \<Rightarrow> byte)" where
  "rec_bytes s pv vb m =
     wr32 (wr64 m pv (W64 (v_base s + v_val_used s))) (pv + 8) (W32 (length vb + 1))"

lemma put_item_val_step:
  assumes h: "hdr_ok s c" and pv: "128 \<le> pv" "pv + 12 \<le> msize c" and val: "cstr val vb"
  shows "put_item_val c (W64 pv) (W64 (v_base s)) val =
     Some (c\<lparr>mbytes := rec_bytes s pv vb (mbytes c)\<rparr>)"
proof -
  note d = hdr_okD [OF h]
  note k = cstr_place [OF val]
  show ?thesis
    using d(1-4) pv k(4)
    by (simp add: put_item_val_def d(6) view_simps addr_simps acc_W64 rec_bytes_def)
qed

lemma add_value_used_step:
  assumes h: "hdr_ok s c" and pv: "pv + 12 \<le> msize c"
    and len: "rd32 (mbytes c) (pv + 8) = W32 n" "n < 2 ^ 31"
  shows "add_value_used c (W64 pv) =
     Some (c\<lparr>mbytes := wr64 (mbytes c) 104 (W64 (v_val_used s + n))\<rparr>)"
proof -
  note d = hdr_okD [OF h]
  have "put_sec_used c value_section_addr v = Some (c\<lparr>mbytes := wr64 (mbytes c) 104 v\<rparr>)" for v
    using d(2-4) st_W64(3) [of 104 c]
    by (simp add: put_sec_used_def section_addrs W64_numeral [symmetric])
  then show ?thesis
    using d(3,4) pv len
    by (simp add: add_value_used_def d(6) view_simps addr_simps acc_W64 ucast_32_64)
qed

lemma rec_bytes_facts:
  assumes "128 \<le> pv"
  shows "rd_hdr (rec_bytes s pv vb m) = rd_hdr m"
    "rd_item_val (rec_bytes s pv vb m) pv =
       \<lparr>value_offset = W64 (v_base s + v_val_used s), value_len = W32 (length vb + 1)\<rparr>"
    "\<And>x. x < pv \<or> pv + 12 \<le> x \<Longrightarrow> rec_bytes s pv vb m x = m x"
  using assms by (auto simp: rec_bytes_def rd_item_val_def mem_simps)

definition add_val_bytes ::
  "store_view \<Rightarrow> nat \<Rightarrow> byte list \<Rightarrow> (nat \<Rightarrow> byte) \<Rightarrow> (nat \<Rightarrow> byte)" where
  "add_val_bytes s a vb m =
     wr64 (wr32 (rec_bytes s (a + 48) vb (put_bytes m (v_base s + v_val_used s) (stored vb)))
            (a + 12) (W32 1))
       104 (W64 (v_val_used s + length vb + 1))"

lemma item_add_value_step:
  assumes h: "hdr_ok s c" and a: "128 \<le> a" "a + 64 \<le> v_base s"
    and room: "v_val_used s + length vb + 1 \<le> 256 * v_keys s" and val: "cstr val vb"
  shows "item_add_value c (W64 a) val (W64 (v_base s + v_val_used s)) (W64 (v_base s)) =
     Some (c\<lparr>mbytes := add_val_bytes s a vb (mbytes c)\<rparr>)"
proof -
  note d = hdr_okD [OF h]
  note k = cstr_place [OF val]
  let ?m = "mbytes c" and ?p = "v_base s + v_val_used s" and ?pv = "a + 48"
  let ?m1 = "put_bytes ?m ?p (stored vb)"
  let ?m2 = "rec_bytes s ?pv vb ?m1"
  let ?m3 = "wr32 ?m2 (a + 12) (W32 1)"
  have fit: "?p + length vb + 1 \<le> msize c" "128 \<le> ?p" "a + 64 \<le> msize c"
    using room a d(3) by (auto simp: areas split: if_splits)
  have h1: "hdr_ok s (c\<lparr>mbytes := ?m1\<rparr>)" and h2: "hdr_ok s (c\<lparr>mbytes := ?m2\<rparr>)"
    and h3: "hdr_ok s (c\<lparr>mbytes := ?m3\<rparr>)"
    using a fit(2) d(5) by (auto intro!: hdr_ok_put [OF h] simp: mem_simps rec_bytes_facts)
  have s1: "put_str c (W64 ?p) val = Some (c\<lparr>mbytes := ?m1\<rparr>)"
    using put_str_step [of c ?p vb val] d fit val by simp
  have s2: "put_item_val (c\<lparr>mbytes := ?m1\<rparr>) (W64 ?pv) (W64 (v_base s)) val =
      Some (c\<lparr>mbytes := ?m2\<rparr>)"
    using put_item_val_step [OF h1, of ?pv val vb] a fit val by simp
  have s3: "st32 (c\<lparr>mbytes := ?m2\<rparr>) (W64 (a + 12)) 1 = Some (c\<lparr>mbytes := ?m3\<rparr>)"
    using d(2-4) fit by (simp add: acc_W64 W32_one)
  have "rd32 ?m3 (?pv + 8) = W32 (length vb + 1)"
    by (simp add: rec_bytes_def mem_simps)
  then have s4: "add_value_used (c\<lparr>mbytes := ?m3\<rparr>) (W64 ?pv) =
      Some (c\<lparr>mbytes := add_val_bytes s a vb ?m\<rparr>)"
    using add_value_used_step [OF h3, of ?pv "length vb + 1"] fit k(5)
    by (simp add: add_val_bytes_def add.assoc)
  have pv: "W64 (a + 16) + scast (W32 3) * 16 - 16 = W64 ?pv"
    by (simp add: scast_32_64) (simp add: W64_def)
  show ?thesis
    using s1 s2 s3 s4 hdr_okD(6) [OF h1]
    by (simp add: item_add_value_def view_simps sizeofs pv Let_def W64_add_numeral)
qed

lemma add_val_bytes_facts:
  assumes a: "128 \<le> a" "a + 64 \<le> v_base s" and m: "rd_hdr m = view_hdr s"
  shows "rd_hdr (add_val_bytes s a vb m) =
      view_hdr (s\<lparr>v_val_used := v_val_used s + length vb + 1\<rparr>)"
    "rd32 (add_val_bytes s a vb m) (a + 12) = W32 1"
    "item_val (add_val_bytes s a vb m) a 2 =
       \<lparr>value_offset = W64 (v_base s + v_val_used s), value_len = W32 (length vb + 1)\<rparr>"
    "bytes_at (add_val_bytes s a vb m) (v_base s + v_val_used s) (length vb + 1) = stored vb"
    "\<And>x. 128 \<le> x \<Longrightarrow> x < a + 12 \<or> a + 60 \<le> x \<Longrightarrow>
       x < v_base s + v_val_used s \<or> v_base s + v_val_used s + length vb + 1 \<le> x \<Longrightarrow>
       add_val_bytes s a vb m x = m x"
proof -
  have vb: "224 \<le> v_base s" by (simp add: areas)
  show "rd_hdr (add_val_bytes s a vb m) =
      view_hdr (s\<lparr>v_val_used := v_val_used s + length vb + 1\<rparr>)"
    using assms vb by (simp add: add_val_bytes_def mem_simps rec_bytes_facts view_hdr_upd)
  show "rd32 (add_val_bytes s a vb m) (a + 12) = W32 1"
    using assms by (simp add: add_val_bytes_def mem_simps)
  show "item_val (add_val_bytes s a vb m) a 2 =
       \<lparr>value_offset = W64 (v_base s + v_val_used s), value_len = W32 (length vb + 1)\<rparr>"
    using assms by (simp add: add_val_bytes_def item_val_def rd_item_val_def rec_bytes_def mem_simps
        add.commute)
  show "bytes_at (add_val_bytes s a vb m) (v_base s + v_val_used s) (length vb + 1) = stored vb"
    using a vb by (simp add: add_val_bytes_def rec_bytes_def mem_simps)
  show "add_val_bytes s a vb m x = m x" if "128 \<le> x" "x < a + 12 \<or> a + 60 \<le> x"
    "x < v_base s + v_val_used s \<or> v_base s + v_val_used s + length vb + 1 \<le> x" for x
    using that by (auto simp: add_val_bytes_def rec_bytes_def mem_simps)
qed


subsection \<open>Adding an entry\<close>

lemma key_place_step:
  assumes h: "hdr_ok s c" and room: "v_key_used s + length kb + 1 \<le> 64 * v_keys s"
    and key: "cstr key kb"
  shows "key_place c key =
     Some (PUPA_OK, Some (W64 (k_base s + v_key_used s)), W64 (k_base s), c)"
proof -
  note d = hdr_okD [OF h]
  note k = cstr_place [OF key]
  have l: "(scast (str_len key + 1) :: size_t) = W64 (length kb + 1)"
    using k(4,5) by (simp add: W32_add_one scast_32_64)
  have "\<not> W64 (64 * v_keys s) < W64 (v_key_used s) + W64 (length kb + 1)"
    using room d(4) by (simp add: W64_add W64_less_iff)
  then show ?thesis by (simp add: key_place_def d(6) view_simps l)
qed

lemma value_place_step:
  assumes h: "hdr_ok s c" and room: "v_val_used s + length vb + 1 \<le> 256 * v_keys s"
    and val: "cstr val vb"
  shows "value_place c val =
     Some (PUPA_OK, Some (W64 (v_base s + v_val_used s)), W64 (v_base s), c)"
proof -
  note d = hdr_okD [OF h]
  note k = cstr_place [OF val]
  have l: "(scast (str_len val + 1) :: size_t) = W64 (length vb + 1)"
    using k(4,5) by (simp add: W32_add_one scast_32_64)
  have "\<not> W64 (256 * v_keys s) < W64 (v_val_used s) + W64 (length vb + 1)"
    using room d(4) by (simp add: W64_add W64_less_iff)
  then show ?thesis by (simp add: value_place_def d(6) view_simps l)
qed

definition add_view :: "store_view \<Rightarrow> byte list \<Rightarrow> byte list \<Rightarrow> store_view" where
  "add_view s kb vb =
     s\<lparr>v_key_used := v_key_used s + length kb + 1,
       v_val_used := v_val_used s + length vb + 1\<rparr>"

definition add_bytes ::
  "store_view \<Rightarrow> nat \<Rightarrow> byte list \<Rightarrow> byte list \<Rightarrow> (nat \<Rightarrow> byte) \<Rightarrow> (nat \<Rightarrow> byte)" where
  "add_bytes s a kb vb m =
     add_val_bytes (s\<lparr>v_key_used := v_key_used s + length kb + 1\<rparr>) a vb (add_key_bytes s a kb m)"

text \<open>The guards under which an insertion needs no compaction.\<close>

definition has_room :: "store_view \<Rightarrow> byte list \<Rightarrow> byte list \<Rightarrow> bool" where
  "has_room s kb vb \<longleftrightarrow>
     v_used s < v_keys s \<and> 64 * (v_used s + 1) \<le> 16 * v_keys s + 48 \<and>
     v_key_used s + length kb + 1 \<le> 64 * v_keys s \<and>
     v_val_used s + length vb + 1 \<le> 256 * v_keys s"

lemma item_add_step:
  assumes h: "hdr_ok s c" and room: "has_room s kb vb"
    and a: "128 \<le> a" "a + 64 \<le> k_base s" "a + 64 \<le> v_base s"
    and key: "cstr key kb" and val: "cstr val vb"
  shows "pupa_store_item_add c (W64 a) key val =
     Some (PUPA_OK, c\<lparr>mbytes := add_bytes s a kb vb (mbytes c)\<rparr>)"
proof -
  note d = hdr_okD [OF h]
  let ?s2 = "s\<lparr>v_key_used := v_key_used s + length kb + 1\<rparr>"
  let ?m2 = "add_key_bytes s a kb (mbytes c)"
  have kl: "length kb + 1 < 2 ^ 31" using cstr_place(5) [OF key] .
  have ne: "W64 (v_used s) \<noteq> W64 (v_keys s)"
    using room d(4) by (simp add: has_room_def W64_eq_iff)
  have h2: "hdr_ok ?s2 (c\<lparr>mbytes := ?m2\<rparr>)"
    by (rule hdr_ok_put [OF h]) (simp_all add: add_key_bytes_facts(1) [OF a(1,2) kl d(5)])
  have r: "v_key_used s + length kb + 1 \<le> 64 * v_keys s"
    "v_val_used s + length vb + 1 \<le> 256 * v_keys s"
    using room by (simp_all add: has_room_def)
  have st: "item_add_value (c\<lparr>mbytes := ?m2\<rparr>) (W64 a) val (W64 (v_base s + v_val_used s))
      (W64 (v_base s)) = Some (c\<lparr>mbytes := add_bytes s a kb vb (mbytes c)\<rparr>)"
    using item_add_value_step [OF h2, of a vb val] a r val by (simp add: add_bytes_def)
  have vp: "value_place (c\<lparr>mbytes := ?m2\<rparr>) val =
      Some (PUPA_OK, Some (W64 (v_base s + v_val_used s)), W64 (v_base s), c\<lparr>mbytes := ?m2\<rparr>)"
    using value_place_step [OF h2, of vb val] r val by simp
  show ?thesis
    using key_place_step [OF h r(1) key] item_add_key_step [OF h a(1,2) r(1) key] vp st ne
    by (simp add: pupa_store_item_add_def d(6) view_simps)
qed

lemma add_bytes_facts:
  assumes h: "rd_hdr m = view_hdr s" "file_len (v_keys s) < 2 ^ 31" and room: "has_room s kb vb"
    and a: "128 \<le> a" "a + 64 \<le> k_base s" "a + 64 \<le> v_base s"
  defines "m' \<equiv> add_bytes s a kb vb m"
  shows "rd_hdr m' = view_hdr (add_view s kb vb)"
    "\<And>x. 128 \<le> x \<Longrightarrow> x < a \<or> a + 64 \<le> x \<Longrightarrow>
       x < k_base s + v_key_used s \<or> k_base s + v_key_used s + length kb + 1 \<le> x \<Longrightarrow>
       x < v_base s + v_val_used s \<or> v_base s + v_val_used s + length vb + 1 \<le> x \<Longrightarrow>
       m' x = m x"
    "entry m' a = (skey kb, [stored vb])"
    "item_ok (add_view s kb vb) m' a"
proof -
  let ?s2 = "s\<lparr>v_key_used := v_key_used s + length kb + 1\<rparr>"
  let ?m2 = "add_key_bytes s a kb m"
  have r: "v_key_used s + length kb + 1 \<le> 64 * v_keys s"
    "v_val_used s + length vb + 1 \<le> 256 * v_keys s"
    using room by (simp_all add: has_room_def)
  have kl: "length kb + 1 < 2 ^ 31" "length vb + 1 < 2 ^ 31"
    using r h(2) by (simp_all add: file_len_def)
  note f = add_key_bytes_facts [OF a(1,2) kl(1) h(1)]
  have a2: "a + 64 \<le> v_base ?s2" using a by simp
  note g = add_val_bytes_facts [OF a(1) a2 f(1), where vb = vb, folded m'_def [unfolded add_bytes_def]]
  have ord: "k_base s + v_key_used s + length kb + 1 \<le> v_base s" "224 \<le> k_base s"
    using r(1) by (auto simp: areas)
  have lim: "v_base s + v_val_used s + length vb + 1 < 2 ^ 31"
    using r(2) h(2) by (auto simp: areas)
  show "rd_hdr m' = view_hdr (add_view s kb vb)" using g(1) by (simp add: add_view_def)
  show "m' x = m x" if "128 \<le> x" "x < a \<or> a + 64 \<le> x"
    "x < k_base s + v_key_used s \<or> k_base s + v_key_used s + length kb + 1 \<le> x"
    "x < v_base s + v_val_used s \<or> v_base s + v_val_used s + length vb + 1 \<le> x" for x
    using g(5) [of x] f(5) [of x] that by auto
  have same: "m' x = ?m2 x" if "a \<le> x \<and> x < a + 12 \<or>
      k_base s + v_key_used s \<le> x \<and> x < k_base s + v_key_used s + length kb + 1" for x
    using g(5) [of x] that a ord by auto
  have "rd64 m' a = rd64 ?m2 a" "rd32 m' (a + 8) = rd32 ?m2 (a + 8)"
    unfolding rd64_def rd32_def by (auto intro!: arg_cong [where f = word_of_nat]
      arg_cong [where f = le_val] bytes_at_cong same)
  then have it: "rd_item m' a = \<lparr>key_offset = W64 (k_base s + v_key_used s),
      key_len = W32 (length kb + 1), val_cnt = W32 1\<rparr>"
    using f(2,3) g(2) by (simp add: rd_item_def)
  have kbytes: "bytes_at m' (k_base s + v_key_used s) (length kb + 1) = stored kb"
    using f(4) bytes_at_cong [of "k_base s + v_key_used s" "length kb + 1" m' ?m2] same by auto
  have vbytes: "bytes_at m' (v_base s + v_val_used s) (length vb + 1) = stored vb"
    using g(4) by simp
  have un: "unat (W64 (k_base s + v_key_used s)) = k_base s + v_key_used s"
    "unat (W64 (v_base s + v_val_used s)) = v_base s + v_val_used s"
    "unat (W32 (length kb + 1)) = length kb + 1" "unat (W32 (length vb + 1)) = length vb + 1"
    "unat (W32 1) = 1"
    using ord lim kl by (auto intro!: unat_W64 unat_W32)
  show "entry m' a = (skey kb, [stored vb])"
    using kbytes vbytes g(3)
    by (simp add: entry_def item_key_def item_values_def it un [simplified] val_bytes_def upt_rec
        numeral_2_eq_2 [symmetric])
  have last: "stored bs ! length bs = 0" for bs by (simp add: stored_def)
  have "m' (k_base s + v_key_used s + length kb) = 0"
    "m' (v_base s + v_val_used s + length vb) = 0"
    using arg_cong [OF kbytes, of "\<lambda>l. l ! length kb"] arg_cong [OF vbytes, of "\<lambda>l. l ! length vb"]
    by (simp_all add: last)
  note z = this
  have v2: "val_ok (add_view s kb vb) m' (item_val m' a 2)"
    using un z(2) g(3) by (simp add: val_ok_def add_view_def)
  have "val_ok (add_view s kb vb) m' (item_val m' a j)"
    if "j < 3" "3 - unat (W32 1) \<le> j" for j
  proof -
    have "j = 2" using that un(5) by simp
    then show ?thesis using v2 by simp
  qed
  then show "item_ok (add_view s kb vb) m' a"
    using un z(1) by (simp add: item_ok_def Let_def it add_view_def)
qed

end
