(* ===== verification/ReplaceStep.thy ===== *)
theory ReplaceStep
  imports SetSteps
begin

text \<open>
  \<open>pupa_store_item_replace\<close> on an entry of a well-formed index: the versions move up by one,
  the oldest of three is dropped, the new value is version 1.
\<close>

definition shift_bytes :: "nat \<Rightarrow> nat \<Rightarrow> (nat \<Rightarrow> byte) \<Rightarrow> (nat \<Rightarrow> byte)" where
  "shift_bytes n a m =
     (if n < 3
      then wr32 (put_bytes m (a + 16 + 16 * (2 - n)) (bytes_at m (a + 16 + 16 * (3 - n)) (16 * n)))
             (a + 12) (W32 (n + 1))
      else put_bytes m (a + 16) (bytes_at m (a + 32) 32))"

lemma item_shift_values_step:
  assumes h: "hdr_ok s c" and a: "a + 64 \<le> msize c"
    and n: "rd32 (mbytes c) (a + 12) = W32 n" "1 \<le> n" "n \<le> 3"
  shows "item_shift_values c (W64 a) =
     Some (W64 (a + 48), c\<lparr>mbytes := shift_bytes n a (mbytes c)\<rparr>)"
proof -
  note d = hdr_okD [OF h]
  have ld: "ld32 c (W64 (a + 12)) = Some (W32 n)" using a d(3,4) n by (simp add: acc_W64)
  have s3: "sint (W32 3) = 3" "W32 3 \<noteq> 1"
    using sint_W32 [of 3] by (simp_all add: W32_def)
  have sn: "sint (W32 n) = int n" using n by (simp add: sint_W32)
  show ?thesis
  proof (cases "n = 3")
    case True
    have k: "W32 3 - 1 = W32 2" "unat (W64 2 * 16) = 32" by (simp_all add: W32_def W64_def)
    have sc: "(scast (W32 2) :: size_t) = W64 2" by (simp add: scast_32_64)
    have cp: "memcpy c (W64 (a + 16)) (W64 (a + 32)) 32 =
        Some (c\<lparr>mbytes := shift_bytes n a (mbytes c)\<rparr>)"
      using True a d(2-4) by (simp add: acc_W64 shift_bytes_def)
    show ?thesis
      using True ld cp d(6) s3
      by (simp add: item_shift_values_def view_simps sizeofs Let_def k sc addr_simps add.commute)
  next
    case False
    then have n2: "n = 1 \<or> n = 2" using n by auto
    let ?m1 = "put_bytes (mbytes c) (a + 16 + 16 * (2 - n))
        (bytes_at (mbytes c) (a + 16 + 16 * (3 - n)) (16 * n))"
    have k: "(scast (W32 3 - W32 n - 1) :: size_t) = W64 (2 - n)"
      "(scast (W32 3 - W32 n) :: size_t) = W64 (3 - n)"
      "(scast (W32 n) :: size_t) = W64 n" "unat (W64 (n * 16)) = 16 * n"
      "(scast (W32 3 - 1) :: size_t) = W64 2" "W32 n + 1 = W32 (n + 1)"
      using n2 by (auto simp: W32_def W64_def)
    have cp: "memcpy c (W64 (a + 16 + (2 - n) * 16)) (W64 (a + 16 + (3 - n) * 16)) (16 * n) =
        Some (c\<lparr>mbytes := ?m1\<rparr>)"
      using n2 a d(2-4) by (auto simp: acc_W64 mult.commute)
    have st: "st32 (c\<lparr>mbytes := ?m1\<rparr>) (W64 (a + 12)) (W32 (n + 1)) =
        Some (c\<lparr>mbytes := shift_bytes n a (mbytes c)\<rparr>)"
      using n2 a d(2-4) by (auto simp: acc_W64 shift_bytes_def)
    have "\<not> 3 \<le> int n" using n2 by auto
    then show ?thesis
      using ld cp st d(6) s3 sn
      by (simp add: item_shift_values_def view_simps sizeofs Let_def W64_add_numeral
          k W64_mult_numeral W64_add add.commute [of 48 a] del: One_nat_def)
  qed
qed

lemma shift_bytes_frame:
  assumes "n \<le> 3" "x < a + 12 \<or> a + 64 \<le> x"
  shows "shift_bytes n a m x = m x"
proof -
  have "16 * (2 - n) + 16 * n \<le> 32 \<or> n = 3" using assms(1) by linarith
  then have "n < 3 \<Longrightarrow> a + 16 + 16 * (2 - n) + 16 * n \<le> a + 64" by simp
  then show ?thesis
    using assms(2) by (auto simp: shift_bytes_def mem_simps put_bytes_def)
qed

lemma shift_bytes_vals:
  assumes "1 \<le> n" "n \<le> 3" "j < 2" "2 - n \<le> j"
  shows "item_val (shift_bytes n a m) a j = item_val m a (j + 1)"
proof -
  have b: "bytes_at (shift_bytes n a m) (a + 16 + 16 * j + k) l =
      bytes_at m (a + 16 + 16 * (j + 1) + k) l" if "k + l \<le> 16" for k l
  proof -
    consider "n = 1" "j = 1" | "n = 2" "j = 0" | "n = 2" "j = 1" | "n = 3" "j = 0" | "n = 3" "j = 1"
      using assms by (auto simp: less_Suc_eq numeral_2_eq_2 numeral_3_eq_3 le_Suc_eq)
    then show ?thesis
      using that by cases
        (auto simp: shift_bytes_def mem_simps bytes_at_put_inside bytes_at_sub add.assoc)
  qed
  from b [of 0 8] b [of 8 4] show ?thesis
    by (simp add: item_val_def rd_item_val_def rd64_def rd32_def add.assoc)
qed

lemma shift_bytes_cnt:
  assumes "1 \<le> n" "n \<le> 3" "rd32 m (a + 12) = W32 n"
  shows "rd32 (shift_bytes n a m) (a + 12) = W32 (min 3 (n + 1))"
proof -
  consider "n = 1" | "n = 2" | "n = 3" using assms(1,2) by linarith
  then show ?thesis using assms(3) by cases (simp_all add: shift_bytes_def mem_simps)
qed

definition replace_view :: "store_view \<Rightarrow> byte list \<Rightarrow> store_view" where
  "replace_view s vb = s\<lparr>v_val_used := v_val_used s + length vb + 1\<rparr>"

definition replace_bytes ::
  "store_view \<Rightarrow> nat \<Rightarrow> nat \<Rightarrow> byte list \<Rightarrow> (nat \<Rightarrow> byte) \<Rightarrow> (nat \<Rightarrow> byte)" where
  "replace_bytes s a n vb m =
     wr64 (rec_bytes s (a + 48) vb
             (shift_bytes n a (put_bytes m (v_base s + v_val_used s) (stored vb))))
       104 (W64 (v_val_used s + length vb + 1))"

text \<open>The steps of a replacement, and what the header is after each.\<close>

lemma replace_steps:
  assumes h: "hdr_ok s c" and a: "128 \<le> a" "a + 64 \<le> v_base s"
    and n: "rd32 (mbytes c) (a + 12) = W32 n" "1 \<le> n" "n \<le> 3"
    and room: "v_val_used s + length vb + 1 \<le> 256 * v_keys s" and val: "cstr val vb"
    and m1: "m1 = put_bytes (mbytes c) (v_base s + v_val_used s) (stored vb)"
    and m2: "m2 = shift_bytes n a m1" and m3: "m3 = rec_bytes s (a + 48) vb m2"
  shows "hdr_ok s (c\<lparr>mbytes := m1\<rparr>)" "hdr_ok s (c\<lparr>mbytes := m2\<rparr>)" "hdr_ok s (c\<lparr>mbytes := m3\<rparr>)"
    "put_str c (W64 (v_base s + v_val_used s)) val = Some (c\<lparr>mbytes := m1\<rparr>)"
    "item_shift_values (c\<lparr>mbytes := m1\<rparr>) (W64 a) = Some (W64 (a + 48), c\<lparr>mbytes := m2\<rparr>)"
    "put_item_val (c\<lparr>mbytes := m2\<rparr>) (W64 (a + 48)) (W64 (v_base s)) val = Some (c\<lparr>mbytes := m3\<rparr>)"
    "add_value_used (c\<lparr>mbytes := m3\<rparr>) (W64 (a + 48)) =
       Some (c\<lparr>mbytes := replace_bytes s a n vb (mbytes c)\<rparr>)"
proof -
  note d = hdr_okD [OF h]
  note k = cstr_place [OF val]
  let ?p = "v_base s + v_val_used s" and ?pv = "a + 48"
  have fit: "?p + length vb + 1 \<le> msize c" "128 \<le> ?p" "a + 64 \<le> msize c"
    using room a d(3) by (auto simp: areas split: if_splits)
  have hm2: "rd_hdr m2 = rd_hdr m1"
    unfolding m2 using a n by (intro rd_hdr_cong shift_bytes_frame) auto
  show h1: "hdr_ok s (c\<lparr>mbytes := m1\<rparr>)" and h2: "hdr_ok s (c\<lparr>mbytes := m2\<rparr>)"
    and h3: "hdr_ok s (c\<lparr>mbytes := m3\<rparr>)"
    using a fit(2) d(5) hm2
    by (auto intro!: hdr_ok_put [OF h] simp: mem_simps rec_bytes_facts m1 m3)
  show "put_str c (W64 ?p) val = Some (c\<lparr>mbytes := m1\<rparr>)"
    using put_str_step [of c ?p vb val] d fit val by (simp add: m1)
  have "rd32 m1 (a + 12) = W32 n"
    using n(1) a by (simp add: mem_simps m1)
  then show "item_shift_values (c\<lparr>mbytes := m1\<rparr>) (W64 a) = Some (W64 ?pv, c\<lparr>mbytes := m2\<rparr>)"
    using item_shift_values_step [OF h1, of a n] fit n by (simp add: m2)
  show "put_item_val (c\<lparr>mbytes := m2\<rparr>) (W64 ?pv) (W64 (v_base s)) val = Some (c\<lparr>mbytes := m3\<rparr>)"
    using put_item_val_step [OF h2, of ?pv val vb] a fit val by (simp add: m3)
  have "rd32 m3 (?pv + 8) = W32 (length vb + 1)"
    by (simp add: rec_bytes_def mem_simps m3)
  then show "add_value_used (c\<lparr>mbytes := m3\<rparr>) (W64 ?pv) =
      Some (c\<lparr>mbytes := replace_bytes s a n vb (mbytes c)\<rparr>)"
    using add_value_used_step [OF h3, of ?pv "length vb + 1"] fit k(5)
    by (simp add: replace_bytes_def add.assoc m1 m2 m3)
qed

lemma item_replace_step:
  assumes h: "hdr_ok s c" and a: "128 \<le> a" "a + 64 \<le> v_base s"
    and n: "rd32 (mbytes c) (a + 12) = W32 n" "1 \<le> n" "n \<le> 3"
    and room: "v_val_used s + length vb + 1 \<le> 256 * v_keys s" and val: "cstr val vb"
  shows "pupa_store_item_replace c (W64 a) val =
     Some (PUPA_OK, c\<lparr>mbytes := replace_bytes s a n vb (mbytes c)\<rparr>)"
  using value_place_step [OF h room val] replace_steps [OF assms refl refl refl]
  by (simp add: pupa_store_item_replace_def)

lemma replace_bytes_facts:
  assumes h: "rd_hdr m = view_hdr s" "file_len (v_keys s) < 2 ^ 31"
    and a: "128 \<le> a" "a + 64 \<le> k_base s" "a + 64 \<le> v_base s"
    and room: "v_val_used s + length vb + 1 \<le> 256 * v_keys s"
    and ku: "v_key_used s \<le> 64 * v_keys s"
    and ok: "item_ok s m a" and n: "unat (val_cnt (rd_item m a)) = n"
  defines "m' \<equiv> replace_bytes s a n vb m"
  shows "rd_hdr m' = view_hdr (replace_view s vb)"
    "\<And>x. 128 \<le> x \<Longrightarrow> x < a + 12 \<or> a + 64 \<le> x \<Longrightarrow>
       x < v_base s + v_val_used s \<or> v_base s + v_val_used s + length vb + 1 \<le> x \<Longrightarrow>
       m' x = m x"
    "entry m' a = (item_key m a, take 3 (stored vb # item_values m a))"
    "item_ok (replace_view s vb) m' a"
proof -
  let ?m1 = "put_bytes m (v_base s + v_val_used s) (stored vb)"
  let ?m2 = "shift_bytes n a ?m1"
  let ?s' = "replace_view s vb"
  have n13: "1 \<le> n" "n \<le> 3" using ok n by (simp_all add: item_ok_def Let_def)
  have cnt: "rd32 m (a + 12) = W32 n" using n by (simp add: rd_item_def flip: n)
  have ord: "k_base s + v_key_used s \<le> v_base s" "224 \<le> k_base s" "224 \<le> v_base s"
    using ku by (auto simp: areas)
  have lim: "v_base s + v_val_used s + length vb + 1 < 2 ^ 31"
    using room h(2) by (auto simp: areas)
  have hm2: "rd_hdr ?m2 = view_hdr s"
    using rd_hdr_cong [of ?m2 ?m1] shift_bytes_frame [of n _ a ?m1] a n13 h(1) ord
    by (simp add: mem_simps)
  show "rd_hdr m' = view_hdr (replace_view s vb)"
    using a hm2
    by (simp add: m'_def replace_bytes_def mem_simps rec_bytes_facts view_hdr_upd
        replace_view_def)
  show fr: "m' x = m x" if "128 \<le> x" "x < a + 12 \<or> a + 64 \<le> x"
    "x < v_base s + v_val_used s \<or> v_base s + v_val_used s + length vb + 1 \<le> x" for x
  proof -
    have "rec_bytes s (a + 48) vb ?m2 x = ?m2 x" using that a by (intro rec_bytes_facts(3)) auto
    then show ?thesis
      using that shift_bytes_frame [of n x a ?m1] n13
      by (simp add: m'_def replace_bytes_def mem_simps)
  qed
  have m1: "?m1 x = m x" if "x < v_base s + v_val_used s" for x
    using that by (simp add: mem_simps)
  have iv1: "item_val ?m1 a j = item_val m a j" if "j < 3" for j
    using that a m1 by (intro item_val_cong) simp_all
  have iv: "item_val m' a j = item_val m a (j + 1)" if "j < 2" "2 - n \<le> j" for j
  proof -
    have "item_val m' a j = item_val ?m2 a j"
      using that a
      by (auto simp: m'_def replace_bytes_def item_val_def rec_bytes_facts(3) mem_simps
          intro!: rd_item_val_cong)
    then show ?thesis using shift_bytes_vals [OF n13 that, of a ?m1] iv1 [of "j + 1"] that by simp
  qed
  have iv2: "item_val m' a 2 =
      \<lparr>value_offset = W64 (v_base s + v_val_used s), value_len = W32 (length vb + 1)\<rparr>"
    using a by (simp add: m'_def replace_bytes_def item_val_def rec_bytes_def rd_item_val_def
        mem_simps add.commute)
  have "rd32 m' (a + 12) = rd32 ?m2 (a + 12)"
    using a by (simp add: m'_def replace_bytes_def rec_bytes_def mem_simps)
  also have "\<dots> = W32 (min 3 (n + 1))"
    using shift_bytes_cnt [OF n13, of ?m1 a] cnt a by (simp add: mem_simps)
  finally have cnt': "unat (rd32 m' (a + 12)) = min 3 (n + 1)"
    by (simp add: unat_W32 min_def)
  have "rd64 m' a = rd64 m a" "rd32 m' (a + 8) = rd32 m (a + 8)"
    unfolding rd64_def rd32_def using a by (auto intro!: arg_cong [where f = word_of_nat]
      arg_cong [where f = le_val] bytes_at_cong fr)
  then have it: "key_offset (rd_item m' a) = key_offset (rd_item m a)"
    "key_len (rd_item m' a) = key_len (rd_item m a)" "unat (val_cnt (rd_item m' a)) = min 3 (n + 1)"
    using cnt' by (simp_all add: rd_item_def)
  have keyr: "m' x = m x" if "k_base s \<le> x" "x < k_base s + v_key_used s" for x
    using that ord a by (intro fr) auto
  have valr: "m' x = m x" if "v_base s \<le> x" "x < v_base s + v_val_used s" for x
    using that ord a by (intro fr) auto
  have old: "val_ok s m (item_val m a j)" if "j < 3" "3 - n \<le> j" for j
    using ok that n by (simp add: item_ok_def Let_def)
  have vb': "val_bytes m' (item_val m a j) = val_bytes m (item_val m a j)"
    "val_ok ?s' m' (item_val m a j)" if "j < 3" "3 - n \<le> j" for j
    using old [OF that] valr
    by (auto simp: val_bytes_def val_ok_def replace_view_def intro!: bytes_at_cong)
  have "m' x = ?m1 x" if "v_base s \<le> x" for x
    using that a ord(3) shift_bytes_frame [of n x a ?m1] n13
    by (simp add: m'_def replace_bytes_def rec_bytes_facts(3) mem_simps)
  then have "bytes_at m' (v_base s + v_val_used s) (length vb + 1) =
      bytes_at ?m1 (v_base s + v_val_used s) (length vb + 1)"
    by (intro bytes_at_cong) simp
  then have nb: "bytes_at m' (v_base s + v_val_used s) (length vb + 1) = stored vb"
    by (simp add: mem_simps)
  have un: "unat (W64 (v_base s + v_val_used s)) = v_base s + v_val_used s"
    "unat (W32 (length vb + 1)) = length vb + 1"
    using lim by (auto intro!: unat_W64 unat_W32)
  have "m' (v_base s + v_val_used s + length vb) = 0"
    using arg_cong [OF nb, of "\<lambda>l. l ! length vb"] by (simp add: stored_def)
  then have new: "val_ok ?s' m' (item_val m' a 2)" "val_bytes m' (item_val m' a 2) = stored vb"
    using un nb by (simp_all add: iv2 val_ok_def val_bytes_def replace_view_def)
  have key: "item_key m' a = item_key m a"
    using ok keyr by (auto simp: item_key_def it Let_def item_ok_def intro!: bytes_at_cong)
  have vals: "item_values m' a = take 3 (stored vb # item_values m a)"
  proof (rule nth_equalityI)
    show "length (item_values m' a) = length (take 3 (stored vb # item_values m a))"
      by (simp add: it n min_def)
    fix r
    assume "r < length (item_values m' a)"
    then have r: "r < min 3 (n + 1)" by (simp add: it)
    then have rv: "item_values m' a ! r = val_bytes m' (item_val m' a (2 - r))"
    proof -
      have "r + 1 \<le> unat (val_cnt (rd_item m' a))" using r it(3) by linarith
      then show ?thesis using item_values_nth [of "r + 1" m' a] by simp
    qed
    show "item_values m' a ! r = take 3 (stored vb # item_values m a) ! r"
    proof (cases r)
      case 0
      then show ?thesis using rv new(2) by simp
    next
      case (Suc q)
      then have q: "2 - r < 2" "2 - n \<le> 2 - r" "2 - r + 1 = 3 - r" using r n13 by auto
      have "item_values m a ! q = val_bytes m (item_val m a (3 - r))"
        using item_values_nth [of r m a] Suc r n by simp
      have "3 - r < 3" "3 - n \<le> 3 - r" using Suc r by auto
      then have "val_bytes m' (item_val m a (3 - r)) = val_bytes m (item_val m a (3 - r))"
        by (rule vb'(1))
      then show ?thesis
        using rv iv [OF q(1,2)] q(3) Suc r
          \<open>item_values m a ! q = val_bytes m (item_val m a (3 - r))\<close> by simp
    qed
  qed
  show "entry m' a = (item_key m a, take 3 (stored vb # item_values m a))"
    by (simp add: entry_def key vals)
  have "val_ok ?s' m' (item_val m' a j)" if j: "j < 3" "3 - min 3 (n + 1) \<le> j" for j
  proof (cases "j = 2")
    case True
    then show ?thesis using new(1) by simp
  next
    case False
    then have "j < 2" "2 - n \<le> j" "j + 1 < 3" "3 - n \<le> j + 1" using j by auto
    then show ?thesis using iv [of j] vb'(2) [of "j + 1"] by simp
  qed
  moreover have "m' (unat (key_offset (rd_item m a)) + unat (key_len (rd_item m a)) - 1) = 0"
    using ok by (subst keyr) (auto simp: item_ok_def Let_def)
  ultimately show "item_ok ?s' m' a"
    using ok n13 by (auto simp: item_ok_def Let_def it replace_view_def)
qed

end
