(* ===== verification/SetCorrect.thy ===== *)
theory SetCorrect
  imports ReplaceStep
begin

text \<open>
  \<open>pupa_store_set\<close> as a whole: inserting a new key, replacing the value of a present one,
  running out of entries, and the case in which the insertion search does not return.
\<close>

subsection \<open>Insertion into a sorted association list\<close>

definition insert_entry ::
  "(store_key \<times> byte list list) list \<Rightarrow> store_key \<Rightarrow> byte list list \<Rightarrow>
   (store_key \<times> byte list list) list" where
  "insert_entry es k vs =
     (let p = insert_pos k (map fst es) in take p es @ (k, vs) # drop p es)"

lemma insert_entry_nth:
  fixes es :: "'b list"
  assumes "p \<le> length es"
  shows "map (\<lambda>i. (es @ [e]) ! (if i < p then i else if i = p then length es else i - 1))
      [0..<Suc (length es)] = take p es @ e # drop p es"
proof (rule nth_equalityI)
  fix i
  assume "i < length (map (\<lambda>i. (es @ [e]) ! (if i < p then i else if i = p then length es
    else i - 1)) [0..<Suc (length es)])"
  then have i: "i < Suc (length es)" by simp
  consider "i < p" | "i = p" | "p < i" by linarith
  then show "map (\<lambda>i. (es @ [e]) ! (if i < p then i else if i = p then length es else i - 1))
      [0..<Suc (length es)] ! i = (take p es @ e # drop p es) ! i"
  proof cases
    case 3
    then obtain d where "i = Suc (p + d)" using less_imp_Suc_add by blast
    then show ?thesis using i assms by (simp add: nth_append del: upt_Suc)
  qed (use i assms in \<open>simp_all add: nth_append del: upt_Suc\<close>)
qed (use assms in simp)

lemma sorted_insert_entry:
  assumes srt: "sorted_wrt (<) (map fst es)" and new: "k \<notin> fst ` set es"
  shows "sorted_wrt (<) (map fst (insert_entry es k vs))"
proof -
  let ?ks = "map fst es"
  let ?p = "insert_pos k ?ks"
  have new': "k \<notin> set ?ks" using new by simp
  have lo: "x < k" if "x \<in> set (take ?p ?ks)" for x
    using that insert_pos_less [of _ k ?ks] insert_pos_le [of k ?ks]
    by (auto simp: in_set_conv_nth)
  have hi: "k < x" if "x \<in> set (drop ?p ?ks)" for x
    using that insert_pos_ge [OF srt new'] by (auto simp: in_set_conv_nth)
  have "sorted_wrt (<) (take ?p ?ks @ drop ?p ?ks)" using srt by simp
  then have "sorted_wrt (<) (take ?p ?ks @ k # drop ?p ?ks)"
    using lo hi by (auto simp only: sorted_wrt_append sorted_wrt.simps)
      (metis order_less_trans list.set_intros set_ConsD)
  then show ?thesis by (simp add: insert_entry_def Let_def take_map drop_map)
qed

lemma map_of_insert_entry:
  assumes "k \<notin> fst ` set es"
  shows "map_of (insert_entry es k vs) = (map_of es)(k \<mapsto> vs)"
proof -
  let ?p = "insert_pos k (map fst es)"
  have "k \<notin> fst ` set (take ?p es)" using assms by (meson image_mono in_mono set_take_subset)
  then have n: "map_of (take ?p es) k = None" by (simp add: map_of_eq_None_iff)
  have "map_of es = map_of (take ?p es @ drop ?p es)" by simp
  then have "map_of es = map_of (drop ?p es) ++ map_of (take ?p es)"
    by (simp only: map_of_append)
  then show ?thesis
    using n by (auto simp: insert_entry_def Let_def map_add_def fun_eq_iff split: option.splits)
qed

subsection \<open>The index after a new entry was written behind the copied ones\<close>

text \<open>
  \<open>appended s c kb es\<close>: the area at \<open>i_snap\<close> holds the entries \<open>es\<close> and one more, whose key
  is \<open>kb\<close>; this is the state in which \<open>pupa_sort\<close> is called.
\<close>

lemma sort_compares:
  assumes h: "hdr_ok s c" and ku: "v_key_used s \<le> 64 * v_keys s"
    and fit: "b + 64 * (u + 1) \<le> file_len (v_keys s)"
    and ok: "\<forall>i < u + 1. item_ok s (mbytes c) (b + 64 * i)"
    and es: "entries (mbytes c) b (u + 1) = es @ [(skey kb, vs)]"
    and len: "length kb + 1 < 2 ^ 31"
    and e: "e = rd_item (mbytes c) (b + 64 * u)"
  shows "compares_to
      (\<lambda>p2. pupa_store_item_compare_arg c (Some (key_offset e), key_len e) p2 (Off 0))
      (W64 b) 64 (skey kb) (map fst es @ [skey kb])"
    "unat (key_len e) = length kb + 1" "length es = u"
proof -
  have sz: "msize c = file_len (v_keys s)" "file_len (v_keys s) < 2 ^ 31"
    using h by (simp_all add: hdr_ok_def)
  show u: "length es = u" using arg_cong [OF es, of length] by simp
  have "entries (mbytes c) b (u + 1) ! u = (skey kb, vs)" by (simp only: es) (simp add: u [symmetric])
  then have key: "item_key (mbytes c) (b + 64 * u) = skey kb" by (simp add: entry_def)
  have oku: "item_ok s (mbytes c) (b + 64 * u)" using ok by simp
  note ik = item_ok_key [OF item_ok_key_ok [OF oku] ku sz refl]
  have ld: "ldn c (key_offset e) (unat (key_len e)) = Some (stored kb)"
    using ik(2) key e by simp
  then show kl: "unat (key_len e) = length kb + 1"
    by (metis ldn_def length_bytes_at length_stored option.distinct(1) option.inject)
  have "compares_to
      (\<lambda>p2. pupa_store_item_compare_arg c (Some (key_offset e), key_len e) p2 (Off 0))
      (W64 b) 64 (StoreKey (stored kb)) (map fst (entries (mbytes c) b (u + 1)))"
    by (rule compares_to_entries [OF _ sz ku fit]) (use ok kl len ld in \<open>auto intro: item_ok_key_ok\<close>)
  then show "compares_to
      (\<lambda>p2. pupa_store_item_compare_arg c (Some (key_offset e), key_len e) p2 (Off 0))
      (W64 b) 64 (skey kb) (map fst es @ [skey kb])"
    by (simp only: es) simp
qed

lemma sort_appended:
  assumes h: "hdr_ok s c" and ku: "v_key_used s \<le> 64 * v_keys s"
    and fit: "b + 64 * (u + 1) \<le> file_len (v_keys s)"
    and ok: "\<forall>i < u + 1. item_ok s (mbytes c) (b + 64 * i)"
    and es: "entries (mbytes c) b (u + 1) = es @ [(skey kb, vs)]"
    and srt: "sorted_wrt (<) (map fst es)" and new: "skey kb \<notin> fst ` set es"
    and len: "length kb + 1 < 2 ^ 31"
    and left: "insert_pos (skey kb) (map fst es) = 0 \<Longrightarrow> left_ok u"
    and w: "w_key w = Off 0"
  shows "pupa_sort True c (W64 b) (W64 (u + 1)) 64 w =
     Some (c\<lparr>mbytes := insert_slot (mbytes c) b (insert_pos (skey kb) (map fst es)) u\<rparr>)"
proof -
  note cmp = sort_compares [OF h ku fit ok es len refl]
  show ?thesis
    using pupa_sort_inserts [of b "map fst es" c "rd_item (mbytes c) (b + 64 * u)" w "skey kb",
        OF _ _ _ _ cmp(1) [folded w] srt]
      new left fit hdr_okD(2-4) [OF h] cmp(3) by (simp add: file_len_def)
qed

text \<open>
  A key smaller than all: the search of the range \<open>[0, u]\<close> reaches \<open>[0, -1]\<close>, unless \<open>left_ok u\<close>,
  and then probes the bytes before the index again and again.
\<close>

lemma sort_stuck:
  assumes h: "hdr_ok s c" and ku: "v_key_used s \<le> 64 * v_keys s"
    and fit: "b + 64 * (u + 1) \<le> file_len (v_keys s)" and b: "64 \<le> b"
    and ok: "\<forall>i < u + 1. item_ok s (mbytes c) (b + 64 * i)"
    and es: "entries (mbytes c) b (u + 1) = es @ [(skey kb, vs)]"
    and srt: "sorted_wrt (<) (map fst es)" and new: "skey kb \<notin> fst ` set es"
    and len: "length kb + 1 < 2 ^ 31"
    and left: "insert_pos (skey kb) (map fst es) = 0" "\<not> left_ok u"
    and w: "w_key w = Off 0" and before: "rd32 (mbytes c) (b - 56) \<noteq> W32 (length kb + 1)"
  shows "pupa_sort True c (W64 b) (W64 (u + 1)) 64 w = None"
proof -
  let ?e = "rd_item (mbytes c) (b + 64 * u)"
  let ?cmp = "\<lambda>p2. pupa_store_item_compare_arg c (Some (key_offset ?e), key_len ?e) p2 (Off 0)"
  note d = hdr_okD [OF h]
  note cmp = sort_compares [OF h ku fit ok es len refl]
  have cnt: "(ucast (W64 (Suc u) - 1) :: c_int) = W32 u" "(scast (W32 u) :: size_t) = W64 u"
    using fit d(4) by (simp_all add: W64_def file_len_def ucast_64_32 [unfolded W64_def]
        scast_32_64 [unfolded W64_def])
  have "W32 (unat (key_len ?e)) = key_len ?e" by (simp add: W32_def)
  then have kl: "key_len ?e = W32 (length kb + 1)" by (simp only: cmp(2))
  have pre: "W64 b - 64 = W64 (b - 64)" "W64 b - 64 + 8 = W64 (b - 56)"
    using b by (simp_all add: W64_def of_nat_diff)
  have "ld32 c (W64 b - 64 + 8) = Some (rd32 (mbytes c) (b - 56))"
    using d(3,4) fit by (simp add: pre(2) acc_W64 file_len_def)
  then have "?cmp (W64 b - 64) \<noteq> Some 0"
    using before kl by (auto simp: pupa_store_item_compare_arg_def)
  moreover have "compares_to ?cmp (W64 b) 64 (skey kb) (map fst es)"
    by (rule compares_to_prefix [OF cmp(1)])
  moreover have "\<forall>x \<in> set (map fst es). skey kb < x"
  proof
    fix x
    assume "x \<in> set (map fst es)"
    then obtain i where "i < length (map fst es)" "x = map fst es ! i"
      by (metis in_set_conv_nth)
    then show "skey kb < x" using insert_pos_ge [OF srt, of "skey kb" i] new left(1) by simp
  qed
  ultimately have "pupa_bsearch ?cmp (W64 b) 64 0 (W64 u) = None"
    using pupa_bsearch_diverges [of ?cmp "W64 b" 64 "skey kb" "map fst es" u] srt left(2) cmp(3)
      fit d(4) by (simp add: file_len_def)
  moreover have "ldn c (W64 b + W64 u * 64) 64 = Some (bytes_at (mbytes c) (b + 64 * u) 64)"
  proof -
    have "W64 b + W64 u * 64 = W64 (b + 64 * u)" by (simp add: addr_simps mult.commute)
    then show ?thesis using fit d(3,4) by (simp add: acc_W64 file_len_def)
  qed
  ultimately show ?thesis
    by (simp add: pupa_sort_def Let_def cnt rd_item_copy w)
qed

lemma inserted_index:
  assumes ok: "\<forall>i < u + 1. item_ok s m (b + 64 * i)"
    and es: "entries m b (u + 1) = es @ [(k, vs)]" and p: "p \<le> u"
    and area: "b + 64 * (u + 1) \<le> k_base s" "b + 64 * (u + 1) \<le> v_base s"
    and m': "\<And>x. 128 \<le> x \<Longrightarrow> m' x = insert_slot m b p u x" "128 \<le> b"
    and s': "k_base s' = k_base s" "v_base s' = v_base s"
      "v_key_used s \<le> v_key_used s'" "v_val_used s \<le> v_val_used s'"
  shows "\<forall>i < u + 1. item_ok s' m' (b + 64 * i)"
    "entries m' b (u + 1) = take p es @ (k, vs) # drop p es"
proof -
  let ?f = "\<lambda>i. if i < p then i else if i = p then u else i - 1"
  have len: "length es = u" using arg_cong [OF es, of length] by simp
  note tr = entries_transfer [where n = "u + 1" and s = s and s' = s' and f = ?f
      and m = m and b = b and b' = b and m' = m']
  have slot: "m' (b + 64 * i + j) = m (b + 64 * ?f i + j)" if "i < u + 1" "j < 64" for i j
    using insert_slot_bytes [of p u i j m b] that p m' by simp
  have out: "m' x = m x" if "b + 64 * (u + 1) \<le> x" for x
    using that m' by (simp add: insert_slot_outside)
  show "\<forall>i < u + 1. item_ok s' m' (b + 64 * i)"
    by (rule tr(1)) (use ok p slot out area s' in auto)
  have "entries m' b (u + 1) = map (\<lambda>i. entry m (b + 64 * ?f i)) [0..<u + 1]"
    by (rule tr(2)) (use ok p slot out area s' in auto)
  also have "\<dots> = map (\<lambda>i. entries m b (u + 1) ! ?f i) [0..<u + 1]"
    using p by (auto simp del: upt_Suc)
  also have "\<dots> = take p es @ (k, vs) # drop p es"
    using insert_entry_nth [of p es "(k, vs)"] p
    by (simp only: es len Suc_eq_plus1)
  finally show "entries m' b (u + 1) = take p es @ (k, vs) # drop p es" .
qed

lemma appended_index:
  assumes v: "view_ok s" and h: "rd_hdr m = view_hdr s" and ix: "index_ok s m b"
    and room: "has_room s kb vb"
  defines "a \<equiv> i_snap s + 64 * v_used s"
  defines "m2 \<equiv> add_bytes s a kb vb (snap_bytes s b m)"
  assumes m3: "\<And>x. 128 \<le> x \<Longrightarrow> m3 x = m2 x"
    and s3: "k_base s3 = k_base s" "v_base s3 = v_base s"
      "v_key_used s3 = v_key_used s + length kb + 1" "v_val_used s3 = v_val_used s + length vb + 1"
  shows "\<forall>i < v_used s + 1. item_ok s3 m3 (i_snap s + 64 * i)"
    "entries m3 (i_snap s) (v_used s + 1) =
       entries m b (v_used s) @ [(skey kb, [stored vb])]"
proof -
  let ?u = "v_used s" and ?b = "i_snap s"
  let ?m1 = "snap_bytes s b m"
  note sn = snapshot_entries [OF v ix]
  have a: "128 \<le> a" "a + 64 \<le> k_base s" "a + 64 \<le> v_base s"
    using room by (auto simp: a_def has_room_def areas)
  have b: "128 \<le> ?b" "224 \<le> k_base s" "224 \<le> v_base s" by (simp_all add: areas)
  have kv: "k_base s + v_key_used s + length kb + 1 \<le> v_base s"
    using room by (auto simp: has_room_def areas)
  have m1h: "rd_hdr ?m1 = view_hdr s" "file_len (v_keys s) < 2 ^ 31"
    using v h by (simp_all add: snap_bytes_hdr view_ok_def)
  note f = add_bytes_facts [OF m1h room a, folded m2_def]
  have fr: "m3 x = ?m1 x" if "128 \<le> x" "x < a \<or> k_base s \<le> x \<and> x < k_base s + v_key_used s
      \<or> v_base s \<le> x \<and> x < v_base s + v_val_used s" for x
    using that f(2) [of x] m3 [of x] a kv by auto
  note tr = entries_transfer [where n = ?u and s = s and s' = s3 and f = "\<lambda>i. i"
      and m = ?m1 and b = ?b and b' = ?b and m' = m3]
  have slot: "m3 (?b + 64 * i + j) = ?m1 (?b + 64 * i + j)" if "i < ?u" "j < 64" for i j
    using that b by (intro fr) (auto simp: a_def)
  have keys: "m3 x = ?m1 x" if "k_base s \<le> x" "x < k_base s + v_key_used s" for x
    using that b by (intro fr) auto
  have vals: "m3 x = ?m1 x" if "v_base s \<le> x" "x < v_base s + v_val_used s" for x
    using that b by (intro fr) auto
  have ok1: "\<forall>i < ?u. item_ok s3 m3 (?b + 64 * i)"
    by (rule tr(1)) (use index_okD(1) [OF sn(1)] slot keys vals s3 in auto)
  have es1: "entries m3 ?b ?u = entries ?m1 ?b ?u"
    unfolding entries_def [of ?m1]
    by (rule tr(2)) (use index_okD(1) [OF sn(1)] slot keys vals s3 in auto)
  have last: "m3 x = m2 x" if "k_base s \<le> x \<or> v_base s \<le> x \<or> a \<le> x" for x
    using that b a m3 by auto
  have at: "item_ok s3 m3 a" "entry m3 a = entry m2 a"
    by (rule entry_transfer [OF f(4), where s' = s3]; use s3 last in \<open>auto simp: add_view_def\<close>)+
  show "\<forall>i < ?u + 1. item_ok s3 m3 (?b + 64 * i)"
    using ok1 at(1) by (auto simp: less_Suc_eq a_def)
  show "entries m3 ?b (?u + 1) = entries m b ?u @ [(skey kb, [stored vb])]"
    using es1 sn(2) at(2) f(3) by (simp add: entries_def a_def)
qed

subsection \<open>The beginning and the end of a write\<close>

text \<open>
  \<open>writer s c b\<close>: a well-formed store mapped for writing, whose \<open>ctx->store_items\<close> leads to
  an index at \<open>b\<close>, one of the two areas. It need not be the current one: the operations that
  write take their entries from there.
\<close>

definition writer :: "store_view \<Rightarrow> pupa_ctx \<Rightarrow> nat \<Rightarrow> bool" where
  "writer s c b \<longleftrightarrow> wf_view s c \<and> mwritable c \<and> store_items c = W64 b \<and>
     (b = i_base s \<or> b = i_snap s) \<and> index_ok s (mbytes c) b"

definition start_ctx :: "store_view \<Rightarrow> pupa_ctx \<Rightarrow> nat \<Rightarrow> pupa_ctx" where
  "start_ctx s c b = c\<lparr>mbytes := snap_bytes s b (mbytes c), store_items_snapshot := W64 (i_snap s)\<rparr>"

lemma start_ctx_sel [simp]:
  "mbytes (start_ctx s c b) = snap_bytes s b (mbytes c)"
  "store_items_snapshot (start_ctx s c b) = W64 (i_snap s)"
  "store_items (start_ctx s c b) = store_items c"
  by (simp_all add: start_ctx_def)

lemma writerD:
  assumes "writer s c b"
  shows "wf_view s c" "mwritable c" "store_items c = W64 b" "index_ok s (mbytes c) b"
    "view_ok s" "hdr_ok s c" "\<exists>one. b = item_area_at (v_keys s) one"
  using assms wf_hdr_ok [of s c] by (auto simp: writer_def wf_view_def)

lemma write_start:
  assumes w: "writer s c b" and key: "cstr key kb"
  shows "pupa_store_item_make_snapshot c = Some (start_ctx s c b)" "hdr_ok s (start_ctx s c b)"
    "\<And>i. i < v_used s \<Longrightarrow> item_key (mbytes c) (b + 64 * i) = skey kb \<Longrightarrow>
       bsearch (pupa_store_item_compare (start_ctx s c b) (probe key)) (W64 (i_snap s))
         (W64 (v_used s)) 64 = Some (Some (W64 (i_snap s + 64 * i)))"
    "skey kb \<notin> fst ` set (entries (mbytes c) b (v_used s)) \<Longrightarrow>
       bsearch (pupa_store_item_compare (start_ctx s c b) (probe key)) (W64 (i_snap s))
         (W64 (v_used s)) 64 = Some None"
proof -
  note d = writerD [OF w]
  note v = view_okD [OF d(5)]
  note sn = snapshot_entries [OF d(5,4)]
  obtain one where "b = item_area_at (v_keys s) one" using d(7) by blast
  then show "pupa_store_item_make_snapshot c = Some (start_ctx s c b)"
    using make_snapshot_step [OF d(6) v(3) d(3)] by (simp add: start_ctx_def)
  show "hdr_ok s (start_ctx s c b)"
    using d(6) by (simp add: hdr_ok_def start_ctx_def snap_bytes_hdr)
  have fit: "i_snap s + 64 * v_used s \<le> file_len (v_keys s)" using v(3) by (auto simp: areas)
  have sz: "msize (start_ctx s c b) = file_len (v_keys s)" "file_len (v_keys s) < 2 ^ 31"
    using d(6) by (simp_all add: hdr_ok_def start_ctx_def)
  note bs = bsearch_entries [of "v_used s" s "start_ctx s c b" "i_snap s", OF _ sz v(4) fit key]
  show "bsearch (pupa_store_item_compare (start_ctx s c b) (probe key)) (W64 (i_snap s))
      (W64 (v_used s)) 64 = Some (Some (W64 (i_snap s + 64 * i)))"
    if "i < v_used s" "item_key (mbytes c) (b + 64 * i) = skey kb" for i
  proof -
    have "entries (snap_bytes s b (mbytes c)) (i_snap s) (v_used s) ! i =
        entries (mbytes c) b (v_used s) ! i" by (simp only: sn(2))
    then have "item_key (snap_bytes s b (mbytes c)) (i_snap s + 64 * i) = skey kb"
      using that by (simp add: entry_def)
    then show ?thesis using bs(1) index_okD [OF sn(1)] item_ok_key_ok that by simp
  qed
  show "bsearch (pupa_store_item_compare (start_ctx s c b) (probe key)) (W64 (i_snap s))
      (W64 (v_used s)) 64 = Some None"
    if "skey kb \<notin> fst ` set (entries (mbytes c) b (v_used s))"
    using bs(2) index_okD [OF sn(1)] item_ok_key_ok that by (simp add: sn(2))
qed

definition switch_bytes :: "store_view \<Rightarrow> (nat \<Rightarrow> byte) \<Rightarrow> (nat \<Rightarrow> byte)" where
  "switch_bytes s m = wr8 m 8 (sec_no (\<not> v_item_one s))"

abbreviation switched :: "store_view \<Rightarrow> store_view" where
  "switched s \<equiv> s\<lparr>v_item_one := \<not> v_item_one s\<rparr>"

lemma switch_step:
  assumes h: "hdr_ok s c"
  shows "switch_items c = Some (c\<lparr>mbytes := switch_bytes s (mbytes c)\<rparr>)"
    "rd_hdr (switch_bytes s (mbytes c)) = view_hdr (switched s)"
proof -
  note d = hdr_okD [OF h]
  show "switch_items c = Some (c\<lparr>mbytes := switch_bytes s (mbytes c)\<rparr>)"
    using d st_W64(1) [of 8 c]
    by (simp add: switch_items_def view_simps put_sec_id_def section_addrs switch_bytes_def
        W64_numeral [symmetric])
  show "rd_hdr (switch_bytes s (mbytes c)) = view_hdr (switched s)"
    using d by (simp add: switch_bytes_def mem_simps view_hdr_upd)
qed

text \<open>Switching to a well-formed index in the other area gives a well-formed store.\<close>

lemma switch_wf:
  assumes h: "hdr_ok s c" and v: "view_ok s" and ix: "index_ok s (mbytes c) (i_snap s)"
  shows "wf_view (switched s) (c\<lparr>mbytes := switch_bytes s (mbytes c)\<rparr>)"
    "entries (switch_bytes s (mbytes c)) (i_snap s) (v_used s) =
       entries (mbytes c) (i_snap s) (v_used s)"
proof -
  have fr: "switch_bytes s (mbytes c) x = mbytes c x" if "128 \<le> x" for x
    using that by (simp add: switch_bytes_def mem_simps)
  have lo: "128 \<le> i_snap s" "128 \<le> k_base s" "128 \<le> v_base s" by (simp_all add: areas)
  note f = index_ok_frame [OF ix, where m' = "switch_bytes s (mbytes c)" and s' = "switched s"]
  have "index_ok (switched s) (switch_bytes s (mbytes c)) (i_snap s)"
    by (rule f(1)) (use lo in \<open>auto intro!: fr\<close>)
  then show "wf_view (switched s) (c\<lparr>mbytes := switch_bytes s (mbytes c)\<rparr>)"
    using hdr_okD [OF h] v switch_step(2) [OF h] h
    by (simp add: wf_view_def view_ok_def hdr_ok_def)
  show "entries (switch_bytes s (mbytes c)) (i_snap s) (v_used s) =
       entries (mbytes c) (i_snap s) (v_used s)"
    by (rule f(2)) (use lo in \<open>auto intro!: fr\<close>)
qed

subsection \<open>Inserting a key\<close>

definition insert_view :: "store_view \<Rightarrow> byte list \<Rightarrow> byte list \<Rightarrow> store_view" where
  "insert_view s kb vb = (add_view s kb vb)\<lparr>v_used := v_used s + 1\<rparr>"

lemma insert_view_sel [simp]:
  "v_keys (insert_view s kb vb) = v_keys s" "v_item_one (insert_view s kb vb) = v_item_one s"
  "v_key_one (insert_view s kb vb) = v_key_one s" "v_val_one (insert_view s kb vb) = v_val_one s"
  "v_used (insert_view s kb vb) = v_used s + 1"
  "v_key_used (insert_view s kb vb) = v_key_used s + length kb + 1"
  "v_val_used (insert_view s kb vb) = v_val_used s + length vb + 1"
  by (simp_all add: insert_view_def add_view_def)

text \<open>The bytes before and after \<open>pupa_sort\<close>.\<close>

definition appended_bytes ::
  "store_view \<Rightarrow> nat \<Rightarrow> byte list \<Rightarrow> byte list \<Rightarrow> (nat \<Rightarrow> byte) \<Rightarrow> (nat \<Rightarrow> byte)" where
  "appended_bytes s b kb vb m =
     wr64 (add_bytes s (i_snap s + 64 * v_used s) kb vb (snap_bytes s b m)) 24
       (W64 (v_used s + 1))"

lemma appended_hdr:
  assumes w: "writer s c b" and room: "has_room s kb vb"
  shows "rd_hdr (appended_bytes s b kb vb (mbytes c)) = view_hdr (insert_view s kb vb)"
proof -
  note d = writerD [OF w]
  have a: "128 \<le> i_snap s + 64 * v_used s" "i_snap s + 64 * v_used s + 64 \<le> k_base s"
    "i_snap s + 64 * v_used s + 64 \<le> v_base s"
    using room by (auto simp: has_room_def areas)
  have h: "rd_hdr (snap_bytes s b (mbytes c)) = view_hdr s" "file_len (v_keys s) < 2 ^ 31"
    using d(5,6) by (simp_all add: snap_bytes_hdr hdr_ok_def)
  show ?thesis
    using add_bytes_facts(1) [OF h room a]
    by (simp add: appended_bytes_def mem_simps view_hdr_upd insert_view_def)
qed

text \<open>The bytes an insertion leaves alone.\<close>

definition untouched :: "store_view \<Rightarrow> byte list \<Rightarrow> byte list \<Rightarrow> nat \<Rightarrow> bool" where
  "untouched s kb vb x \<longleftrightarrow>
     128 \<le> x \<and> (x < i_snap s \<or> i_snap s + 64 * (v_used s + 1) \<le> x) \<and>
     (x < k_base s + v_key_used s \<or> k_base s + v_key_used s + length kb + 1 \<le> x) \<and>
     (x < v_base s + v_val_used s \<or> v_base s + v_val_used s + length vb + 1 \<le> x)"

lemma appended_untouched:
  assumes w: "writer s c b" and room: "has_room s kb vb" and x: "untouched s kb vb x"
  shows "appended_bytes s b kb vb (mbytes c) x = mbytes c x"
proof -
  note d = writerD [OF w]
  let ?a = "i_snap s + 64 * v_used s"
  have a: "128 \<le> ?a" "?a + 64 \<le> k_base s" "?a + 64 \<le> v_base s"
    using room by (auto simp: has_room_def areas)
  have sh: "rd_hdr (snap_bytes s b (mbytes c)) = view_hdr s" "file_len (v_keys s) < 2 ^ 31"
    using d(5,6) by (simp_all add: snap_bytes_hdr hdr_ok_def)
  have "appended_bytes s b kb vb (mbytes c) x =
      add_bytes s ?a kb vb (snap_bytes s b (mbytes c)) x"
    using x by (simp add: appended_bytes_def untouched_def mem_simps)
  also have "\<dots> = snap_bytes s b (mbytes c) x"
    by (rule add_bytes_facts(2) [OF sh room a]) (use x in \<open>auto simp: untouched_def\<close>)
  also have "\<dots> = mbytes c x"
    using x by (intro snap_bytes_outside) (auto simp: untouched_def)
  finally show ?thesis .
qed

text \<open>Counting the new entry.\<close>

lemma count_step:
  assumes w: "writer s c b" and key: "cstr key kb" and room: "has_room s kb vb"
    and m2: "m2 = add_bytes s (i_snap s + 64 * v_used s) kb vb (snap_bytes s b (mbytes c))"
    and c3: "c3 = (start_ctx s c b)\<lparr>mbytes := appended_bytes s b kb vb (mbytes c)\<rparr>"
  shows "hdr_ok (add_view s kb vb) ((start_ctx s c b)\<lparr>mbytes := m2\<rparr>)"
    "load_hdr ((start_ctx s c b)\<lparr>mbytes := m2\<rparr>) = Some (view_hdr (add_view s kb vb))"
    "sec_used (item_section (view_hdr (add_view s kb vb))) = W64 (v_used s)"
    "put_sec_used ((start_ctx s c b)\<lparr>mbytes := m2\<rparr>) item_section_addr (W64 (v_used s) + 1) = Some c3"
    "hdr_ok (insert_view s kb vb) c3"
proof -
  note d = writerD [OF w]
  let ?c2 = "(start_ctx s c b)\<lparr>mbytes := m2\<rparr>"
  note h1 = write_start(2) [OF w key]
  have a: "128 \<le> i_snap s + 64 * v_used s" "i_snap s + 64 * v_used s + 64 \<le> k_base s"
    "i_snap s + 64 * v_used s + 64 \<le> v_base s"
    using room by (auto simp: has_room_def areas)
  have sh: "rd_hdr (snap_bytes s b (mbytes c)) = view_hdr s" "file_len (v_keys s) < 2 ^ 31"
    using d(5,6) by (simp_all add: snap_bytes_hdr hdr_ok_def)
  show h2: "hdr_ok (add_view s kb vb) ?c2"
    using hdr_ok_put [OF h1 add_bytes_facts(1) [OF sh room a]]
    by (simp add: m2 add_view_def)
  show "hdr_ok (insert_view s kb vb) c3"
    unfolding c3 by (rule hdr_ok_put [OF h1 appended_hdr [OF w room]]) simp
  show "put_sec_used ?c2 item_section_addr (W64 (v_used s) + 1) = Some c3"
    using hdr_okD(2-4) [OF h2] st_W64(3) [of 24 ?c2]
    by (simp add: put_sec_used_def section_addrs W64_numeral [symmetric] W64_add_one
        appended_bytes_def m2 c3)
  show "load_hdr ?c2 = Some (view_hdr (add_view s kb vb))" using hdr_okD(6) [OF h2] .
  show "sec_used (item_section (view_hdr (add_view s kb vb))) = W64 (v_used s)"
    by (simp add: view_simps add_view_def)
qed

text \<open>The state in which \<open>pupa_sort\<close> is called, and what it is called with.\<close>

lemma set_resort_call:
  assumes w: "writer s c b" and key: "cstr key kb" and room: "has_room s kb vb"
    and m2: "m2 = add_bytes s (i_snap s + 64 * v_used s) kb vb (snap_bytes s b (mbytes c))"
    and c3: "c3 = (start_ctx s c b)\<lparr>mbytes := appended_bytes s b kb vb (mbytes c)\<rparr>"
  shows "set_resort env ((start_ctx s c b)\<lparr>mbytes := m2\<rparr>) key 64 =
     do {
       c \<leftarrow> pupa_sort (malloc_ok env) c3 (W64 (i_snap s)) (W64 (v_used s + 1)) 64
             ((probe key)\<lparr>w_key := Off 0\<rparr>);
       Some (c\<lparr>store_items := store_items_snapshot c\<rparr>)
     }"
    "hdr_ok (insert_view s kb vb) c3"
    "\<forall>i < v_used s + 1. item_ok (insert_view s kb vb) (mbytes c3) (i_snap s + 64 * i)"
    "entries (mbytes c3) (i_snap s) (v_used s + 1) =
       entries (mbytes c) b (v_used s) @ [(skey kb, [stored vb])]"
    "i_snap s + 64 * (v_used s + 1) \<le> file_len (v_keys (insert_view s kb vb))"
    "v_key_used (insert_view s kb vb) \<le> 64 * v_keys (insert_view s kb vb)"
proof -
  note d = writerD [OF w]
  let ?s3 = "insert_view s kb vb" and ?m3 = "appended_bytes s b kb vb (mbytes c)"
  let ?c2 = "(start_ctx s c b)\<lparr>mbytes := m2\<rparr>"
  note cs = count_step [OF w key room m2 c3]
  have sh: "rd_hdr (mbytes c) = view_hdr s" using d(6) by (simp add: hdr_ok_def)
  show h3: "hdr_ok ?s3 c3" by (rule cs(5))
  show "set_resort env ?c2 key 64 =
     do {
       c \<leftarrow> pupa_sort (malloc_ok env) c3 (W64 (i_snap s)) (W64 (v_used s + 1)) 64
             ((probe key)\<lparr>w_key := Off 0\<rparr>);
       Some (c\<lparr>store_items := store_items_snapshot c\<rparr>)
     }"
    using cs(2-4) hdr_okD(6) [OF h3] by (simp add: set_resort_def view_simps c3)
  have fr: "mbytes c3 x = m2 x" if "128 \<le> x" for x
    using that by (simp add: appended_bytes_def m2 mem_simps c3)
  note ap = appended_index [OF d(5) sh d(4) room, where ?m3.0 = "mbytes c3" and ?s3.0 = ?s3,
      OF fr [unfolded m2]]
  show "\<forall>i < v_used s + 1. item_ok ?s3 (mbytes c3) (i_snap s + 64 * i)"
    "entries (mbytes c3) (i_snap s) (v_used s + 1) =
       entries (mbytes c) b (v_used s) @ [(skey kb, [stored vb])]"
    using ap by simp_all
  show "v_key_used ?s3 \<le> 64 * v_keys ?s3" using room by (simp add: has_room_def)
  show "i_snap s + 64 * (v_used s + 1) \<le> file_len (v_keys ?s3)"
    using room by (auto simp: has_room_def areas)
qed

lemma set_resort_step:
  assumes w: "writer s c b" and key: "cstr key kb" and room: "has_room s kb vb"
    and new: "skey kb \<notin> fst ` set (entries (mbytes c) b (v_used s))" and env: "malloc_ok env"
    and left: "insert_pos (skey kb) (map fst (entries (mbytes c) b (v_used s))) = 0 \<Longrightarrow>
      left_ok (v_used s)"
    and m2: "m2 = add_bytes s (i_snap s + 64 * v_used s) kb vb (snap_bytes s b (mbytes c))"
    and p: "p = insert_pos (skey kb) (map fst (entries (mbytes c) b (v_used s)))"
  shows "set_resort env ((start_ctx s c b)\<lparr>mbytes := m2\<rparr>) key 64 =
     Some ((start_ctx s c b)\<lparr>
       mbytes := insert_slot (appended_bytes s b kb vb (mbytes c)) (i_snap s) p (v_used s),
       store_items := W64 (i_snap s)\<rparr>)"
proof -
  note rc = set_resort_call [OF w key room m2 refl]
  have "pupa_sort True ((start_ctx s c b)\<lparr>mbytes := appended_bytes s b kb vb (mbytes c)\<rparr>)
      (W64 (i_snap s)) (W64 (v_used s + 1)) 64 ((probe key)\<lparr>w_key := Off 0\<rparr>) =
      Some ((start_ctx s c b)\<lparr>mbytes :=
        insert_slot (appended_bytes s b kb vb (mbytes c)) (i_snap s) p (v_used s)\<rparr>)"
    using sort_appended [OF rc(2,6,5,3,4) index_okD(2) [OF writerD(4) [OF w]] new
        cstr_place(5) [OF key] left] p by simp
  then show ?thesis using rc(1) [of env] env by simp
qed

text \<open>The state behind \<open>pupa_sort\<close>, which the switch publishes.\<close>

lemma sorted_ctx:
  assumes w: "writer s c b" and key: "cstr key kb" and room: "has_room s kb vb"
    and new: "skey kb \<notin> fst ` set (entries (mbytes c) b (v_used s))"
    and c4: "c4 = (start_ctx s c b)\<lparr>mbytes := insert_slot (appended_bytes s b kb vb (mbytes c)) (i_snap s)
        (insert_pos (skey kb) (map fst (entries (mbytes c) b (v_used s)))) (v_used s),
      store_items := W64 (i_snap s)\<rparr>"
  shows "hdr_ok (insert_view s kb vb) c4" "view_ok (insert_view s kb vb)"
    "index_ok (insert_view s kb vb) (mbytes c4) (i_snap s)"
    "entries (mbytes c4) (i_snap s) (v_used s + 1) =
       insert_entry (entries (mbytes c) b (v_used s)) (skey kb) [stored vb]"
    "untouched s kb vb x \<Longrightarrow> mbytes c4 x = mbytes c x"
proof -
  note d = writerD [OF w] and rc = set_resort_call [OF w key room refl refl]
  let ?es = "entries (mbytes c) b (v_used s)"
  let ?p = "insert_pos (skey kb) (map fst ?es)"
  let ?s3 = "insert_view s kb vb" and ?m3 = "appended_bytes s b kb vb (mbytes c)"
  have pu: "?p \<le> v_used s" using insert_pos_le [of "skey kb" "map fst ?es"] by simp
  have lo: "128 \<le> i_snap s" by (simp add: areas)
  have hi: "i_snap s + 64 * (v_used s + 1) \<le> k_base s" "i_snap s + 64 * (v_used s + 1) \<le> v_base s"
    using room by (auto simp: has_room_def areas)
  have es4: "\<forall>i < v_used s + 1. item_ok ?s3 (mbytes c4) (i_snap s + 64 * i)"
    "entries (mbytes c4) (i_snap s) (v_used s + 1) = insert_entry ?es (skey kb) [stored vb]"
    using inserted_index [OF rc(3,4) pu, where m' = "mbytes c4" and s' = ?s3] hi lo
    by (simp_all add: insert_entry_def Let_def c4)
  have "rd_hdr (mbytes c4) = rd_hdr ?m3"
    by (rule rd_hdr_cong) (use lo in \<open>simp add: insert_slot_outside c4\<close>)
  then show "hdr_ok ?s3 c4"
    using appended_hdr [OF w room] write_start(2) [OF w key] by (simp add: hdr_ok_def c4)
  show "view_ok ?s3"
    using view_okD(1) [OF d(5)] room by (simp add: view_ok_def has_room_def file_len_def)
  show "index_ok ?s3 (mbytes c4) (i_snap s)"
    using es4 sorted_insert_entry [OF index_okD(2) [OF d(4)] new, of "[stored vb]"]
    by (simp add: index_ok_def)
  show "entries (mbytes c4) (i_snap s) (v_used s + 1) = insert_entry ?es (skey kb) [stored vb]"
    by (rule es4(2))
  show "mbytes c4 x = mbytes c x" if "untouched s kb vb x"
    using that appended_untouched [OF w room that]
    by (auto simp: untouched_def insert_slot_outside c4)
qed

lemma set_add_step:
  assumes w: "writer s c b" and key: "cstr key kb" and val: "cstr val vb"
    and room: "has_room s kb vb" and env: "malloc_ok env"
    and new: "skey kb \<notin> fst ` set (entries (mbytes c) b (v_used s))"
    and left: "insert_pos (skey kb) (map fst (entries (mbytes c) b (v_used s))) = 0 \<Longrightarrow>
      left_ok (v_used s)"
    and s': "s' = switched (insert_view s kb vb)"
  shows "\<exists>c'. pupa_store_set env c key val = Some (pupa_shm_sync env c', c') \<and>
      shm c' = shm c \<and> ctx_init c' = ctx_init c \<and> (\<forall>x. untouched s kb vb x \<longrightarrow> mbytes c' x = mbytes c x) \<and>
      wf_view s' c' \<and> mwritable c' \<and> store_items c' = W64 (i_base s') \<and>
      entries (mbytes c') (i_base s') (v_used s') =
        insert_entry (entries (mbytes c) b (v_used s)) (skey kb) [stored vb]"
proof -
  let ?es = "entries (mbytes c) b (v_used s)"
  let ?s3 = "insert_view s kb vb" and ?c1 = "start_ctx s c b"
  let ?m4 = "insert_slot (appended_bytes s b kb vb (mbytes c)) (i_snap s)
    (insert_pos (skey kb) (map fst ?es)) (v_used s)"
  let ?c4 = "?c1\<lparr>mbytes := ?m4, store_items := W64 (i_snap s)\<rparr>"
  let ?c5 = "?c4\<lparr>mbytes := switch_bytes ?s3 ?m4\<rparr>"
  note st = write_start [OF w key] and so = sorted_ctx [OF w key room new refl]
  have a: "128 \<le> i_snap s + 64 * v_used s" "i_snap s + 64 * v_used s + 64 \<le> k_base s"
    "i_snap s + 64 * v_used s + 64 \<le> v_base s"
    using room by (auto simp: has_room_def areas)
  have add: "pupa_store_item_add ?c1 (W64 (i_snap s + 64 * v_used s)) key val =
      Some (PUPA_OK, ?c1\<lparr>mbytes := add_bytes s (i_snap s + 64 * v_used s) kb vb
        (snap_bytes s b (mbytes c))\<rparr>)"
    using item_add_step [OF st(2) room a key val] by simp
  have at: "W64 (i_snap s) + W64 (v_used s) * 64 = W64 (i_snap s + 64 * v_used s)"
    by (simp add: addr_simps mult.commute)
  note rs = set_resort_step [OF w key room new env left refl refl]
  have ix4: "index_ok ?s3 (mbytes ?c4) (i_snap ?s3)" using so(3) by simp
  note sw = switch_step [OF so(1)] and swf = switch_wf [OF so(1,2) ix4]
  have "pupa_store_set env c key val = Some (pupa_shm_sync env ?c5, ?c5)"
    using st(1) st(4) [OF new] hdr_okD(6) [OF st(2)] add rs sw(1)
    by (simp add: pupa_store_set_def view_simps at)
  moreover have "entries (switch_bytes ?s3 ?m4) (i_snap s) (v_used s + 1) =
      insert_entry ?es (skey kb) [stored vb]"
    using swf(2) so(4) by simp
  moreover have "switch_bytes ?s3 ?m4 x = mbytes c x" if "untouched s kb vb x" for x
    using that so(5) [OF that] by (simp add: switch_bytes_def untouched_def mem_simps)
  ultimately show ?thesis
    using swf(1) so(1) s' by (intro exI [of _ ?c5]) (simp add: hdr_ok_def start_ctx_def)
qed

subsection \<open>Replacing a value\<close>

definition replaced_bytes ::
  "store_view \<Rightarrow> nat \<Rightarrow> nat \<Rightarrow> byte list \<Rightarrow> (nat \<Rightarrow> byte) \<Rightarrow> (nat \<Rightarrow> byte)" where
  "replaced_bytes s b i vb m =
     (let m1 = snap_bytes s b m; a = i_snap s + 64 * i in
      replace_bytes s a (unat (val_cnt (rd_item m1 a))) vb m1)"

lemma replaced_index:
  assumes v: "view_ok s" and h: "rd_hdr m = view_hdr s" and ix: "index_ok s m b"
    and room: "v_val_used s + length vb + 1 \<le> 256 * v_keys s" and i: "i < v_used s"
  defines "m2 \<equiv> replaced_bytes s b i vb m" and "s2 \<equiv> replace_view s vb"
  shows "rd_hdr m2 = view_hdr s2"
    "index_ok s2 m2 (i_snap s)"
    "entries m2 (i_snap s) (v_used s) = (entries m b (v_used s))
       [i := (item_key m (b + 64 * i), take 3 (stored vb # item_values m (b + 64 * i)))]"
    "\<And>x. 128 \<le> x \<Longrightarrow> x < i_snap s \<or> i_snap s + 64 * v_used s \<le> x \<Longrightarrow>
       x < v_base s + v_val_used s \<or> v_base s + v_val_used s + length vb + 1 \<le> x \<Longrightarrow>
       m2 x = m x"
proof -
  let ?m1 = "snap_bytes s b m" and ?a = "i_snap s + 64 * i" and ?u = "v_used s"
  let ?n = "unat (val_cnt (rd_item ?m1 ?a))"
  note sn = snapshot_entries [OF v ix]
  note vd = view_okD [OF v]
  have a: "128 \<le> ?a" "?a + 64 \<le> k_base s" "?a + 64 \<le> v_base s"
    "i_snap s + 64 * ?u \<le> k_base s" "i_snap s + 64 * ?u \<le> v_base s"
    using i vd(3) by (auto simp: areas)
  have kv: "k_base s + v_key_used s \<le> v_base s" using vd(4) by (auto simp: areas)
  have h1: "rd_hdr ?m1 = view_hdr s" "file_len (v_keys s) < 2 ^ 31"
    using h v by (simp_all add: snap_bytes_hdr view_ok_def)
  have n1: "rd32 ?m1 (?a + 12) = W32 ?n" by (simp add: rd_item_def W32_def)
  note f = replace_bytes_facts [OF h1 a(1-3) room vd(4) index_okD(1) [OF sn(1) i] refl]
  have m2: "m2 = replace_bytes s ?a ?n vb ?m1"
    by (simp add: m2_def replaced_bytes_def Let_def)
  note f = f [folded m2]
  show "rd_hdr m2 = view_hdr s2" using f(1) by (simp add: s2_def)
  have s2: "k_base s2 = k_base s" "v_base s2 = v_base s" "v_used s2 = v_used s"
    "v_key_used s \<le> v_key_used s2" "v_val_used s \<le> v_val_used s2"
    by (simp_all add: s2_def replace_view_def)
  have tr: "item_ok s2 m2 (i_snap s + 64 * j) \<and>
      entry m2 (i_snap s + 64 * j) = entry ?m1 (i_snap s + 64 * j)" if j: "j < ?u" "j \<noteq> i" for j
  proof -
    have dis: "64 * j + 64 \<le> 64 * i \<or> 64 * i + 64 \<le> 64 * j" using j(2) by linarith
    have sl: "m2 (i_snap s + 64 * j + k) = ?m1 (i_snap s + 64 * j + k)" if "k < 64" for k
    proof (rule f(2))
      show "i_snap s + 64 * j + k < ?a + 12 \<or> ?a + 64 \<le> i_snap s + 64 * j + k"
        using dis that by linarith
      have "i_snap s + 64 * j + 64 \<le> v_base s" using j(1) a(5) by simp
      then show "i_snap s + 64 * j + k < v_base s + v_val_used s \<or>
          v_base s + v_val_used s + length vb + 1 \<le> i_snap s + 64 * j + k" using that by simp
    qed (simp add: areas)
    have kr: "m2 x = ?m1 x" if "k_base s \<le> x" "x < k_base s + v_key_used s" for x
      using that a kv by (intro f(2)) auto
    have vr: "m2 x = ?m1 x" if "v_base s \<le> x" "x < v_base s + v_val_used s" for x
      using that a kv by (intro f(2)) auto
    show ?thesis
      using entry_transfer [OF index_okD(1) [OF sn(1) j(1)] sl kr vr s2(1,2,4,5)] by blast
  qed
  have ej: "entry ?m1 (i_snap s + 64 * j) = entry m (b + 64 * j)" if "j < ?u" for j
    using arg_cong [OF sn(2), of "\<lambda>l. l ! j"] that by simp
  show es: "entries m2 (i_snap s) ?u = (entries m b ?u)
       [i := (item_key m (b + 64 * i), take 3 (stored vb # item_values m (b + 64 * i)))]"
  proof (rule nth_equalityI)
    fix j
    assume "j < length (entries m2 (i_snap s) ?u)"
    then have j: "j < ?u" by simp
    show "entries m2 (i_snap s) ?u ! j = (entries m b ?u)
       [i := (item_key m (b + 64 * i), take 3 (stored vb # item_values m (b + 64 * i)))] ! j"
      using j f(3) ej [OF i] tr [OF j] ej [OF j] by (cases "j = i") (simp_all add: entry_def)
  qed simp
  have "map fst (entries m2 (i_snap s) ?u) = map fst (entries m b ?u)"
    using i by (intro nth_equalityI) (auto simp: es nth_list_update entry_def)
  moreover have "item_ok s2 m2 (i_snap s + 64 * j)" if "j < ?u" for j
    using tr [OF that] f(4) by (cases "j = i") (simp_all add: s2_def)
  ultimately show "index_ok s2 m2 (i_snap s)"
    using index_okD(2) [OF ix] by (simp add: index_ok_def s2(3))
  show "m2 x = m x" if "128 \<le> x" "x < i_snap s \<or> i_snap s + 64 * v_used s \<le> x"
    "x < v_base s + v_val_used s \<or> v_base s + v_val_used s + length vb + 1 \<le> x" for x
  proof -
    have "i_snap s + 64 * i + 64 \<le> i_snap s + 64 * v_used s" using i by simp
    then have "x < ?a + 12 \<or> ?a + 64 \<le> x" using that(2) by auto
    then show ?thesis using f(2) [of x] that by (simp add: snap_bytes_outside)
  qed
qed

text \<open>The index the entries were copied from is left as it was.\<close>

lemma replaced_old:
  assumes v: "view_ok s" and h: "rd_hdr m = view_hdr s" and ix: "index_ok s m (i_base s)"
    and room: "v_val_used s + length vb + 1 \<le> 256 * v_keys s" and i: "i < v_used s"
    and s': "s' = switched (replace_view s vb)" and b: "b = i_base s"
  shows "index_ok s' (switch_bytes (replace_view s vb) (replaced_bytes s b i vb m)) b \<and>
    entries (switch_bytes (replace_view s vb) (replaced_bytes s b i vb m)) b (v_used s) =
      entries m b (v_used s)"
proof -
  let ?m5 = "switch_bytes (replace_view s vb) (replaced_bytes s b i vb m)"
  note r = replaced_index(4) [OF v h ix room i]
  have fr: "?m5 x = m x" if "128 \<le> x" "x < i_snap s \<or> i_snap s + 64 * v_used s \<le> x"
    "x < v_base s + v_val_used s \<or> v_base s + v_val_used s + length vb + 1 \<le> x" for x
    using r [of x] that by (simp add: switch_bytes_def mem_simps b)
  have dis: "i_base s + 64 * v_used s \<le> i_snap s \<or> i_snap s + 64 * v_used s \<le> i_base s"
    "i_base s + 64 * v_used s \<le> v_base s" "i_snap s + 64 * v_used s \<le> v_base s"
    "i_snap s + 64 * v_used s \<le> k_base s" "k_base s + v_key_used s \<le> v_base s"
    "128 \<le> i_base s" "128 \<le> k_base s" "128 \<le> v_base s"
    using view_okD(3,4) [OF v] by (auto simp: areas)
  have sel: "k_base s' = k_base s" "v_base s' = v_base s" "v_used s' = v_used s"
    "v_key_used s \<le> v_key_used s'" "v_val_used s \<le> v_val_used s'"
    by (simp_all add: s' replace_view_def)
  note f = index_ok_frame [OF ix, where m' = ?m5 and s' = s', OF fr fr fr sel]
  have "index_ok s' ?m5 (i_base s)" by (rule f(1)) (use dis in auto)
  moreover have "entries ?m5 (i_base s) (v_used s) = entries m (i_base s) (v_used s)"
    by (rule f(2)) (use dis in auto)
  ultimately show ?thesis by (simp add: b)
qed

text \<open>
  \<open>ctx->store_items\<close> stays at \<open>b\<close>. When that was the current area, it is the other one
  afterwards, with the entries from before the replacement.
\<close>

lemma set_replace_step:
  assumes w: "writer s c b" and key: "cstr key kb" and val: "cstr val vb"
    and room: "v_val_used s + length vb + 1 \<le> 256 * v_keys s"
    and i: "i < v_used s" "item_key (mbytes c) (b + 64 * i) = skey kb"
    and s': "s' = switched (replace_view s vb)"
  shows "\<exists>c'. pupa_store_set env c key val = Some (pupa_shm_sync env c', c') \<and>
      shm c' = shm c \<and> ctx_init c' = ctx_init c \<and> writer s' c' b \<and>
      entries (mbytes c') (i_base s') (v_used s') = (entries (mbytes c) b (v_used s))
        [i := (skey kb, take 3 (stored vb # item_values (mbytes c) (b + 64 * i)))] \<and>
      (b = i_base s \<longrightarrow> entries (mbytes c') b (v_used s') = entries (mbytes c) b (v_used s))"
proof -
  note d = writerD [OF w]
  note v = view_okD [OF d(5)]
  let ?s2 = "replace_view s vb" and ?m2 = "replaced_bytes s b i vb (mbytes c)"
  let ?c1 = "start_ctx s c b" and ?a = "i_snap s + 64 * i"
  let ?c2 = "?c1\<lparr>mbytes := ?m2\<rparr>"
  let ?c3 = "?c2\<lparr>mbytes := switch_bytes ?s2 ?m2\<rparr>"
  note st = write_start [OF w key]
  have sel: "v_keys ?s2 = v_keys s" "v_item_one ?s2 = v_item_one s" "v_key_one ?s2 = v_key_one s"
    "v_val_one ?s2 = v_val_one s" "v_used ?s2 = v_used s" "v_key_used ?s2 = v_key_used s"
    "v_val_used ?s2 = v_val_used s + length vb + 1"
    by (simp_all add: replace_view_def)
  have sh: "rd_hdr (mbytes c) = view_hdr s" using d(6) by (simp add: hdr_ok_def)
  note r = replaced_index [OF d(5) sh d(4) room i(1)]
  have a: "128 \<le> ?a" "?a + 64 \<le> v_base s" using i(1) v(3) by (auto simp: areas)
  have ok: "item_ok s (snap_bytes s b (mbytes c)) ?a"
    using index_okD(1) [OF snapshot_entries(1) [OF d(5,4)]] i(1) by simp
  have n: "1 \<le> unat (val_cnt (rd_item (snap_bytes s b (mbytes c)) ?a))"
    "unat (val_cnt (rd_item (snap_bytes s b (mbytes c)) ?a)) \<le> 3"
    using ok by (simp_all add: item_ok_def Let_def)
  have n1: "rd32 (mbytes ?c1) (?a + 12) = W32 (unat (val_cnt (rd_item (snap_bytes s b (mbytes c)) ?a)))"
    by (simp add: rd_item_def W32_def)
  have rep: "pupa_store_item_replace ?c1 (W64 ?a) val = Some (PUPA_OK, ?c2)"
    using item_replace_step [OF st(2) a n1 n room val] by (simp add: replaced_bytes_def Let_def)
  have h2: "hdr_ok ?s2 ?c2" by (rule hdr_ok_put [OF st(2) r(1)]) (simp add: sel)
  have v2: "view_ok ?s2" using d(5) room by (simp add: view_ok_def sel)
  have ix2: "index_ok ?s2 (mbytes ?c2) (i_snap ?s2)" using r(2) by (simp add: sel)
  note sw = switch_step [OF h2] and swf = switch_wf [OF h2 v2 ix2]
  have set: "pupa_store_set env c key val = Some (pupa_shm_sync env ?c3, ?c3)"
    using st(1) st(3) [OF i] hdr_okD(6) [OF st(2)] rep sw(1)
    by (simp add: pupa_store_set_def view_simps)
  have es: "entries (mbytes ?c3) (i_snap s) (v_used s) = (entries (mbytes c) b (v_used s))
        [i := (skey kb, take 3 (stored vb # item_values (mbytes c) (b + 64 * i)))]"
    using swf(2) r(3) i(2) by (simp add: sel)
  have old: "index_ok s' (mbytes ?c3) b \<and>
      entries (mbytes ?c3) b (v_used s) = entries (mbytes c) b (v_used s)" if b: "b = i_base s"
    using replaced_old [OF d(5) sh _ room i(1) s' b] b d(4) by simp
  have "writer s' ?c3 b"
    using swf(1) old w d(2,3) wf_view_index [OF swf(1)]
    by (auto simp: writer_def s' sel start_ctx_def)
  moreover have "shm ?c3 = shm c" "ctx_init ?c3 = ctx_init c" by (simp_all add: start_ctx_def)
  ultimately show ?thesis
    using set es old s' by (intro exI [of _ ?c3]) (auto simp: sel)
qed

subsection \<open>Insertions that do not return, or do not sort\<close>

text \<open>Up to the call of \<open>pupa_sort\<close>, an insertion is the same whatever happens there.\<close>

lemma set_new_unfold:
  assumes w: "writer s c b" and key: "cstr key kb" and val: "cstr val vb"
    and room: "has_room s kb vb"
    and new: "skey kb \<notin> fst ` set (entries (mbytes c) b (v_used s))"
    and c3: "c3 = (start_ctx s c b)\<lparr>mbytes := appended_bytes s b kb vb (mbytes c)\<rparr>"
  shows "pupa_store_set env c key val =
     do {
       c \<leftarrow> pupa_sort (malloc_ok env) c3 (W64 (i_snap s)) (W64 (v_used s + 1)) 64
             ((probe key)\<lparr>w_key := Off 0\<rparr>);
       c \<leftarrow> switch_items (c\<lparr>store_items := store_items_snapshot c\<rparr>);
       Some (pupa_shm_sync env c, c)
     }"
proof -
  note st = write_start [OF w key]
  have a: "128 \<le> i_snap s + 64 * v_used s" "i_snap s + 64 * v_used s + 64 \<le> k_base s"
    "i_snap s + 64 * v_used s + 64 \<le> v_base s"
    using room by (auto simp: has_room_def areas)
  have add: "pupa_store_item_add (start_ctx s c b) (W64 (i_snap s + 64 * v_used s)) key val =
      Some (PUPA_OK, (start_ctx s c b)\<lparr>mbytes := add_bytes s (i_snap s + 64 * v_used s) kb vb
        (snap_bytes s b (mbytes c))\<rparr>)"
    using item_add_step [OF st(2) room a key val] by simp
  have at: "W64 (i_snap s) + W64 (v_used s) * 64 = W64 (i_snap s + 64 * v_used s)"
    by (simp add: addr_simps mult.commute)
  show ?thesis
    using st(1) st(4) [OF new] hdr_okD(6) [OF st(2)] add set_resort_call(1) [OF w key room refl c3]
    by (simp add: pupa_store_set_def view_simps at)
qed

lemma key_sec1_word:
  assumes "rd_hdr m = view_hdr s" "224 + 32 * v_keys s < 2 ^ 31"
  shows "rd32 m 72 = W32 (224 + 32 * v_keys s)"
proof -
  have "sec1_offset (key_section (rd_hdr m)) = rd64 m 72"
    by (simp add: rd_hdr_def rd_section_def)
  then have "rd64 m 72 = W64 (224 + 32 * v_keys s)"
    using assms(1) by (simp add: view_hdr_def key_area_at_def)
  then show ?thesis using assms(2) by (simp add: rd32_rd64 ucast_64_32)
qed

lemma set_stuck:
  assumes w: "writer s c b" and key: "cstr key kb" and val: "cstr val vb"
    and room: "has_room s kb vb" and env: "malloc_ok env"
    and new: "skey kb \<notin> fst ` set (entries (mbytes c) b (v_used s))"
    and left: "insert_pos (skey kb) (map fst (entries (mbytes c) b (v_used s))) = 0"
      "\<not> left_ok (v_used s)"
    and first: "\<not> v_item_one s" and ne: "length kb + 1 \<noteq> 224 + 32 * v_keys s"
  shows "pupa_store_set env c key val = None"
proof -
  let ?c3 = "(start_ctx s c b)\<lparr>mbytes := appended_bytes s b kb vb (mbytes c)\<rparr>"
  note rc = set_resort_call [OF w key room refl refl]
  have base: "i_snap s = 128" using first by (simp add: item_area_at_def)
  have lim: "224 + 32 * v_keys s < 2 ^ 31" using view_okD(1) [OF writerD(5) [OF w]] by simp
  have kl: "length kb + 1 < 2 ^ 31" by (rule cstr_place(5) [OF key])
  have "rd32 (mbytes ?c3) 72 = W32 (224 + 32 * v_keys s)"
    using key_sec1_word [OF hdr_okD(5) [OF rc(2)]] lim by simp
  moreover have "W32 (224 + 32 * v_keys s) \<noteq> W32 (length kb + 1)"
  proof
    assume "W32 (224 + 32 * v_keys s) = W32 (length kb + 1)"
    then have "unat (W32 (224 + 32 * v_keys s)) = unat (W32 (length kb + 1))" by (simp only:)
    then show False
      using ne kl lim unat_W32 [of "length kb + 1"] unat_W32 [of "224 + 32 * v_keys s"] by simp
  qed
  ultimately have "rd32 (mbytes ?c3) (i_snap s - 56) \<noteq> W32 (length kb + 1)"
    by (simp add: base)
  then have "pupa_sort True ?c3 (W64 (i_snap s)) (W64 (v_used s + 1)) 64
      ((probe key)\<lparr>w_key := Off 0\<rparr>) = None"
    using sort_stuck [OF rc(2,6,5) _ rc(3,4) index_okD(2) [OF writerD(4) [OF w]] new kl left] base
    by simp
  then show ?thesis
    using set_new_unfold [OF w key val room new refl, of env] env by simp
qed

text \<open>When \<open>malloc\<close> fails, \<open>pupa_sort\<close> returns at once and the new entry stays last.\<close>

lemma set_unsorted:
  assumes w: "writer s c b" and key: "cstr key kb" and val: "cstr val vb"
    and room: "has_room s kb vb" and env: "\<not> malloc_ok env"
    and new: "skey kb \<notin> fst ` set (entries (mbytes c) b (v_used s))"
    and s': "s' = switched (insert_view s kb vb)"
  shows "\<exists>c'. pupa_store_set env c key val = Some (pupa_shm_sync env c', c') \<and>
      rd_hdr (mbytes c') = view_hdr s' \<and>
      entries (mbytes c') (i_base s') (v_used s') =
        entries (mbytes c) b (v_used s) @ [(skey kb, [stored vb])]"
proof -
  let ?s3 = "insert_view s kb vb"
  let ?c3 = "(start_ctx s c b)\<lparr>mbytes := appended_bytes s b kb vb (mbytes c)\<rparr>"
  let ?c4 = "?c3\<lparr>store_items := W64 (i_snap s)\<rparr>"
  let ?c5 = "?c4\<lparr>mbytes := switch_bytes ?s3 (mbytes ?c4)\<rparr>"
  note rc = set_resort_call [OF w key room refl refl]
  have h4: "hdr_ok ?s3 ?c4" using rc(2) by (simp add: hdr_ok_def)
  note sw = switch_step [OF h4]
  have "pupa_sort False c n u z v = Some c" for c n u z v by (simp add: pupa_sort_def Let_def)
  then have set: "pupa_store_set env c key val = Some (pupa_shm_sync env ?c5, ?c5)"
    using set_new_unfold [OF w key val room new refl, of env] env sw(1) by simp
  have fr: "switch_bytes ?s3 (mbytes ?c4) x = mbytes ?c3 x" if "128 \<le> x" for x
    using that by (simp add: switch_bytes_def mem_simps)
  have lo: "128 \<le> i_snap s" "128 \<le> k_base s" "128 \<le> v_base s" by (simp_all add: areas)
  have "entries (switch_bytes ?s3 (mbytes ?c4)) (i_snap s) (v_used s + 1) =
      map (\<lambda>i. entry (mbytes ?c3) (i_snap s + 64 * i)) [0..<v_used s + 1]"
    by (rule entries_transfer(2) [where s = ?s3 and s' = ?s3, OF _ fr fr fr])
      (use rc(3) lo in auto)
  then have "entries (mbytes ?c5) (i_snap s) (v_used s + 1) =
      entries (mbytes c) b (v_used s) @ [(skey kb, [stored vb])]"
    using rc(4) by (simp add: entries_def)
  then show ?thesis
    using set sw(2) s' by (intro exI [of _ ?c5]) simp
qed

end
