(* ===== verification/Writer.thy ===== *)
theory Writer
  imports SetCorrect
begin

text \<open>
  What a sequence of writes does to the abstract map. A write starts from the index
  \<open>ctx->store_items\<close> leads to, which a lookup, the initialisation and an insertion set to
  the current one, and a replacement and a deletion leave alone: \<open>work_map\<close> is what the next
  write starts from, \<open>store_map\<close> what the next lookup finds.
\<close>

definition work_entries :: "pupa_ctx \<Rightarrow> (store_key \<times> byte list list) list" where
  "work_entries c = entries (mbytes c) (unat (store_items c)) (v_used (view_of c))"

definition work_map :: "pupa_ctx \<Rightarrow> store_key \<Rightarrow> byte list list option" where
  "work_map c = map_of (work_entries c)"

definition writer_ok :: "pupa_ctx \<Rightarrow> bool" where
  "writer_ok c \<longleftrightarrow> writer (view_of c) c (unat (store_items c))"

definition val_room :: "store_view \<Rightarrow> byte list \<Rightarrow> bool" where
  "val_room s vb \<longleftrightarrow> v_val_used s + length vb + 1 \<le> 256 * v_keys s"

text \<open>The condition on the number of entries under which a key smaller than all can be added.\<close>

definition search_returns :: "pupa_ctx \<Rightarrow> byte list \<Rightarrow> bool" where
  "search_returns c kb \<longleftrightarrow>
     (insert_pos (skey kb) (map fst (work_entries c)) = 0 \<longrightarrow> left_ok (v_used (view_of c)))"

lemma writer_addr:
  assumes "writer s c b"
  shows "view_of c = s" "unat (store_items c) = b"
proof -
  note d = writerD [OF assms]
  show "view_of c = s" by (rule wf_view_view [OF d(1)])
  obtain one where "b = item_area_at (v_keys s) one" using d(7) by blast
  then have "b < 2 ^ 64" using view_okD(1) [OF d(5)] by (auto simp: areas)
  then show "unat (store_items c) = b" using d(3) by (simp add: unat_W64)
qed

lemma writer_writer_ok: "writer s c b \<Longrightarrow> writer_ok c"
  by (simp add: writer_ok_def writer_addr)

lemma writer_work: "writer s c b \<Longrightarrow> work_entries c = entries (mbytes c) b (v_used s)"
  by (simp add: work_entries_def writer_addr)

lemma writer_ok_wf: "writer_ok c \<Longrightarrow> store_wf c"
  by (simp add: writer_ok_def writer_def store_wf_def)

lemma writer_synced: "writer s c b \<Longrightarrow> synced c \<longleftrightarrow> b = i_base s"
proof -
  assume w: "writer s c b"
  have "i_base s < 2 ^ 64" using view_okD(1) [OF writerD(5) [OF w]] by (auto simp: areas)
  moreover have "b < 2 ^ 64"
    using view_okD(1) [OF writerD(5) [OF w]] writerD(7) [OF w] by (auto simp: areas)
  ultimately show ?thesis
    using writerD(3) [OF w] by (simp add: synced_def writer_addr [OF w] W64_eq_iff)
qed

lemma synced_writer:
  assumes "wf_view s c" "mwritable c" "store_items c = W64 (i_base s)"
  shows "writer s c (i_base s)"
  using assms wf_view_index [OF assms(1)] by (simp add: writer_def)

text \<open>A lookup makes the current index the one the next write starts from.\<close>

lemma refresh_writer:
  assumes "store_wf c" "mwritable c"
  shows "writer_ok (refresh c)" "synced (refresh c)" "store_map (refresh c) = store_map c"
    "work_map (refresh c) = store_map c"
proof -
  have wv: "wf_view (view_of c) c" using assms(1) by (simp add: store_wf_def)
  then have w: "writer (view_of c) (refresh c) (i_base (view_of c))"
    using assms(2) by (intro synced_writer) (simp_all add: refresh_def)
  then show "writer_ok (refresh c)" by (rule writer_writer_ok)
  show "synced (refresh c)" "store_map (refresh c) = store_map c" by (simp_all add: refresh_wf)
  show "work_map (refresh c) = store_map c"
    by (simp add: work_map_def writer_work [OF w] store_map_def store_entries_view [OF wv])
      (simp add: refresh_def)
qed

lemma synced_work_map:
  assumes "store_wf c" "synced c"
  shows "work_map c = store_map c"
proof -
  have "wf_view (view_of c) c" using assms(1) by (simp add: store_wf_def)
  then have "i_base (view_of c) < 2 ^ 64" using wf_viewD(3) by (fastforce simp: areas)
  then show ?thesis
    using assms(2)
    by (simp add: work_map_def work_entries_def store_map_def store_entries_def synced_def unat_W64)
qed

lemma synced_work_entries:
  assumes "writer_ok c" "synced c"
  shows "work_entries c = store_entries c"
proof -
  have w: "writer (view_of c) c (unat (store_items c))" using assms(1) by (simp add: writer_ok_def)
  then show ?thesis
    using writer_synced [OF w] assms(2) by (simp add: work_entries_def store_entries_def)
qed

subsection \<open>A new key\<close>

lemma set_new_key:
  assumes w: "writer_ok c" and key: "cstr key kb" and val: "cstr val vb"
    and none: "work_map c (skey kb) = None" and room: "has_room (view_of c) kb vb"
    and env: "malloc_ok env" and ret: "search_returns c kb"
  shows "\<exists>c'. pupa_store_set env c key val = Some (pupa_shm_sync env c', c') \<and>
     shm c' = shm c \<and> ctx_init c' = ctx_init c \<and> (\<forall>x. untouched (view_of c) kb vb x \<longrightarrow> mbytes c' x = mbytes c x) \<and>
     writer_ok c' \<and> synced c' \<and> store_map c' = (work_map c)(skey kb \<mapsto> [stored vb]) \<and>
     work_entries c' = insert_entry (work_entries c) (skey kb) [stored vb] \<and>
     view_of c' = switched (insert_view (view_of c) kb vb)"
proof -
  define s b where "s = view_of c" and "b = unat (store_items c)"
  have w': "writer s c b" using w by (simp add: writer_ok_def s_def b_def)
  note we = writer_work [OF w']
  have new: "skey kb \<notin> fst ` set (entries (mbytes c) b (v_used s))"
    using none by (simp add: work_map_def we map_of_eq_None_iff)
  have left: "insert_pos (skey kb) (map fst (entries (mbytes c) b (v_used s))) = 0 \<Longrightarrow>
      left_ok (v_used s)"
    using ret by (simp add: search_returns_def we s_def)
  have room': "has_room s kb vb" using room by (simp add: s_def)
  let ?s' = "switched (insert_view s kb vb)"
  obtain c' where c': "pupa_store_set env c key val = Some (pupa_shm_sync env c', c')"
    "shm c' = shm c \<and> ctx_init c' = ctx_init c \<and> (\<forall>x. untouched s kb vb x \<longrightarrow> mbytes c' x = mbytes c x)" "wf_view ?s' c'" "mwritable c'" "store_items c' = W64 (i_base ?s')"
    "entries (mbytes c') (i_base ?s') (v_used ?s') =
        insert_entry (entries (mbytes c) b (v_used s)) (skey kb) [stored vb]"
    using set_add_step [OF w' key val room' env new left refl] by blast
  note wr = synced_writer [OF c'(3-5)]
  have "store_map c' = map_of (insert_entry (work_entries c) (skey kb) [stored vb])"
    using c'(6) by (simp only: store_map_def store_entries_view [OF c'(3)] we)
  then have "store_map c' = (work_map c)(skey kb \<mapsto> [stored vb])"
    using map_of_insert_entry [of "skey kb" "work_entries c"] new by (simp add: we work_map_def)
  moreover have "work_entries c' = insert_entry (work_entries c) (skey kb) [stored vb]"
    using c'(6) by (simp only: writer_work [OF wr] we)
  ultimately show ?thesis
    using c'(1,2) writer_writer_ok [OF wr] writer_synced [OF wr] wf_view_view [OF c'(3)]
    by (intro exI [of _ c']) (simp add: s_def)
qed

subsection \<open>A present key\<close>

lemma map_of_update:
  "distinct (map fst es) \<Longrightarrow> i < length es \<Longrightarrow> fst (es ! i) = k \<Longrightarrow>
     map_of (es [i := (k, v)]) = (map_of es)(k \<mapsto> v)"
proof (induction es arbitrary: i)
  case Nil
  then show ?case by simp
next
  case (Cons e es)
  show ?case
  proof (cases i)
    case 0
    then show ?thesis using Cons.prems by (cases e) auto
  next
    case (Suc j)
    then have "fst e \<noteq> k" using Cons.prems nth_mem [of j es] by force
    then show ?thesis using Cons Suc by (cases e) (auto simp: fun_eq_iff)
  qed
qed

lemma set_present_key:
  assumes w: "writer_ok c" and key: "cstr key kb" and val: "cstr val vb"
    and some: "work_map c (skey kb) = Some vs" and room: "val_room (view_of c) vb"
  shows "\<exists>c'. pupa_store_set env c key val = Some (pupa_shm_sync env c', c') \<and>
     shm c' = shm c \<and> ctx_init c' = ctx_init c \<and> writer_ok c' \<and> store_map c' = (work_map c)(skey kb \<mapsto> take 3 (stored vb # vs)) \<and>
     work_map c' = (if synced c then work_map c else store_map c') \<and>
     (synced c \<longrightarrow> work_entries c' = work_entries c) \<and>
     (\<exists>i < length (work_entries c). fst (work_entries c ! i) = skey kb \<and>
        store_entries c' = (work_entries c) [i := (skey kb, take 3 (stored vb # vs))]) \<and>
     (synced c' \<longleftrightarrow> \<not> synced c) \<and> view_of c' = switched (replace_view (view_of c) vb)"
proof -
  define s b where "s = view_of c" and "b = unat (store_items c)"
  have w': "writer s c b" using w by (simp add: writer_ok_def s_def b_def)
  note we = writer_work [OF w'] and d = writerD [OF w']
  have room': "v_val_used s + length vb + 1 \<le> 256 * v_keys s"
    using room by (simp add: s_def val_room_def)
  have srt: "sorted_wrt (<) (map fst (work_entries c))" using index_okD(2) [OF d(4)] by (simp add: we)
  have "(skey kb, vs) \<in> set (work_entries c)" using some by (simp add: work_map_def map_of_SomeD)
  then obtain i where i: "i < v_used s" "item_key (mbytes c) (b + 64 * i) = skey kb"
    "item_values (mbytes c) (b + 64 * i) = vs"
    by (auto simp: in_set_conv_nth we entry_def)
  let ?s' = "switched (replace_view s vb)"
  obtain c' where c': "pupa_store_set env c key val = Some (pupa_shm_sync env c', c')"
    "shm c' = shm c \<and> ctx_init c' = ctx_init c" "writer ?s' c' b"
    "entries (mbytes c') (i_base ?s') (v_used ?s') =
      (entries (mbytes c) b (v_used s)) [i := (skey kb, take 3 (stored vb # vs))]"
    "b = i_base s \<longrightarrow> entries (mbytes c') b (v_used ?s') = entries (mbytes c) b (v_used s)"
    using set_replace_step [OF w' key val room' i(1,2) refl, of env] i(3) by blast
  note d' = writerD [OF c'(3)]
  have "store_map c' = map_of ((work_entries c) [i := (skey kb, take 3 (stored vb # vs))])"
    using c'(4) by (simp only: store_map_def store_entries_view [OF d'(1)] we)
  moreover have "distinct (map fst (work_entries c))" using srt by (simp add: strict_sorted_iff)
  ultimately have sm: "store_map c' = (work_map c)(skey kb \<mapsto> take 3 (stored vb # vs))"
    using map_of_update [of "work_entries c" i "skey kb"] i by (simp add: we work_map_def entry_def)
  have ne: "i_base s \<noteq> i_snap s" by (simp add: areas)
  have sel: "v_keys ?s' = v_keys s" by (simp add: replace_view_def)
  have base': "i_base ?s' = i_snap s" by (simp add: replace_view_def)
  have bb: "b = i_base s \<or> b = i_snap s" using w' by (simp add: writer_def)
  note sy = writer_synced [OF w'] writer_synced [OF c'(3), unfolded base']
  have wm: "work_map c' = (if synced c then work_map c else store_map c')"
  proof (cases "synced c")
    case True
    then show ?thesis using c'(5) sy(1) by (simp add: work_map_def writer_work [OF c'(3)] we)
  next
    case False
    then have "synced c'" using sy bb by auto
    then show ?thesis using False synced_work_map [OF writer_ok_wf [OF writer_writer_ok [OF c'(3)]]]
      by simp
  qed
  have "synced c' \<longleftrightarrow> \<not> synced c" using sy bb ne by auto
  moreover have "synced c \<longrightarrow> work_entries c' = work_entries c"
    using c'(5) sy(1) by (simp add: writer_work [OF c'(3)] we)
  moreover have "\<exists>i < length (work_entries c). fst (work_entries c ! i) = skey kb \<and>
      store_entries c' = (work_entries c) [i := (skey kb, take 3 (stored vb # vs))]"
  proof (intro exI [of _ i] conjI)
    show "store_entries c' = (work_entries c) [i := (skey kb, take 3 (stored vb # vs))]"
      using c'(4) by (simp only: store_entries_view [OF d'(1)] we)
    show "i < length (work_entries c)" "fst (work_entries c ! i) = skey kb"
      using i by (simp_all add: we entry_def)
  qed
  ultimately show ?thesis
    using c'(1,2) writer_writer_ok [OF c'(3)] sm wm writer_addr(1) [OF c'(3)]
    by (intro exI [of _ c']) (simp add: s_def)
qed

subsection \<open>Both cases\<close>

definition versions :: "byte list list option \<Rightarrow> byte list list" where
  "versions h = (case h of None \<Rightarrow> [] | Some vs \<Rightarrow> vs)"

lemma versions_simps [simp]: "versions None = []" "versions (Some vs) = vs"
  by (simp_all add: versions_def)

text \<open>The room a write needs, and for a new key the condition on the search.\<close>

definition set_ready :: "pupa_ctx \<Rightarrow> byte list \<Rightarrow> byte list \<Rightarrow> bool" where
  "set_ready c kb vb \<longleftrightarrow>
     (if work_map c (skey kb) = None then has_room (view_of c) kb vb \<and> search_returns c kb
      else val_room (view_of c) vb)"

lemma set_any_key:
  assumes w: "writer_ok c" and key: "cstr key kb" and val: "cstr val vb"
    and r: "set_ready c kb vb" and env: "malloc_ok env"
  shows "\<exists>c'. pupa_store_set env c key val = Some (pupa_shm_sync env c', c') \<and>
     shm c' = shm c \<and> ctx_init c' = ctx_init c \<and> writer_ok c' \<and>
     store_map c' = (work_map c)(skey kb \<mapsto> take 3 (stored vb # versions (work_map c (skey kb)))) \<and>
     view_of c' =
       switched (if work_map c (skey kb) = None then insert_view (view_of c) kb vb
                 else replace_view (view_of c) vb)"
proof (cases "work_map c (skey kb)")
  case None
  then show ?thesis using set_new_key [OF w key val None _ env] r by (auto simp: set_ready_def)
next
  case (Some vs)
  then show ?thesis using set_present_key [OF w key val Some] r by (fastforce simp: set_ready_def)
qed

end
