(* ===== verification/Stats.thy ===== *)
theory Stats
  imports SetSteps
begin

text \<open>
  \<open>pupa_store_stats\<close>: the text it prints into its buffer of 1024 bytes, that it fits and
  which numbers it reports, and the walk of \<open>pupa_store_dump\<close> over the index, which it
  calls (the walk prints with \<open>PUPA_DEBUG\<close> only, but reads \<open>val_cnt\<close> of what it takes for
  the entries in every build).
\<close>

subsection \<open>Decimal numbers\<close>

fun show_nat :: "nat \<Rightarrow> string" where
  "show_nat n =
     (if n < 10 then [char_of (48 + n)] else show_nat (n div 10) @ [char_of (48 + n mod 10)])"

declare show_nat.simps [simp del]

definition is_digit :: "char \<Rightarrow> bool" where
  "is_digit ch \<longleftrightarrow> 48 \<le> (of_char ch :: nat) \<and> (of_char ch :: nat) \<le> 57"

definition read_nat :: "string \<Rightarrow> nat" where
  "read_nat s = foldl (\<lambda>n ch. 10 * n + (of_char ch - 48)) 0 s"

lemma of_char_digit: "d < 10 \<Longrightarrow> (of_char (char_of (48 + d) :: char) :: nat) = 48 + d"
  by (simp add: of_char_of)

lemma read_show_nat: "read_nat (show_nat n) = n"
proof (induction n rule: show_nat.induct)
  case (1 n)
  show ?case
  proof (cases "n < 10")
    case True
    then show ?thesis
      by (simp add: show_nat.simps [of n] read_nat_def of_char_digit del: of_char_of)
  next
    case False
    then have "read_nat (show_nat n) = 10 * read_nat (show_nat (n div 10)) + n mod 10"
      by (simp add: show_nat.simps [of n] read_nat_def of_char_digit del: of_char_of)
    then show ?thesis using 1 False by simp
  qed
qed

lemma show_nat_digits: "show_nat n \<noteq> []" "\<forall>ch \<in> set (show_nat n). is_digit ch"
proof (induction n rule: show_nat.induct)
  case (1 n)
  {
    case 1
    show ?case by (simp add: show_nat.simps [of n])
  next
    case 2
    have "is_digit (char_of (48 + d))" if "d < 10" for d :: nat
      using that by (simp add: is_digit_def of_char_digit del: of_char_of)
    then show ?case using 1(2) by (auto simp: show_nat.simps [of n])
  }
qed

lemma length_show_nat: "n < 10 ^ Suc k \<Longrightarrow> length (show_nat n) \<le> Suc k"
proof (induction k arbitrary: n)
  case 0
  then show ?case by (simp add: show_nat.simps [of n])
next
  case (Suc k)
  then have "n div 10 < 10 ^ Suc k" by (simp add: less_mult_imp_div_less)
  with Suc.IH [of "n div 10"] show ?case by (simp add: show_nat.simps [of n])
qed

lemma length_show_words:
  "length (show_nat (unat (w :: size_t))) \<le> 20" "length (show_nat (unat (b :: byte))) \<le> 3"
proof -
  have "unat w < 2 ^ 64" "unat b < 2 ^ 8"
    using unsigned_less [of w, where ?'a = nat] unsigned_less [of b, where ?'a = nat] by simp_all
  then have "unat w < 10 ^ Suc 19" "unat b < 10 ^ Suc 2" by simp_all
  then show "length (show_nat (unat w)) \<le> 20" "length (show_nat (unat b)) \<le> 3"
    using length_show_nat [of "unat w" 19] length_show_nat [of "unat b" 2] by simp_all
qed

subsection \<open>The text\<close>

definition nl :: string where "nl = [CHR 0x0A]"
definition tab :: string where "tab = [CHR 0x09]"
definition quot :: "string \<Rightarrow> string" where "quot s = [CHR 0x22] @ s @ [CHR 0x22]"

text \<open>One line \<open>"\t\t\"name\": %zu,\n"\<close>.\<close>

definition stats_field :: "string \<Rightarrow> nat \<Rightarrow> string" where
  "stats_field name v = tab @ tab @ quot name @ '': '' @ show_nat v @ '','' @ nl"

definition stats_section :: "string \<Rightarrow> pupa_store_section \<Rightarrow> string" where
  "stats_section name s =
     tab @ quot name @ '' : {'' @ nl @
     stats_field ''size'' (unat (sec_size s)) @
     stats_field ''used'' (unat (sec_used s)) @
     stats_field ''id'' (unat (sec_id s)) @
     stats_field ''section-1'' (unat (sec1_offset s)) @
     stats_field ''section-2'' (unat (sec2_offset s)) @
     tab @ ''}''"

definition stats_text :: "pupa_store_hdr \<Rightarrow> string" where
  "stats_text h =
     ''{'' @ nl @
     stats_section ''item'' (item_section h) @ '','' @ nl @
     stats_section ''key'' (key_section h) @ '','' @ nl @
     stats_section ''value'' (value_section h) @ nl @
     ''}'' @ nl"

subsection \<open>The walk over the index\<close>

text \<open>
  \<open>p_item\<close> is advanced by \<open>i * item_len\<close> from where the previous round left it.
\<close>

function dump_walk :: "pupa_ctx \<Rightarrow> addr \<Rightarrow> size_t \<Rightarrow> nat \<Rightarrow> unit option" where
  "dump_walk c p len i =
     do {
       h \<leftarrow> load_hdr c;
       if i < unat (sec_used (item_section h)) then
         (let p = p + W64 i * len in
          do {
            cnt \<leftarrow> ld32 c (p + 12);
            dump_walk c p len (Suc i)
          })
       else Some ()
     }"
  by pat_completeness auto
termination
proof (relation "measure (\<lambda>(_, _, _, i). 2 ^ 64 - i)", goal_cases)
  case 1
  then show ?case by simp
next
  case (2 c p len i h)
  then have "i < 2 ^ 64"
    using unsigned_less [of "sec_used (item_section h)", where ?'a = nat] by simp
  then show ?case by simp
qed

declare dump_walk.simps [simp del]

definition pupa_store_dump :: "pupa_ctx \<Rightarrow> int option" where
  "pupa_store_dump c =
     do {
       h \<leftarrow> load_hdr c;
       dump_walk c (store_items c) (item_stride h) 0;
       dump_walk c (store_items_snapshot c) (item_stride h) 0;
       Some PUPA_OK
     }"

text \<open>\<open>None\<close> when the text and its final zero do not fit into the buffer.\<close>

definition pupa_store_stats :: "pupa_ctx \<Rightarrow> (int \<times> string) option" where
  "pupa_store_stats c =
     do {
       h \<leftarrow> load_hdr c;
       let s = stats_text h;
       if length s + 1 \<le> 1024 then do { pupa_store_dump c; Some (PUPA_OK, s) } else None
     }"

subsection \<open>The text fits, and reports the header\<close>

lemma length_stats_field: "length (stats_field name v) = length name + 8 + length (show_nat v)"
  by (simp add: stats_field_def nl_def tab_def quot_def)

lemma length_stats_section: "length (stats_section name s) \<le> length name + 188"
  using length_show_words(1) [of "sec_size s"] length_show_words(1) [of "sec_used s"]
    length_show_words(2) [of "sec_id s"] length_show_words(1) [of "sec1_offset s"]
    length_show_words(1) [of "sec2_offset s"]
  by (simp add: stats_section_def length_stats_field nl_def tab_def quot_def)

lemma stats_text_length: "length (stats_text h) + 1 \<le> 1024"
  using length_stats_section [of "''item''" "item_section h"]
    length_stats_section [of "''key''" "key_section h"]
    length_stats_section [of "''value''" "value_section h"]
  by (simp add: stats_text_def nl_def)

text \<open>The numbers in a text: its maximal runs of digits, read as decimals.\<close>

fun numbers_from :: "string \<Rightarrow> string \<Rightarrow> nat list" where
  "numbers_from acc [] = (if acc = [] then [] else [read_nat acc])"
| "numbers_from acc (ch # s) =
     (if is_digit ch then numbers_from (acc @ [ch]) s
      else if acc = [] then numbers_from [] s else read_nat acc # numbers_from [] s)"

definition numbers :: "string \<Rightarrow> nat list" where
  "numbers s = numbers_from [] s"

lemma numbers_from_split:
  "\<not> is_digit ch \<Longrightarrow> numbers_from acc (s @ ch # rest) = numbers_from acc s @ numbers_from [] rest"
  by (induction acc s rule: numbers_from.induct) auto

lemma numbers_from_digits:
  "\<forall>ch \<in> set ds. is_digit ch \<Longrightarrow> acc @ ds \<noteq> [] \<Longrightarrow> numbers_from acc ds = [read_nat (acc @ ds)]"
  by (induction ds arbitrary: acc) auto

lemma numbers_split: "\<not> is_digit ch \<Longrightarrow> numbers (s @ ch # rest) = numbers s @ numbers rest"
  by (simp add: numbers_def numbers_from_split)

lemma numbers_skip: "\<not> is_digit ch \<Longrightarrow> numbers (ch # rest) = numbers rest"
  by (simp add: numbers_def)

lemma numbers_show: "numbers (show_nat v) = [v]"
  using show_nat_digits [of v] by (simp add: numbers_def numbers_from_digits read_show_nat)

lemma no_digits:
  "\<not> is_digit CHR 0x09" "\<not> is_digit CHR 0x0A" "\<not> is_digit CHR 0x22" "\<not> is_digit CHR '':''"
  "\<not> is_digit CHR '' ''" "\<not> is_digit CHR '',''" "\<not> is_digit CHR ''{''" "\<not> is_digit CHR ''}''"
  by (simp_all add: is_digit_def)

lemma numbers_field: "numbers (stats_field name v @ rest) = numbers name @ v # numbers rest"
  by (simp add: stats_field_def tab_def nl_def quot_def no_digits numbers_skip numbers_split
      numbers_show)

lemma numbers_names:
  "numbers ''size'' = []" "numbers ''used'' = []" "numbers ''id'' = []"
  "numbers ''section-1'' = [1]" "numbers ''section-2'' = [2]"
  "numbers ''item'' = []" "numbers ''key'' = []" "numbers ''value'' = []"
  by (simp_all add: numbers_def is_digit_def read_nat_def)

text \<open>The numbers of a section, the digits in the names of its fields included.\<close>

definition section_numbers :: "pupa_store_section \<Rightarrow> nat list" where
  "section_numbers s =
     [unat (sec_size s), unat (sec_used s), unat (sec_id s), 1, unat (sec1_offset s), 2,
      unat (sec2_offset s)]"

lemma numbers_section:
  "numbers name = [] \<Longrightarrow> numbers (stats_section name s @ rest) = section_numbers s @ numbers rest"
  by (simp add: stats_section_def section_numbers_def tab_def nl_def quot_def no_digits
      numbers_skip numbers_split numbers_field numbers_names)

lemma numbers_stats_text:
  "numbers (stats_text h) =
     section_numbers (item_section h) @ section_numbers (key_section h) @
     section_numbers (value_section h)"
  by (simp add: stats_text_def nl_def no_digits numbers_skip numbers_section numbers_names)
    (simp add: numbers_def)

subsection \<open>How far the walk goes\<close>

primrec tri :: "nat \<Rightarrow> nat" where
  "tri 0 = 0"
| "tri (Suc n) = tri n + n"

lemma tri_mono: "m \<le> n \<Longrightarrow> tri m \<le> tri n"
  by (rule lift_Suc_mono_le [of tri]) simp_all

lemma tri_le: "tri n \<le> n * n"
  by (induction n) simp_all

lemma dump_walk_eq:
  assumes h: "load_hdr c = Some h" and u: "unat (sec_used (item_section h)) = u" "u < 2 ^ 26"
    and sz: "msize c < 2 ^ 31" "b < 2 ^ 31"
  shows "i \<le> u \<Longrightarrow> dump_walk c (W64 (b + 64 * tri i)) 64 i =
     (if i < u \<and> msize c < b + 64 * tri u + 16 then None else Some ())"
proof (induction "u - i" arbitrary: i)
  case 0
  then show ?case by (simp add: dump_walk.simps [of c _ _ i] h u)
next
  case (Suc d)
  then have i: "i < u" by simp
  let ?a = "b + 64 * tri (Suc i)"
  have "tri u \<le> u * u" by (rule tri_le)
  also have "\<dots> \<le> 2 ^ 26 * 2 ^ 26" using u(2) by (intro mult_le_mono) simp_all
  finally have "64 * tri u \<le> 2 ^ 58" by simp
  moreover have mono: "tri (Suc i) \<le> tri u" using i by (intro tri_mono) simp
  ultimately have a: "unat (W64 (?a + 12)) = ?a + 12"
    using sz by (intro unat_W64) simp
  have step: "W64 (b + 64 * tri i) + W64 i * 64 = W64 ?a"
    by (simp add: addr_simps algebra_simps)
  have ld: "ld32 c (W64 ?a + 12) = (if ?a + 16 \<le> msize c then Some (rd32 (mbytes c) (?a + 12)) else None)"
    using a by (simp add: ld32_def in_map_def W64_add_numeral add.assoc [symmetric])
  have rec: "dump_walk c (W64 ?a) 64 (Suc i) =
      (if Suc i < u \<and> msize c < b + 64 * tri u + 16 then None else Some ())"
    by (rule Suc.hyps(1)) (use Suc in simp_all)
  have "dump_walk c (W64 (b + 64 * tri i)) 64 i =
      do { cnt \<leftarrow> ld32 c (W64 ?a + 12); dump_walk c (W64 ?a) 64 (Suc i) }"
    using i by (simp only: dump_walk.simps [of c _ _ i]) (simp add: h u step Let_def)
  then show ?case
    using i ld rec mono by (cases "Suc i = u") auto
qed

lemma pupa_store_dump_eq:
  assumes wf: "wf_view s c" and b: "store_items c = W64 b" "b < 2 ^ 31"
    and q: "store_items_snapshot c = W64 q" "q < 2 ^ 31"
  shows "pupa_store_dump c =
     (if v_used s = 0 \<or> b + 64 * tri (v_used s) + 16 \<le> file_len (v_keys s) \<and>
        q + 64 * tri (v_used s) + 16 \<le> file_len (v_keys s) then Some PUPA_OK else None)"
proof -
  note w = wf_viewD [OF wf]
  have u: "unat (sec_used (item_section (view_hdr s))) = v_used s" "v_used s < 2 ^ 26"
    "msize c < 2 ^ 31"
    using w(2,3,5) by (simp_all add: view_simps unat_W64 file_len_def)
  note dw = dump_walk_eq [OF load_hdr_wf [OF wf] u]
  show ?thesis
    using dw [OF b(2), of 0] dw [OF q(2), of 0] w(2)
    by (auto simp: pupa_store_dump_def load_hdr_wf [OF wf] view_simps b q)
qed

end
