(* ===== verification/Pupa.thy ===== *)
theory Pupa
  imports Writer Stats
begin

text \<open>
  The library's interface, \<open>pupa.c\<close>: the static context \<open>pupa_ctx\<close>, opening and closing a
  store file, and the operations on it. The state is the context and the files; what is
  written to a shared mapping (\<open>MAP_SHARED\<close>) is written to the file.
\<close>

subsection \<open>The context and the files\<close>

definition pupa_ctx_0 :: pupa_ctx where
  "pupa_ctx_0 =
     \<lparr>mbytes = (\<lambda>_. 0), msize = 0, mwritable = False, ctx_init = 0,
      shm = \<lparr>shm_path = '''', shm_size = 0, shm_exists = False\<rparr>,
      mapped = False, store_items = 0, store_items_snapshot = 0\<rparr>"

definition ctx_file :: "pupa_ctx \<Rightarrow> disk_file" where
  "ctx_file c = \<lparr>file_size = msize c, file_bytes = mbytes c\<rparr>"

definition write_back :: "pupa_ctx \<Rightarrow> disk \<Rightarrow> disk" where
  "write_back c d =
     (if mapped c \<and> mwritable c then d(shm_path (shm c) \<mapsto> ctx_file c) else d)"

subsection \<open>Opening\<close>

definition put_hdr :: "pupa_ctx \<Rightarrow> pupa_store_hdr \<Rightarrow> pupa_ctx option" where
  "put_hdr c h =
     (if sizeof_hdr \<le> msize c \<and> mwritable c then Some (c\<lparr>mbytes := wr_hdr (mbytes c) h\<rparr>)
      else None)"

text \<open>The two index pointers, as \<open>pupa_init\<close> takes them from the header.\<close>

definition init_items :: "pupa_ctx \<Rightarrow> pupa_ctx option" where
  "init_items c =
     do {
       h \<leftarrow> load_hdr c;
       Some (c\<lparr>store_items := PUPA_STORE_GET_ADDR (item_section h),
               store_items_snapshot := PUPA_STORE_GET_SNAPSHOT_ADDR (item_section h),
               ctx_init := 1\<rparr>)
     }"

text \<open>
  \<open>junk\<close> is the local \<open>store_hdr\<close>, which is initialised for \<open>PUPA_OP_TYPE_RW\<close> only.
  \<open>strdup\<close> fails when \<open>malloc\<close> does; \<open>open\<close> then gets \<open>NULL\<close> and fails.
\<close>

definition pupa_init ::
  "os_env \<Rightarrow> pupa_store_hdr \<Rightarrow> disk \<Rightarrow> pupa_ctx \<Rightarrow> string \<Rightarrow> c_int \<Rightarrow> int \<Rightarrow>
   (int \<times> pupa_ctx \<times> disk) option" where
  "pupa_init env junk d c path key_count op_type =
     (if ctx_init c \<noteq> 0 then Some (PUPA_ERROR, c, d)
      else
        (let (size, hdr) = pupa_store_init key_count 3;
             rw = (op_type = PUPA_OP_TYPE_RW);
             store_hdr = (if rw then hdr else junk);
             c = (if rw then c\<lparr>shm := (shm c)\<lparr>shm_size := scast size\<rparr>\<rparr> else c);
             c = c\<lparr>shm := (shm c)\<lparr>shm_path := path\<rparr>\<rparr>;
             (ret, c, d) =
               pupa_shm_init (env\<lparr>open_ok := open_ok env \<and> malloc_ok env\<rparr>) d c op_type
         in if ret = PUPA_ERROR then Some (ret, c, d)
            else
              do {
                let c = c\<lparr>mapped := True\<rparr>;
                c \<leftarrow> (if \<not> shm_exists (shm c) then put_hdr c store_hdr else Some c);
                c \<leftarrow> init_items c;
                Some (PUPA_OK, c, write_back c d)
              }))"

subsection \<open>The operations\<close>

definition pupa_get :: "pupa_ctx \<Rightarrow> pupa_str \<Rightarrow> (int \<times> pupa_str option \<times> pupa_ctx) option" where
  "pupa_get c key = pupa_store_get c key 0"

definition pupa_get_by_ver ::
  "pupa_ctx \<Rightarrow> pupa_str \<Rightarrow> c_int \<Rightarrow> (int \<times> pupa_str option \<times> pupa_ctx) option" where
  "pupa_get_by_ver c key version = pupa_store_get c key version"

definition pupa_get_all_ver ::
  "pupa_ctx \<Rightarrow> pupa_str \<Rightarrow> (int \<times> pupa_str list \<times> pupa_ctx) option" where
  "pupa_get_all_ver c key = pupa_store_get_values c key"

definition pupa_set ::
  "os_env \<Rightarrow> pupa_ctx \<times> disk \<Rightarrow> pupa_str \<Rightarrow> pupa_str \<Rightarrow> (int \<times> pupa_ctx \<times> disk) option" where
  "pupa_set env st key value =
     (case st of (c, d) \<Rightarrow>
        do {
          (ret, c) \<leftarrow> pupa_store_set env c key value;
          Some (ret, c, write_back c d)
        })"

definition pupa_del ::
  "os_env \<Rightarrow> pupa_ctx \<times> disk \<Rightarrow> pupa_str \<Rightarrow> (int \<times> pupa_ctx \<times> disk) option" where
  "pupa_del env st key =
     (case st of (c, d) \<Rightarrow>
        do {
          (ret, c) \<leftarrow> pupa_store_del env c key;
          Some (ret, c, write_back c d)
        })"

definition pupa_stats :: "pupa_ctx \<Rightarrow> (int \<times> string) option" where
  "pupa_stats c = pupa_store_stats c"

definition pupa_store_fini :: "os_env \<Rightarrow> pupa_ctx \<Rightarrow> int \<times> pupa_ctx" where
  "pupa_store_fini env c =
     (let (ret, c) = pupa_shm_fini env c in if ret \<noteq> PUPA_OK then (ret, c) else (PUPA_OK, c))"

definition pupa_fini :: "os_env \<Rightarrow> pupa_ctx \<Rightarrow> int \<times> pupa_ctx" where
  "pupa_fini env c =
     (if ctx_init c \<noteq> 0 then
        (let (ret, c) = pupa_store_fini env c in
         if ret \<noteq> PUPA_OK then (ret, c) else (PUPA_OK, c\<lparr>ctx_init := 0\<rparr>))
      else (PUPA_OK, c))"

subsection \<open>The store in a file\<close>

definition file_ctx :: "disk_file \<Rightarrow> pupa_ctx" where
  "file_ctx f =
     pupa_ctx_0\<lparr>mbytes := file_bytes f, msize := file_size f, mwritable := True, mapped := True\<rparr>"

definition file_ok :: "disk_file \<Rightarrow> bool" where
  "file_ok f = store_wf (file_ctx f)"

definition file_view :: "disk_file \<Rightarrow> store_view" where
  "file_view f = view_of (file_ctx f)"

definition file_map :: "disk_file \<Rightarrow> store_key \<Rightarrow> byte list list option" where
  "file_map f = store_map (file_ctx f)"

text \<open>A context shows the file it maps.\<close>

lemma view_of_cong: "mbytes c = mbytes c' \<Longrightarrow> view_of c = view_of c'"
  by (simp add: view_of_def)

lemma store_map_cong: "mbytes c = mbytes c' \<Longrightarrow> store_map c = store_map c'"
  using view_of_cong [of c c'] by (simp add: store_map_def store_entries_def)

lemma wf_view_cong:
  "mbytes c = mbytes c' \<Longrightarrow> msize c = msize c' \<Longrightarrow> mapped c = mapped c' \<Longrightarrow> wf_view s c = wf_view s c'"
  by (simp add: wf_view_def)

lemma wf_cong:
  "mbytes c = mbytes c' \<Longrightarrow> msize c = msize c' \<Longrightarrow> mapped c = mapped c' \<Longrightarrow> store_wf c = store_wf c'"
  using view_of_cong [of c c'] wf_view_cong [of c c'] by (simp add: store_wf_def)

definition maps_file :: "pupa_ctx \<Rightarrow> disk_file \<Rightarrow> bool" where
  "maps_file c f \<longleftrightarrow> mapped c \<and> mbytes c = file_bytes f \<and> msize c = file_size f"

lemma maps_fileD:
  assumes "maps_file c f"
  shows "store_wf c = file_ok f" "store_map c = file_map f" "view_of c = file_view f"
  using assms wf_cong [of c "file_ctx f"] store_map_cong [of c "file_ctx f"]
    view_of_cong [of c "file_ctx f"]
  by (simp_all add: maps_file_def file_ok_def file_map_def file_view_def file_ctx_def)

lemma maps_ctx_file: "mapped c \<Longrightarrow> maps_file c (ctx_file c)"
  by (simp add: maps_file_def ctx_file_def)

lemma file_ok_size: "file_ok f \<Longrightarrow> file_size f = file_len (v_keys (file_view f)) \<and>
    file_len (v_keys (file_view f)) < 2 ^ 31"
  using wf_viewD(2,3) [of "file_view f" "file_ctx f"]
  by (simp add: file_ok_def store_wf_def file_view_def file_ctx_def file_len_def)

text \<open>\<open>pupa_init\<close> on a context that is open reports an error and changes nothing.\<close>

lemma init_twice_refused:
  assumes "pupa_init env junk d c path n op = Some (PUPA_OK, c1, d1)"
  shows "pupa_init env' junk' d1 c1 path' n' op' = Some (PUPA_ERROR, c1, d1)"
proof -
  have "ctx_init c1 = 1"
    using assms
    by (auto simp: pupa_init_def init_items_def return_codes Let_def bind_Some_iff split_beta
        split: if_splits)
  then show ?thesis by (simp add: pupa_init_def)
qed

subsection \<open>Opening an existing store\<close>

definition calls_ok :: "os_env \<Rightarrow> bool" where
  "calls_ok env \<longleftrightarrow> malloc_ok env \<and> open_ok env \<and> fstat_ok env \<and> ftruncate_ok env \<and> mmap_ok env"

text \<open>\<open>opened c f path rw\<close>: the context after a successful \<open>pupa_init\<close>.\<close>

definition opened :: "pupa_ctx \<Rightarrow> disk_file \<Rightarrow> string \<Rightarrow> bool \<Rightarrow> bool" where
  "opened c f path rw \<longleftrightarrow>
     maps_file c f \<and> mwritable c = rw \<and> shm_path (shm c) = path \<and> ctx_init c = 1 \<and>
     store_items c = W64 (i_base (file_view f)) \<and>
     store_items_snapshot c = W64 (i_snap (file_view f))"

lemma init_items_wf:
  assumes "wf_view s c"
  shows "init_items c = Some (c\<lparr>store_items := W64 (i_base s),
     store_items_snapshot := W64 (i_snap s), ctx_init := 1\<rparr>)"
  by (simp add: init_items_def load_hdr_wf [OF assms] view_simps)

lemma opened_wf:
  assumes "opened c f path rw" "file_ok f"
  shows "store_wf c" "store_map c = file_map f" "view_of c = file_view f" "synced c"
  using assms maps_fileD [of c f] by (simp_all add: opened_def synced_def)

lemma opened_writer: "opened c f path True \<Longrightarrow> file_ok f \<Longrightarrow>
    writer_ok c \<and> work_map c = file_map f"
proof -
  assume o: "opened c f path True" "file_ok f"
  note w = opened_wf [OF o]
  have "writer (view_of c) c (i_base (view_of c))"
    using w(1,3) o(1) by (intro synced_writer) (simp_all add: store_wf_def opened_def)
  then show ?thesis using writer_writer_ok w synced_work_map [OF w(1,4)] by simp
qed

lemma init_existing:
  assumes f: "d path = Some f" "file_ok f" and env: "calls_ok env" and c: "ctx_init c = 0"
    and op: "op = PUPA_OP_TYPE_RO \<or> op = PUPA_OP_TYPE_RW"
  shows "\<exists>c'. pupa_init env junk d c path n op = Some (PUPA_OK, c', d) \<and>
     opened c' f path (op = PUPA_OP_TYPE_RW)"
proof -
  let ?rw = "op = PUPA_OP_TYPE_RW"
  have sz: "file_size f \<noteq> 0" "file_size f < 2 ^ 31"
    using file_ok_size [OF f(2)] by (auto simp: file_len_def)
  have zu: "W64 (file_size f) \<noteq> 0" using sz by (simp add: W64_eq_0)
  let ?sz = "if ?rw then scast (fst (pupa_store_init n 3)) else shm_size (shm c)"
  let ?shm = "\<lparr>shm_path = path, shm_size = W64 (file_size f), shm_exists = True\<rparr>"
  let ?c1 = "c\<lparr>mbytes := file_bytes f, msize := file_size f, mwritable := ?rw, shm := ?shm,
    mapped := True\<rparr>"
  have wv: "wf_view (file_view f) ?c1"
    using f(2) wf_view_cong [of ?c1 "file_ctx f"]
    by (simp add: file_ok_def store_wf_def file_view_def file_ctx_def)
  note it = init_items_wf [OF wv]
  have ops: "PUPA_OP_TYPE_RO \<noteq> PUPA_OP_TYPE_RW" "PUPA_OK \<noteq> PUPA_ERROR"
    by (simp_all add: PUPA_OP_TYPE_RO_def PUPA_OP_TYPE_RW_def return_codes)
  have wb: "write_back (?c1\<lparr>store_items := x, store_items_snapshot := y, ctx_init := 1\<rparr>) d = d" for x y
    using f(1) by (simp add: write_back_def ctx_file_def fun_upd_idem)
  have nf: "c\<lparr>shm := (shm c)\<lparr>shm_path := path, shm_size := W64 (file_size f), shm_exists := True\<rparr>,
      mbytes := file_bytes f, msize := file_size f, mwritable := False, mapped := True\<rparr> =
    c\<lparr>mbytes := file_bytes f, msize := file_size f, mwritable := False, shm := ?shm, mapped := True\<rparr>"
    "c\<lparr>shm := (shm c)\<lparr>shm_path := path, shm_exists := True, shm_size := W64 (file_size f)\<rparr>,
      mbytes := file_bytes f, msize := file_size f, mwritable := True, mapped := True\<rparr> =
    c\<lparr>mbytes := file_bytes f, msize := file_size f, mwritable := True, shm := ?shm, mapped := True\<rparr>"
    by (rule pupa_ctx.equality; simp)+
  have "pupa_init env junk d c path n op =
      Some (PUPA_OK, ?c1\<lparr>store_items := W64 (i_base (file_view f)),
        store_items_snapshot := W64 (i_snap (file_view f)), ctx_init := 1\<rparr>, d)"
    using op
  proof
    assume o: "op = PUPA_OP_TYPE_RO"
    then show ?thesis
      using env c f(1) sz zu ops it wb
      by (simp add: nf pupa_init_def pupa_shm_init_def pupa_shm_init_ro_def calls_ok_def
          map_file_def split_beta Let_def)
  next
    assume o: "op = PUPA_OP_TYPE_RW"
    then show ?thesis
      using env c f(1) sz zu ops it wb
      by (simp add: nf pupa_init_def pupa_shm_init_def pupa_shm_init_rw_def calls_ok_def
          map_file_def split_beta Let_def open_create_def fun_upd_idem)
  qed
  then show ?thesis by (auto simp: opened_def maps_file_def)
qed

subsection \<open>Creating a store\<close>

lemma wr_hdr_view: "rd_hdr (wr_hdr m (layout_hdr n 3)) = view_hdr (fresh_view n)"
  by (simp add: rd_hdr_wr_hdr layout_hdr_view)

definition fresh_file :: "nat \<Rightarrow> (nat \<Rightarrow> byte) \<Rightarrow> disk_file" where
  "fresh_file n m = \<lparr>file_size = file_len n, file_bytes = wr_hdr m (layout_hdr n 3)\<rparr>"

lemma fresh_file_ok:
  assumes "file_len n < 2 ^ 31"
  shows "file_ok (fresh_file n m)" "file_view (fresh_file n m) = fresh_view n"
    "file_map (fresh_file n m) = Map.empty"
proof -
  have wv: "wf_view (fresh_view n) (file_ctx (fresh_file n m))"
    using assms
    by (simp add: wf_view_def file_ctx_def fresh_file_def wr_hdr_view view_ok_def index_ok_def
        entries_def) (simp add: fresh_view_def)
  show v: "file_view (fresh_file n m) = fresh_view n"
    using wf_view_view [OF wv] by (simp add: file_view_def)
  show "file_ok (fresh_file n m)" using wf_view_wf [OF wv] by (simp add: file_ok_def)
  show "file_map (fresh_file n m) = Map.empty"
    using store_entries_view [OF wv] by (simp add: file_map_def store_map_def entries_def)
      (simp add: fresh_view_def)
qed

definition empty_path :: "disk \<Rightarrow> string \<Rightarrow> bool" where
  "empty_path d path \<longleftrightarrow> (case d path of None \<Rightarrow> True | Some f \<Rightarrow> file_size f = 0)"

lemma init_fresh:
  assumes new: "empty_path d path" and n: "file_len n < 2 ^ 31" and env: "calls_ok env"
    and c: "ctx_init c = 0"
  shows "\<exists>c' m. pupa_init env junk d c path (W32 n) PUPA_OP_TYPE_RW =
       Some (PUPA_OK, c', d(path \<mapsto> fresh_file n m)) \<and>
     opened c' (fresh_file n m) path True"
proof -
  have total: "layout_total n 3 < 2 ^ 31" using n by (simp add: layout_total_3)
  have ini: "pupa_store_init (W32 n) 3 = (W32 (file_len n), layout_hdr n 3)"
    using pupa_store_init_eq [OF total] by (simp add: W32_numeral layout_total_3)
  have sz: "(scast (W32 (file_len n)) :: size_t) = W64 (file_len n)"
    using n by (simp add: scast_32_64)
  have nz: "W64 (file_len n) \<noteq> 0" "\<not> sint (W64 (file_len n)) < 0" "unat (W64 (file_len n)) = file_len n"
  proof -
    have "file_len n \<noteq> 0" by (simp add: file_len_def)
    then show "W64 (file_len n) \<noteq> 0" using n by (simp add: W64_eq_0)
    show "unat (W64 (file_len n)) = file_len n" using n by (simp add: unat_W64)
    show "\<not> sint (W64 (file_len n)) < 0" using n by (simp add: sint_W64)
  qed
  obtain f d1 where oc: "open_create d path = (f, d1)" "file_size f = 0" "d1(path \<mapsto> g) = d(path \<mapsto> g)"
    for g
    using new by (auto simp: open_create_def empty_path_def empty_file_def split: option.splits)
  let ?m = "wr_hdr (file_bytes f) (layout_hdr n 3)"
  let ?shm = "\<lparr>shm_path = path, shm_size = W64 (file_len n), shm_exists = False\<rparr>"
  let ?c1 = "c\<lparr>mbytes := ?m, msize := file_len n, mwritable := True, shm := ?shm, mapped := True\<rparr>"
  have fo: "file_ctx (fresh_file n (file_bytes f)) =
      pupa_ctx_0\<lparr>mbytes := ?m, msize := file_len n, mwritable := True, mapped := True\<rparr>"
    by (simp add: file_ctx_def fresh_file_def)
  have wv: "wf_view (fresh_view n) ?c1"
    using fresh_file_ok [OF n, of "file_bytes f"] wf_view_cong [of ?c1 "file_ctx (fresh_file n (file_bytes f))"]
    by (simp add: file_ok_def store_wf_def file_view_def fo)
  note it = init_items_wf [OF wv]
  have len: "sizeof_hdr \<le> file_len n" by (simp add: sizeof_hdr_def file_len_def)
  have ops: "PUPA_OP_TYPE_RO \<noteq> PUPA_OP_TYPE_RW" "PUPA_OK \<noteq> PUPA_ERROR"
    by (simp_all add: PUPA_OP_TYPE_RO_def PUPA_OP_TYPE_RW_def return_codes)
  have nf: "c\<lparr>shm := (shm c)\<lparr>shm_path := path, shm_exists := False, shm_size := W64 (file_len n)\<rparr>,
      msize := file_len n, mwritable := True, mapped := True, mbytes := ?m\<rparr> = ?c1"
    by (rule pupa_ctx.equality; simp)
  have "pupa_init env junk d c path (W32 n) PUPA_OP_TYPE_RW =
      Some (PUPA_OK, ?c1\<lparr>store_items := W64 (i_base (fresh_view n)),
        store_items_snapshot := W64 (i_snap (fresh_view n)), ctx_init := 1\<rparr>,
        d(path \<mapsto> fresh_file n (file_bytes f)))"
    using env c oc nz ops it len
    by (simp add: nf pupa_init_def pupa_shm_init_def pupa_shm_init_rw_def calls_ok_def
        map_file_def split_beta Let_def ini sz put_hdr_def write_back_def ctx_file_def fresh_file_def)
  moreover have "opened (?c1\<lparr>store_items := W64 (i_base (fresh_view n)),
        store_items_snapshot := W64 (i_snap (fresh_view n)), ctx_init := 1\<rparr>)
      (fresh_file n (file_bytes f)) path True"
    using fresh_file_ok(2) [OF n, of "file_bytes f"]
    by (simp add: opened_def maps_file_def) (simp add: fresh_file_def)
  ultimately show ?thesis by blast
qed

end
