(* ===== verification/Contract.thy ===== *)
theory Contract
  imports Prelude
begin

text \<open>
  What a client of the store relies on: storing a value makes it version 1 of its key, moves
  the older versions up, keeps at most three of them, and leaves the other keys alone.
  \<open>ready s k v\<close> stands for the conditions under which the provider promises this. What
  follows for a sequence of writes is proved here once, for every provider.
\<close>

locale versioned_store =
  fixes put :: "'s \<Rightarrow> 'k \<Rightarrow> 'v \<Rightarrow> 's option"
    and history :: "'s \<Rightarrow> 'k \<Rightarrow> 'v list"
    and ready :: "'s \<Rightarrow> 'k \<Rightarrow> 'v \<Rightarrow> bool"
  assumes put_total: "ready s k v \<Longrightarrow> \<exists>s'. put s k v = Some s'"
    and put_same: "ready s k v \<Longrightarrow> put s k v = Some s' \<Longrightarrow>
      history s' k = take 3 (v # history s k)"
    and put_other: "ready s k v \<Longrightarrow> put s k v = Some s' \<Longrightarrow> k' \<noteq> k \<Longrightarrow>
      history s' k' = history s k'"
begin

primrec puts :: "'s \<Rightarrow> ('k \<times> 'v) list \<Rightarrow> 's option" where
  "puts s [] = Some s"
| "puts s (kv # kvs) = do { s \<leftarrow> put s (fst kv) (snd kv); puts s kvs }"

primrec all_ready :: "'s \<Rightarrow> ('k \<times> 'v) list \<Rightarrow> bool" where
  "all_ready s [] \<longleftrightarrow> True"
| "all_ready s (kv # kvs) \<longleftrightarrow> ready s (fst kv) (snd kv) \<and>
     (case put s (fst kv) (snd kv) of None \<Rightarrow> False | Some s \<Rightarrow> all_ready s kvs)"

definition written :: "'k \<Rightarrow> ('k \<times> 'v) list \<Rightarrow> 'v list" where
  "written k kvs = map snd (filter (\<lambda>kv. fst kv = k) kvs)"

lemma take_append_take: "take n (xs @ take n ys) = take n (xs @ ys)"
  by (simp add: min_def)

lemma puts_total: "all_ready s kvs \<Longrightarrow> \<exists>s'. puts s kvs = Some s'"
  by (induction kvs arbitrary: s) (auto split: option.splits)

text \<open>The three newest values written for a key are its versions.\<close>

lemma history_puts:
  assumes "all_ready s kvs" "puts s kvs = Some s'"
  shows "take 3 (history s' k) = take 3 (rev (written k kvs) @ history s k)"
  using assms
proof (induction kvs arbitrary: s)
  case Nil
  then show ?case by (simp add: written_def)
next
  case (Cons kv kvs)
  then obtain s1 where s1: "ready s (fst kv) (snd kv)" "put s (fst kv) (snd kv) = Some s1"
    "all_ready s1 kvs" "puts s1 kvs = Some s'"
    by (auto split: option.splits)
  note IH = Cons.IH [OF s1(3,4)]
  show ?case
  proof (cases "fst kv = k")
    case True
    then have "history s1 k = take 3 (snd kv # history s k)" using put_same [OF s1(1,2)] by simp
    then show ?thesis
      using IH True take_append_take [of 3 "rev (written k kvs)" "snd kv # history s k"]
      by (simp add: written_def)
  next
    case False
    then show ?thesis using IH put_other [OF s1(1,2), of k] by (simp add: written_def)
  qed
qed

text \<open>Reading your writes, the newest first.\<close>

lemma read_last_write:
  assumes "all_ready s kvs" "puts s kvs = Some s'" "written k kvs \<noteq> []"
  shows "history s' k \<noteq> []" "hd (history s' k) = last (written k kvs)"
proof -
  obtain v vs where w: "rev (written k kvs) = v # vs"
    using assms(3) by (cases "rev (written k kvs)") auto
  then have "take 3 (history s' k) = take 3 (v # vs @ history s k)"
    using history_puts [OF assms(1,2), of k] by simp
  then have "history s' k \<noteq> [] \<and> hd (history s' k) = v"
    by (cases "history s' k") simp_all
  moreover have "last (written k kvs) = v" using w by (simp add: rev_eq_Cons_iff)
  ultimately show "history s' k \<noteq> []" "hd (history s' k) = last (written k kvs)" by simp_all
qed

end

end
