(* ===== verification/Tool.thy ===== *)
theory Tool
  imports Pupa Contract
begin

text \<open>
  The command line tool \<open>pupa_tool.c\<close>: its four commands, each a process of its own that
  opens the store file, performs one operation and closes the file. A sequence of \<open>set\<close>
  commands is an instance of \<open>versioned_store\<close>, with the files as the state.
\<close>

subsection \<open>The commands\<close>

text \<open>
  What a command writes to \<open>stdout\<close> is part of its result, as bytes: the texts of the code in
  between are ASCII, keys and values are not.
\<close>

definition ascii :: "string \<Rightarrow> byte list" where
  "ascii s = map of_char s"

text \<open>\<open>printf("%.*s", len, data)\<close>: at most \<open>len\<close> bytes, up to the first zero.\<close>

definition printed :: "pupa_ctx \<Rightarrow> pupa_str \<Rightarrow> byte list option" where
  "printed c s =
     do {
       bs \<leftarrow> cptr_bytes c (str_data s) (unat (str_len s));
       Some (takeWhile (\<lambda>b. b \<noteq> 0) bs)
     }"

text \<open>
  The loop of \<open>pt_get\<close> over the values, from the one at index \<open>i\<close> on. What lies behind the
  values written to its array is zero, which ends the loop.
\<close>

definition value_line :: "nat \<Rightarrow> byte list \<Rightarrow> byte list" where
  "value_line i v = ascii (nl @ ''     v'' @ show_nat (i + 1) @ '' - '') @ v @ ascii '' ''"

fun printed_all :: "pupa_ctx \<Rightarrow> nat \<Rightarrow> pupa_str list \<Rightarrow> byte list option" where
  "printed_all c i [] = Some []"
| "printed_all c i (s # ss) =
     (if str_len s = 0 then Some []
      else
        do {
          v \<leftarrow> printed c s;
          rest \<leftarrow> printed_all c (i + 1) ss;
          Some (value_line i v @ rest)
        })"

definition DEFAULT_MAX_VALUE_VER :: nat where
  "DEFAULT_MAX_VALUE_VER = 100"

definition init_failed :: "byte list" where
  "init_failed = ascii (''Failed to initialize pupa.'' @ nl)"

definition set_done :: "byte list" where
  "set_done = ascii (''set successfully.'' @ nl)"

definition set_failed :: "byte list" where
  "set_failed = ascii (''Failed to execute pupa_set.'' @ nl)"

definition pt_set ::
  "os_env \<Rightarrow> pupa_store_hdr \<Rightarrow> disk \<Rightarrow> string \<Rightarrow> c_int \<Rightarrow> pupa_str \<Rightarrow> pupa_str \<Rightarrow>
     (int \<times> byte list \<times> disk) option"
  where
  "pt_set env junk d filename key_count key value =
     do {
       (ret, c, d) \<leftarrow> pupa_init env junk d pupa_ctx_0 filename key_count PUPA_OP_TYPE_RW;
       if ret \<noteq> PUPA_OK then Some (ret, init_failed, d)
       else
         do {
           (ret, c, d) \<leftarrow> pupa_set env (c, d) key value;
           if ret \<noteq> PUPA_OK then Some (ret, set_failed, d)
           else (let (_, c) = pupa_fini env c in Some (0, set_done, d))
         }
     }"

definition pt_del ::
  "os_env \<Rightarrow> pupa_store_hdr \<Rightarrow> disk \<Rightarrow> string \<Rightarrow> pupa_str \<Rightarrow> (int \<times> byte list \<times> disk) option" where
  "pt_del env junk d filename key =
     do {
       (ret, c, d) \<leftarrow> pupa_init env junk d pupa_ctx_0 filename 2 PUPA_OP_TYPE_RW;
       if ret \<noteq> PUPA_OK then Some (ret, init_failed, d)
       else
         do {
           (ret, c, d) \<leftarrow> pupa_del env (c, d) key;
           k \<leftarrow> printed c key;
           if ret \<noteq> PUPA_OK then Some (ret, ascii ''Failed to delete '' @ k @ ascii (''.'' @ nl), d)
           else
             (let (_, c) = pupa_fini env c in
              Some (0, ascii ''Delete '' @ k @ ascii ('' successfully.'' @ nl), d))
         }
     }"

definition get_failed :: "byte list \<Rightarrow> byte list" where
  "get_failed k = ascii ''Failed to get ('' @ k @ ascii ('').'' @ nl)"

definition got_all :: "byte list \<Rightarrow> byte list \<Rightarrow> byte list" where
  "got_all k out = ascii (nl @ ''Got '') @ k @ ascii '' :'' @ out @ ascii nl"

definition got_one :: "byte list \<Rightarrow> byte list \<Rightarrow> byte list" where
  "got_one k v = ascii (nl @ ''Got '') @ k @ ascii '' : '' @ v @ ascii nl"

definition pt_get ::
  "os_env \<Rightarrow> pupa_store_hdr \<Rightarrow> disk \<Rightarrow> string \<Rightarrow> pupa_str \<Rightarrow> c_int \<Rightarrow> (int \<times> byte list \<times> disk) option"
  where
  "pt_get env junk d filename key kv_ver =
     do {
       (ret, c, d) \<leftarrow> pupa_init env junk d pupa_ctx_0 filename 0 PUPA_OP_TYPE_RO;
       if ret \<noteq> PUPA_OK then Some (ret, init_failed, d)
       else if kv_ver = 0 then
         do {
           (ret, values, c) \<leftarrow> pupa_get_all_ver c key;
           if DEFAULT_MAX_VALUE_VER < length values then None
           else
             do {
               k \<leftarrow> printed c key;
               if ret \<noteq> PUPA_OK then Some (ret, get_failed k, d)
               else do { out \<leftarrow> printed_all c 0 values; Some (0, got_all k out, d) }
             }
         }
       else
         do {
           (ret, value, c) \<leftarrow> pupa_get_by_ver c key kv_ver;
           k \<leftarrow> printed c key;
           if ret \<noteq> PUPA_OK then Some (ret, get_failed k, d)
           else
             do { v \<leftarrow> value; out \<leftarrow> printed c v; Some (0, got_one k out, d) }
         }
     }"

definition pt_stat ::
  "os_env \<Rightarrow> pupa_store_hdr \<Rightarrow> disk \<Rightarrow> string \<Rightarrow> (int \<times> byte list \<times> disk) option" where
  "pt_stat env junk d filename =
     do {
       (ret, c, d) \<leftarrow> pupa_init env junk d pupa_ctx_0 filename 0 PUPA_OP_TYPE_RO;
       if ret \<noteq> PUPA_OK then Some (ret, init_failed, d)
       else
         do {
           (ret, s) \<leftarrow> pupa_stats c;
           if ret \<noteq> PUPA_OK then Some (ret, ascii (''Failed to perform pupa_stats.'' @ nl), d)
           else Some (0, ascii (nl @ ''pupa statistics: '' @ nl @ nl @ s), d)
         }
     }"

subsection \<open>The set command on a well-formed file\<close>

definition file_history :: "disk_file \<Rightarrow> byte list \<Rightarrow> byte list list" where
  "file_history f kb = versions (file_map f (skey kb))"

text \<open>What \<open>set_ready\<close> says of the context after opening the file.\<close>

definition file_ready :: "disk_file \<Rightarrow> byte list \<Rightarrow> byte list \<Rightarrow> bool" where
  "file_ready f kb vb \<longleftrightarrow>
     file_ok f \<and> length kb + 1 < 2 ^ 31 \<and> length vb + 1 < 2 ^ 31 \<and>
     (if file_map f (skey kb) = None
      then has_room (file_view f) kb vb \<and>
        (insert_pos (skey kb) (map fst (store_entries (file_ctx f))) = 0 \<longrightarrow>
           left_ok (v_used (file_view f)))
      else val_room (file_view f) vb)"

definition set_view :: "disk_file \<Rightarrow> byte list \<Rightarrow> byte list \<Rightarrow> store_view" where
  "set_view f kb vb =
     switched (if file_map f (skey kb) = None then insert_view (file_view f) kb vb
               else replace_view (file_view f) vb)"

lemma opened_work_entries:
  assumes "opened c f path True" "file_ok f"
  shows "work_entries c = store_entries (file_ctx f)"
proof -
  note w = opened_wf [OF assms]
  have "i_base (file_view f) < 2 ^ 64"
    using wf_viewD(3) [of "view_of c" c] w(1,3) by (fastforce simp: store_wf_def areas)
  then show ?thesis
    using assms(1) w(3)
    by (simp add: work_entries_def store_entries_def opened_def maps_file_def unat_W64
        file_view_def) (simp add: file_ctx_def)
qed

text \<open>The write on an opened file.\<close>

lemma opened_set:
  assumes o: "opened c f path True" and r: "file_ready f kb vb" and env: "calls_ok env"
    and key: "cstr key kb" and val: "cstr val vb"
  shows "\<exists>c'. pupa_store_set env c key val = Some (pupa_shm_sync env c', c') \<and>
     mapped c' \<and> mwritable c' \<and> shm_path (shm c') = path \<and> store_wf c' \<and>
     store_map c' = (file_map f)(skey kb \<mapsto> take 3 (stored vb # file_history f kb)) \<and>
     view_of c' = set_view f kb vb"
proof -
  have ok: "file_ok f" using r by (simp add: file_ready_def)
  note w = opened_wf [OF o ok] and wo = opened_writer [OF o ok]
  have rd: "set_ready c kb vb"
    using r wo w(3) opened_work_entries [OF o ok]
    by (simp add: set_ready_def search_returns_def file_ready_def)
  have fin: "mapped c' \<and> mwritable c'" if "writer_ok c'" for c'
    using that by (simp add: writer_ok_def writer_def wf_view_def)
  have "shm_path (shm c) = path" "malloc_ok env" using o env by (simp_all add: opened_def calls_ok_def)
  then show ?thesis
    using set_any_key [OF conjunct1 [OF wo] key val rd, of env] wo w(3) fin writer_ok_wf
    by (auto simp: file_history_def set_view_def)
qed

lemma pt_set_existing:
  assumes f: "d path = Some f" "file_ready f kb vb" and env: "calls_ok env" "msync_ok env"
    and key: "cstr key kb" and val: "cstr val vb"
  shows "\<exists>f'. pt_set env junk d path n key val =
       Some (PUPA_OK, set_done, d(path \<mapsto> f')) \<and> file_ok f' \<and>
     file_map f' = (file_map f)(skey kb \<mapsto> take 3 (stored vb # file_history f kb)) \<and>
     file_view f' = set_view f kb vb"
proof -
  have ok: "file_ok f" using f(2) by (simp add: file_ready_def)
  have c0: "ctx_init pupa_ctx_0 = 0" by (simp add: pupa_ctx_0_def)
  obtain c where c: "pupa_init env junk d pupa_ctx_0 path n PUPA_OP_TYPE_RW = Some (PUPA_OK, c, d)"
    "opened c f path True"
    using init_existing [where d = d and path = path and f = f and env = env and c = pupa_ctx_0
        and op = PUPA_OP_TYPE_RW and junk = junk and n = n] f(1) ok env(1) c0 by auto
  obtain c' where c': "pupa_store_set env c key val = Some (pupa_shm_sync env c', c')"
    "mapped c'" "mwritable c'" "shm_path (shm c') = path" "store_wf c'"
    "store_map c' = (file_map f)(skey kb \<mapsto> take 3 (stored vb # file_history f kb))"
    "view_of c' = set_view f kb vb"
    using opened_set [OF c(2) f(2) env(1) key val] by blast
  note mf = maps_fileD [OF maps_ctx_file [OF c'(2)]]
  have "pt_set env junk d path n key val = Some (PUPA_OK, set_done, d(path \<mapsto> ctx_file c'))"
    using c(1) c'(1-4) env(2)
    by (simp add: pt_set_def pupa_set_def pupa_shm_sync_def write_back_def split_beta PUPA_OK_def)
  then show ?thesis using mf c'(5-7) by auto
qed

lemma fresh_ready:
  assumes n: "file_len n < 2 ^ 31"
  shows "file_ready (fresh_file n m) kb vb \<longleftrightarrow>
     length kb + 1 < 2 ^ 31 \<and> length vb + 1 < 2 ^ 31 \<and> has_room (fresh_view n) kb vb"
proof -
  have z: "v_used (file_view (fresh_file n m)) = 0"
    by (simp add: fresh_file_ok(2) [OF n]) (simp add: fresh_view_def)
  show ?thesis
    by (simp add: file_ready_def fresh_file_ok [OF n] left_ok.simps z [unfolded fresh_file_ok(2) [OF n]])
qed

lemma pt_set_fresh:
  assumes new: "empty_path d path" and n: "file_len n < 2 ^ 31" and env: "calls_ok env" "msync_ok env"
    and key: "cstr key kb" and val: "cstr val vb" and room: "has_room (fresh_view n) kb vb"
  shows "\<exists>f'. pt_set env junk d path (W32 n) key val =
       Some (PUPA_OK, set_done, d(path \<mapsto> f')) \<and>
     file_ok f' \<and> file_map f' = [skey kb \<mapsto> [stored vb]] \<and>
     file_view f' = switched (insert_view (fresh_view n) kb vb)"
proof -
  have c0: "ctx_init pupa_ctx_0 = 0" by (simp add: pupa_ctx_0_def)
  obtain c m where c: "pupa_init env junk d pupa_ctx_0 path (W32 n) PUPA_OP_TYPE_RW =
      Some (PUPA_OK, c, d(path \<mapsto> fresh_file n m))" "opened c (fresh_file n m) path True"
    using init_fresh [OF new n env(1) c0] by blast
  have r: "file_ready (fresh_file n m) kb vb"
    using fresh_ready [OF n] cstr_place(5) [OF key] cstr_place(5) [OF val] room by simp
  obtain c' where c': "pupa_store_set env c key val = Some (pupa_shm_sync env c', c')"
    "mapped c'" "mwritable c'" "shm_path (shm c') = path" "store_wf c'"
    "store_map c' = (file_map (fresh_file n m))
       (skey kb \<mapsto> take 3 (stored vb # file_history (fresh_file n m) kb))"
    "view_of c' = set_view (fresh_file n m) kb vb"
    using opened_set [OF c(2) r env(1) key val] by blast
  note mf = maps_fileD [OF maps_ctx_file [OF c'(2)]]
  have "pt_set env junk d path (W32 n) key val = Some (PUPA_OK, set_done, d(path \<mapsto> ctx_file c'))"
    using c(1) c'(1-4) env(2)
    by (simp add: pt_set_def pupa_set_def pupa_shm_sync_def write_back_def split_beta PUPA_OK_def)
  then show ?thesis
    using mf c'(5-7) by (auto simp: fresh_file_ok [OF n] file_history_def set_view_def)
qed

subsection \<open>The get command\<close>

definition c_text :: "byte list \<Rightarrow> byte list" where
  "c_text bs = takeWhile (\<lambda>b. b \<noteq> 0) bs"

lemma c_text_stored: "0 \<notin> set vb \<Longrightarrow> c_text (stored vb) = vb"
  by (induction vb) (auto simp: c_text_def stored_def)

lemma printed_denotes: "denotes c s bs \<Longrightarrow> printed c s = Some (c_text bs)"
  by (auto simp: denotes_def printed_def c_text_def)

lemma printed_cstr: "cstr s bs \<Longrightarrow> printed c s = Some (c_text bs)"
  using cstr_place(3) [of s bs c] cstr_place(4,5) [of s bs] by (simp add: printed_def c_text_def unat_W32)

primrec value_lines :: "nat \<Rightarrow> byte list list \<Rightarrow> byte list" where
  "value_lines i [] = []"
| "value_lines i (v # vs) = value_line i v @ value_lines (i + 1) vs"

lemma printed_all_denotes:
  "list_all2 (denotes c) ss bss \<Longrightarrow> \<forall>bs \<in> set bss. bs \<noteq> [] \<Longrightarrow>
     printed_all c i ss = Some (value_lines i (map c_text bss))"
proof (induction arbitrary: i rule: list_all2_induct)
  case Nil
  then show ?case by simp
next
  case (Cons s ss bs bss)
  have "str_len s \<noteq> 0" using Cons.hyps(1) Cons.prems by (auto simp: denotes_def)
  then show ?case using Cons printed_denotes [OF Cons.hyps(1)] by simp
qed

lemma file_values:
  assumes ok: "file_ok f" and k: "file_map f k = Some vs"
  shows "1 \<le> length vs" "length vs \<le> 3" "\<forall>bs \<in> set vs. bs \<noteq> []"
proof -
  let ?c = "file_ctx f"
  have wv: "wf_view (view_of ?c) ?c" using ok by (simp add: file_ok_def store_wf_def)
  obtain i where i: "i < v_used (view_of ?c)"
    "item_values (mbytes ?c) (i_base (view_of ?c) + 64 * i) = vs"
    using store_map_Some [OF wv] k by (auto simp: file_map_def)
  let ?a = "i_base (view_of ?c) + 64 * i"
  have it: "item_ok (view_of ?c) (mbytes ?c) ?a" by (rule wf_view_item [OF wv i(1)])
  have len: "length vs = unat (val_cnt (rd_item (mbytes ?c) ?a))" using i(2) by auto
  show "1 \<le> length vs" "length vs \<le> 3"
    using it by (simp_all add: item_ok_def Let_def len)
  show "\<forall>bs \<in> set vs. bs \<noteq> []"
  proof
    fix bs
    assume "bs \<in> set vs"
    then obtain r where r: "r < length vs" "bs = vs ! r" by (metis in_set_conv_nth)
    then have "bs = val_bytes (mbytes ?c) (item_val (mbytes ?c) ?a (3 - (r + 1)))"
      using item_values_nth [of "r + 1" "mbytes ?c" ?a] i(2) len by simp
    moreover have "val_ok (view_of ?c) (mbytes ?c) (item_val (mbytes ?c) ?a (3 - (r + 1)))"
      using it r(1) len by (simp add: item_ok_def Let_def)
    ultimately show "bs \<noteq> []" by (auto simp: val_ok_def val_bytes_def dest: arg_cong [of _ _ length])
  qed
qed

lemma pt_get_all:
  assumes f: "d path = Some f" "file_ok f" and env: "calls_ok env" and key: "cstr key kb"
  shows "pt_get env junk d path key 0 =
     Some (if file_map f (skey kb) = None then (PUPA_NOT_FOUND, get_failed (c_text kb), d)
           else (0, got_all (c_text kb) (value_lines 0 (map c_text (file_history f kb))), d))"
proof -
  have c0: "ctx_init pupa_ctx_0 = 0" by (simp add: pupa_ctx_0_def)
  obtain c where c: "pupa_init env junk d pupa_ctx_0 path 0 PUPA_OP_TYPE_RO = Some (PUPA_OK, c, d)"
    "opened c f path False"
    using init_existing [where d = d and path = path and f = f and env = env and c = pupa_ctx_0
        and op = PUPA_OP_TYPE_RO and junk = junk and n = 0] f env c0
    by (auto simp: PUPA_OP_TYPE_RO_def PUPA_OP_TYPE_RW_def)
  note w = opened_wf [OF c(2) f(2)]
  obtain vs where vs: "pupa_store_get_values c key =
      Some (if store_map c (skey kb) = None then PUPA_NOT_FOUND else PUPA_OK, vs, refresh c)"
    "list_all2 (denotes c) vs (case store_map c (skey kb) of None \<Rightarrow> [] | Some bs \<Rightarrow> bs)"
    using get_values_refines [OF w(1) key] by blast
  show ?thesis
  proof (cases "file_map f (skey kb)")
    case None
    then show ?thesis
      using c(1) vs w(2) printed_cstr [OF key]
      by (simp add: pt_get_def pupa_get_all_ver_def return_codes file_history_def)
  next
    case (Some bs)
    note fv = file_values [OF f(2) Some]
    have l: "length vs \<le> 100" using vs(2) Some w(2) fv(2) by (auto dest: list_all2_lengthD)
    have "list_all2 (denotes (refresh c)) vs bs"
      using vs(2) Some w(2) by (simp add: list_all2_conv_all_nth)
    then have "printed_all (refresh c) 0 vs = Some (value_lines 0 (map c_text bs))"
      using printed_all_denotes fv(3) by blast
    then show ?thesis
      using c(1) vs(1) w(2) Some l printed_cstr [OF key]
      by (simp add: pt_get_def pupa_get_all_ver_def file_history_def PUPA_OK_def
          DEFAULT_MAX_VALUE_VER_def)
  qed
qed

text \<open>One version: the output for what \<open>get_spec\<close> says of the file.\<close>

definition get_report :: "byte list \<Rightarrow> int \<times> byte list option \<Rightarrow> int \<times> byte list" where
  "get_report k r =
     (case snd r of None \<Rightarrow> (fst r, get_failed k) | Some bs \<Rightarrow> (0, got_one k (c_text bs)))"

lemma pt_get_spec:
  assumes f: "d path = Some f" "file_ok f" and env: "calls_ok env" and key: "cstr key kb"
    and pos: "1 \<le> sint ver"
  shows "pt_get env junk d path key ver =
     (let (ret, out) = get_report (c_text kb) (get_spec (file_map f (skey kb)) (sint ver))
      in Some (ret, out, d))"
proof -
  have c0: "ctx_init pupa_ctx_0 = 0" by (simp add: pupa_ctx_0_def)
  obtain c where c: "pupa_init env junk d pupa_ctx_0 path 0 PUPA_OP_TYPE_RO = Some (PUPA_OK, c, d)"
    "opened c f path False"
    using init_existing [where d = d and path = path and f = f and env = env and c = pupa_ctx_0
        and op = PUPA_OP_TYPE_RO and junk = junk and n = 0] f env c0
    by (auto simp: PUPA_OP_TYPE_RO_def PUPA_OP_TYPE_RW_def)
  note w = opened_wf [OF c(2) f(2)]
  let ?sp = "get_spec (file_map f (skey kb)) (sint ver)" and
    ?c' = "if 3 < sint ver then c else refresh c"
  obtain v where v: "pupa_store_get c key ver = Some (fst ?sp, v, ?c')" "result_denotes c v (snd ?sp)"
    using get_refines [OF w(1) key pos] w(2) by auto
  have nz: "ver \<noteq> 0" using pos by auto
  have none: "fst ?sp \<noteq> PUPA_OK \<longleftrightarrow> snd ?sp = None"
    by (auto simp: get_spec_def return_codes split: option.splits)
  show ?thesis
  proof (cases "snd ?sp")
    case None
    then show ?thesis
      using c(1) v(1) nz none printed_cstr [OF key]
      by (simp add: pt_get_def pupa_get_by_ver_def get_report_def)
  next
    case (Some bs)
    then obtain s where s: "v = Some s" "denotes c s bs"
      using v(2) by (cases v) (auto simp: result_denotes_def)
    moreover have "denotes ?c' s bs" using s(2) by simp
    ultimately show ?thesis
      using c(1) v(1) nz none Some printed_cstr [OF key] printed_denotes
      by (simp add: pt_get_def pupa_get_by_ver_def get_report_def)
  qed
qed

text \<open>A \<open>set\<close> command that succeeds says so.\<close>

lemma pt_set_done:
  "pt_set env junk d path n key val = Some (PUPA_OK, out, d') \<Longrightarrow> out = set_done"
  by (auto simp: pt_set_def bind_eq_Some_conv split: if_splits)

subsection \<open>A sequence of set commands\<close>

definition tool_put ::
  "pupa_store_hdr \<Rightarrow> string \<Rightarrow> nat \<Rightarrow> disk \<Rightarrow> byte list \<Rightarrow> byte list \<Rightarrow> disk option" where
  "tool_put junk path n d kb vb =
     do {
       (ret, _, d) \<leftarrow> pt_set env_good junk d path (W32 n) (mk_str kb) (mk_str vb);
       if ret = PUPA_OK then Some d else None
     }"

definition tool_history :: "string \<Rightarrow> disk \<Rightarrow> byte list \<Rightarrow> byte list list" where
  "tool_history path d kb =
     (if empty_path d path then [] else file_history (the (d path)) kb)"

definition tool_ready :: "string \<Rightarrow> nat \<Rightarrow> disk \<Rightarrow> byte list \<Rightarrow> byte list \<Rightarrow> bool" where
  "tool_ready path n d kb vb \<longleftrightarrow>
     (if empty_path d path
      then file_len n < 2 ^ 31 \<and> file_ready (fresh_file n (\<lambda>_. 0)) kb vb
      else file_ready (the (d path)) kb vb)"

lemma env_good_ok: "calls_ok env_good" "msync_ok env_good"
  by (simp_all add: calls_ok_def env_good_def)

lemma file_ok_not_empty: "d path = Some f \<Longrightarrow> file_ok f \<Longrightarrow> \<not> empty_path d path"
  using file_ok_size [of f] by (auto simp: empty_path_def file_len_def)

text \<open>What a set command does, on a missing, an empty or an existing file.\<close>

lemma tool_put_eq:
  assumes r: "tool_ready path n d kb vb"
  shows "\<exists>f'. tool_put junk path n d kb vb = Some (d(path \<mapsto> f')) \<and> file_ok f' \<and>
     (\<forall>kb'. file_history f' kb' =
        (if kb' = kb then take 3 (stored vb # tool_history path d kb)
         else tool_history path d kb'))"
proof (cases "empty_path d path")
  case True
  then have n: "file_len n < 2 ^ 31" and fr: "file_ready (fresh_file n (\<lambda>_. 0)) kb vb"
    using r by (simp_all add: tool_ready_def)
  then have s: "cstr (mk_str kb) kb" "cstr (mk_str vb) vb" "has_room (fresh_view n) kb vb"
    by (simp_all add: fresh_ready [OF n] cstr_mk_str)
  obtain f' where "pt_set env_good junk d path (W32 n) (mk_str kb) (mk_str vb) =
      Some (PUPA_OK, set_done, d(path \<mapsto> f'))" "file_ok f'" "file_map f' = [skey kb \<mapsto> [stored vb]]"
    using pt_set_fresh [OF True n env_good_ok s(1,2,3), where junk = junk] by blast
  then show ?thesis
    using True by (intro exI [of _ f'])
      (simp add: tool_put_def tool_history_def file_history_def stored_def)
next
  case False
  then obtain f where f: "d path = Some f"
    by (cases "d path") (auto simp: empty_path_def)
  then have fr: "file_ready f kb vb" using r False by (simp add: tool_ready_def)
  then have s: "cstr (mk_str kb) kb" "cstr (mk_str vb) vb"
    by (simp_all add: file_ready_def cstr_mk_str)
  obtain f' where "pt_set env_good junk d path (W32 n) (mk_str kb) (mk_str vb) =
      Some (PUPA_OK, set_done, d(path \<mapsto> f'))" "file_ok f'"
    "file_map f' = (file_map f)(skey kb \<mapsto> take 3 (stored vb # file_history f kb))"
    using pt_set_existing [where d = d and path = path, OF f fr env_good_ok s,
        where junk = junk and n = "W32 n"] by blast
  then show ?thesis
    using False f by (intro exI [of _ f'])
      (simp add: tool_put_def tool_history_def file_history_def stored_def)
qed

text \<open>The interface \<open>versioned_store\<close> on the model's own definitions: values are kept with
  their terminating zero, so the client's values are the stored ones.\<close>

definition tool_versions :: "string \<Rightarrow> disk \<Rightarrow> byte list \<Rightarrow> byte list list" where
  "tool_versions path d kb = map butlast (tool_history path d kb)"

interpretation tool: versioned_store "tool_put junk path n" "tool_versions path" "tool_ready path n"
  for junk path n
proof
  fix d kb vb
  assume r: "tool_ready path n d kb vb"
  obtain f' where f': "tool_put junk path n d kb vb = Some (d(path \<mapsto> f'))" "file_ok f'"
    "\<And>kb'. file_history f' kb' =
        (if kb' = kb then take 3 (stored vb # tool_history path d kb) else tool_history path d kb')"
    using tool_put_eq [OF r, of junk] by blast
  show "\<exists>d'. tool_put junk path n d kb vb = Some d'" using f'(1) by blast
  fix d'
  assume "tool_put junk path n d kb vb = Some d'"
  then have d': "d' = d(path \<mapsto> f')" using f'(1) by simp
  have "\<not> empty_path d' path" by (rule file_ok_not_empty [of _ _ f']) (simp_all add: d' f'(2))
  then have h: "tool_history path d' kb' = file_history f' kb'" for kb'
    by (simp add: tool_history_def d')
  show "tool_versions path d' kb = take 3 (vb # tool_versions path d kb)"
    by (simp add: tool_versions_def h f'(3) take_map stored_def)
  show "tool_versions path d' kb' = tool_versions path d kb'" if "kb' \<noteq> kb" for kb'
    using that by (simp add: tool_versions_def h f'(3))
qed

primrec set_commands ::
  "pupa_store_hdr \<Rightarrow> string \<Rightarrow> nat \<Rightarrow> disk \<Rightarrow> (byte list \<times> byte list) list \<Rightarrow> disk option" where
  "set_commands junk path n d [] = Some d"
| "set_commands junk path n d (kv # kvs) =
     do { d \<leftarrow> tool_put junk path n d (fst kv) (snd kv); set_commands junk path n d kvs }"

text \<open>Every command finds the room it needs.\<close>

primrec commands_ready ::
  "pupa_store_hdr \<Rightarrow> string \<Rightarrow> nat \<Rightarrow> disk \<Rightarrow> (byte list \<times> byte list) list \<Rightarrow> bool" where
  "commands_ready junk path n d [] \<longleftrightarrow> True"
| "commands_ready junk path n d (kv # kvs) \<longleftrightarrow> tool_ready path n d (fst kv) (snd kv) \<and>
     (case tool_put junk path n d (fst kv) (snd kv) of
        None \<Rightarrow> False | Some d \<Rightarrow> commands_ready junk path n d kvs)"

definition values_set :: "byte list \<Rightarrow> (byte list \<times> byte list) list \<Rightarrow> byte list list" where
  "values_set kb kvs = map snd (filter (\<lambda>kv. fst kv = kb) kvs)"

lemma set_commands_puts: "set_commands junk path n d kvs = tool.puts junk path n d kvs"
  by (induction kvs arbitrary: d) simp_all

lemma commands_ready_all: "commands_ready junk path n d kvs = tool.all_ready junk path n d kvs"
  by (induction kvs arbitrary: d) (simp_all split: option.splits)

lemma values_set_written: "values_set kb kvs = tool.written kb kvs"
  by (simp add: values_set_def tool.written_def)

definition path_ok :: "disk \<Rightarrow> string \<Rightarrow> bool" where
  "path_ok d path \<longleftrightarrow> empty_path d path \<or> (\<exists>f. d path = Some f \<and> file_ok f)"

lemma path_ok_versions: "path_ok d path \<Longrightarrow> length (tool_versions path d kb) \<le> 3"
proof -
  assume p: "path_ok d path"
  show ?thesis
  proof (cases "empty_path d path")
    case True
    then show ?thesis by (simp add: tool_versions_def tool_history_def)
  next
    case False
    then obtain f where f: "d path = Some f" "file_ok f" using p by (auto simp: path_ok_def)
    show ?thesis
      using file_values(2) [OF f(2), of "skey kb"] f False
      by (cases "file_map f (skey kb)")
        (simp_all add: tool_versions_def tool_history_def file_history_def)
  qed
qed

lemma set_commands_ok:
  "path_ok d path \<Longrightarrow> commands_ready junk path n d kvs \<Longrightarrow> set_commands junk path n d kvs = Some d' \<Longrightarrow>
     path_ok d' path"
proof (induction kvs arbitrary: d)
  case Nil
  then show ?case by simp
next
  case (Cons kv kvs)
  then have r: "tool_ready path n d (fst kv) (snd kv)" by simp
  obtain f' where f': "tool_put junk path n d (fst kv) (snd kv) = Some (d(path \<mapsto> f'))" "file_ok f'"
    using tool_put_eq [OF r, of junk] by blast
  then have "path_ok (d(path \<mapsto> f')) path" by (simp add: path_ok_def)
  then show ?case
    by (rule Cons.IH) (use Cons.prems f'(1) in \<open>simp_all del: fun_upd_apply\<close>)
qed

end
