(* ===== verification/Del.thy ===== *)
theory Del
  imports Writer
begin

text \<open>
  \<open>pupa_store_del\<close>. Its pointer arithmetic counts in items of 16 bytes, while an entry takes
  64: the index of the key comes out four times too large, and the bytes behind it are moved
  by 16. What the operation does depends on where the key is.
\<close>

lemma item_diff_entry:
  assumes "b + 64 * i < 2 ^ 63"
  shows "item_diff (W64 (b + 64 * i)) (W64 b) = W64 (4 * i)"
proof -
  have "W64 (b + 64 * i) - W64 b = W64 (64 * i)" by (simp add: W64_def)
  then show ?thesis using assms W64_div [of "64 * i" 16] by (simp add: item_diff_def sizeofs W64_numeral)
qed

text \<open>The search and the decision, on the copied index.\<close>

lemma del_unfold:
  assumes w: "writer s c b" and key: "cstr key kb" and i: "i < v_used s"
    "item_key (mbytes c) (b + 64 * i) = skey kb"
  shows "pupa_store_del env c key =
     do {
       c \<leftarrow> (if 4 * i + 1 < v_used s
             then memcpy (start_ctx s c b) (W64 (i_snap s + 64 * i)) (W64 (i_snap s + 64 * i + 16))
                    (64 * (v_used s - 4 * i + 1))
             else Some (start_ctx s c b));
       c \<leftarrow> switch_items c;
       h \<leftarrow> load_hdr c;
       c \<leftarrow> put_sec_used c item_section_addr (sec_used (item_section h) - 1);
       Some (pupa_shm_sync env c, c)
     }"
proof -
  note st = write_start [OF w key] and v = view_okD [OF writerD(5) [OF w]]
  have lim: "i_snap s + 64 * i < 2 ^ 63" "4 * i + 1 < 2 ^ 63" "v_used s < 2 ^ 31"
    using i(1) v(1,2,3) by (auto simp: areas)
  have lt: "W64 (4 * i) + 1 < W64 (v_used s) \<longleftrightarrow> 4 * i + 1 < v_used s"
    using lim by (simp add: W64_add_one W64_less_iff)
  have len: "unat (64 * (W64 (v_used s) - W64 (4 * i) + 1)) = 64 * (v_used s - 4 * i + 1)"
    if "4 * i + 1 < v_used s"
  proof -
    have "W64 (v_used s) - W64 (4 * i) = W64 (v_used s - 4 * i)" using that by (intro W64_diff) simp
    then have "64 * (W64 (v_used s) - W64 (4 * i) + 1) = W64 (64 * (v_used s - 4 * i + 1))"
      by (simp add: addr_simps)
    then show ?thesis using lim by (simp only:) (intro unat_W64, simp)
  qed
  have id: "item_diff (W64 (i_snap s + 64 * i)) (W64 (i_snap s)) = W64 (4 * i)"
    by (rule item_diff_entry [OF lim(1)])
  show ?thesis
    using st(1) st(3) [OF i] hdr_okD(6) [OF st(2)] lt len
    by (simp add: pupa_store_del_def view_simps id sizeofs W64_add_numeral Let_def cong: if_cong)
qed

lemma del_absent:
  assumes w: "writer s c b" and key: "cstr key kb"
    and new: "skey kb \<notin> fst ` set (entries (mbytes c) b (v_used s))"
  shows "pupa_store_del env c key = Some (PUPA_NOT_FOUND, start_ctx s c b)"
  using write_start [OF w key] new hdr_okD(6) [OF write_start(2) [OF w key]]
  by (simp add: pupa_store_del_def view_simps)

text \<open>The copy of the index is outside what the current index refers to.\<close>

lemma start_ctx_wf:
  assumes w: "writer s c b"
  shows "wf_view s (start_ctx s c b)" "store_map (start_ctx s c b) = store_map c"
proof -
  note d = writerD [OF w] and v = view_okD [OF writerD(5) [OF w]]
  have dis: "i_base s + 64 * v_used s \<le> i_snap s \<or> i_snap s + 64 * v_used s \<le> i_base s"
    "i_snap s + 64 * v_used s \<le> k_base s" "i_snap s + 64 * v_used s \<le> v_base s"
    using v(3) by (auto simp: areas)
  have ix: "index_ok s (mbytes c) (i_base s)" using wf_view_index [OF d(1)] by simp
  note f = index_ok_frame [OF ix, where m' = "snap_bytes s b (mbytes c)" and s' = s,
      OF snap_bytes_outside snap_bytes_outside snap_bytes_outside]
  have "index_ok s (snap_bytes s b (mbytes c)) (i_base s)" by (rule f(1)) (use dis in auto)
  then show wf: "wf_view s (start_ctx s c b)"
    using d(1) by (simp add: wf_view_def snap_bytes_hdr start_ctx_def)
  have "entries (snap_bytes s b (mbytes c)) (i_base s) (v_used s) =
      entries (mbytes c) (i_base s) (v_used s)"
    by (rule f(2)) (use dis in auto)
  then show "store_map (start_ctx s c b) = store_map c"
    by (simp add: store_map_def store_entries_view [OF wf] store_entries_view [OF d(1)])
qed

subsection \<open>The key is in the last three quarters of the index\<close>

definition drop_bytes :: "store_view \<Rightarrow> (nat \<Rightarrow> byte) \<Rightarrow> (nat \<Rightarrow> byte)" where
  "drop_bytes s m = wr64 (switch_bytes s m) 24 (W64 (v_used s - 1))"

definition drop_view :: "store_view \<Rightarrow> store_view" where
  "drop_view s = (switched s)\<lparr>v_used := v_used s - 1\<rparr>"

lemma drop_steps:
  assumes h: "hdr_ok s c" and u: "0 < v_used s" "v_used s < 2 ^ 31"
  shows "do {
       c \<leftarrow> switch_items c;
       h \<leftarrow> load_hdr c;
       c \<leftarrow> put_sec_used c item_section_addr (sec_used (item_section h) - 1);
       Some (pupa_shm_sync env c, c)
     } = Some (pupa_shm_sync env (c\<lparr>mbytes := drop_bytes s (mbytes c)\<rparr>),
               c\<lparr>mbytes := drop_bytes s (mbytes c)\<rparr>)"
    "rd_hdr (drop_bytes s (mbytes c)) = view_hdr (drop_view s)"
proof -
  note sw = switch_step [OF h]
  let ?c1 = "c\<lparr>mbytes := switch_bytes s (mbytes c)\<rparr>"
  have h1: "hdr_ok (switched s) ?c1" by (rule hdr_ok_put [OF h sw(2)]) simp
  have "W64 (v_used s) - 1 = W64 (v_used s - 1)"
    using W64_diff [of 1 "v_used s"] u by (simp add: W64_def)
  then have st: "put_sec_used ?c1 item_section_addr (W64 (v_used s) - 1) =
      Some (c\<lparr>mbytes := drop_bytes s (mbytes c)\<rparr>)"
    using hdr_okD(2-4) [OF h1] st_W64(3) [of 24 ?c1]
    by (simp add: put_sec_used_def section_addrs W64_numeral [symmetric] drop_bytes_def)
  show "do {
       c \<leftarrow> switch_items c;
       h \<leftarrow> load_hdr c;
       c \<leftarrow> put_sec_used c item_section_addr (sec_used (item_section h) - 1);
       Some (pupa_shm_sync env c, c)
     } = Some (pupa_shm_sync env (c\<lparr>mbytes := drop_bytes s (mbytes c)\<rparr>),
               c\<lparr>mbytes := drop_bytes s (mbytes c)\<rparr>)"
    using sw(1) hdr_okD(6) [OF h1] st by (simp add: view_simps)
  show "rd_hdr (drop_bytes s (mbytes c)) = view_hdr (drop_view s)"
    using sw(2) by (simp add: drop_bytes_def drop_view_def mem_simps view_hdr_upd)
qed

lemma index_ok_butlast:
  assumes ix: "index_ok s m b" and s': "s' = s\<lparr>v_used := v_used s - 1\<rparr>"
  shows "index_ok s' m b" "entries m b (v_used s - 1) = butlast (entries m b (v_used s))"
proof -
  show es: "entries m b (v_used s - 1) = butlast (entries m b (v_used s))"
    by (rule nth_equalityI) (simp_all add: nth_butlast)
  have ok: "item_ok s' m a = item_ok s m a" for a
    by (simp add: item_ok_def val_ok_def s')
  have "sorted_wrt (<) (map fst (butlast (entries m b (v_used s))))"
    using index_okD(2) [OF ix] by (simp add: butlast_conv_take take_map [symmetric] sorted_wrt_take)
  then show "index_ok s' m b"
    using index_okD(1) [OF ix] ok by (simp add: index_ok_def s' es del: One_nat_def)
qed

text \<open>Nothing is moved and the last entry of the copy is dropped, whichever the key was.\<close>

lemma del_drops_last:
  assumes w: "writer s c b" and key: "cstr key kb" and i: "i < v_used s"
    "item_key (mbytes c) (b + 64 * i) = skey kb" and tail: "v_used s \<le> 4 * i + 1"
  shows "\<exists>c'. pupa_store_del env c key = Some (pupa_shm_sync env c', c') \<and>
     writer (drop_view s) c' b \<and> shm c' = shm c \<and>
     store_entries c' = butlast (entries (mbytes c) b (v_used s))"
proof -
  note d = writerD [OF w] and st = write_start [OF w key]
  note v = view_okD [OF d(5)]
  let ?c1 = "start_ctx s c b"
  let ?m2 = "drop_bytes s (snap_bytes s b (mbytes c))"
  let ?c2 = "?c1\<lparr>mbytes := ?m2\<rparr>"
  let ?s1 = "s\<lparr>v_used := v_used s - 1\<rparr>"
  have u: "0 < v_used s" "v_used s < 2 ^ 31" using i(1) v(1,2) by auto
  note dr = drop_steps [OF st(2) u]
  have set: "pupa_store_del env c key = Some (pupa_shm_sync env ?c2, ?c2)"
    using del_unfold [OF w key i, of env] tail dr(1) [of env] by simp
  note sn = snapshot_entries [OF d(5,4)]
  have fr: "?m2 x = snap_bytes s b (mbytes c) x" if "128 \<le> x" for x
    using that by (simp add: drop_bytes_def switch_bytes_def mem_simps)
  have lo: "128 \<le> item_area_at (v_keys s) one" "128 \<le> k_base s" "128 \<le> v_base s" for one
    by (simp_all add: areas)
  have sel: "k_base (drop_view s) = k_base s" "v_base (drop_view s) = v_base s"
    "v_used (drop_view s) = v_used s - 1" "v_key_used (drop_view s) = v_key_used s"
    "v_val_used (drop_view s) = v_val_used s" "v_keys (drop_view s) = v_keys s"
    "v_item_one (drop_view s) \<longleftrightarrow> \<not> v_item_one s"
    by (simp_all add: drop_view_def)
  have keep: "index_ok (drop_view s) ?m2 a \<and> entries ?m2 a (v_used s - 1) = butlast (entries m a (v_used s))"
    if a: "index_ok s m a" "128 \<le> a" and m: "\<And>x. x < a + 64 * v_used s \<and> a \<le> x \<or> k_base s \<le> x \<Longrightarrow>
      128 \<le> x \<Longrightarrow> snap_bytes s b (mbytes c) x = m x" for a m
  proof -
    note bl = index_ok_butlast [OF a(1) refl]
    have kv: "k_base s \<le> v_base s" using v(1) by (auto simp: areas)
    have fr2: "?m2 x = m x" if "x < a + 64 * v_used s \<and> a \<le> x \<or> k_base s \<le> x" "128 \<le> x" for x
      using fr [of x] m [of x] that by simp
    note f = index_ok_frame [OF bl(1), where m' = ?m2 and s' = "drop_view s", OF fr2 fr2 fr2]
    have "index_ok (drop_view s) ?m2 a"
      by (rule f(1)) (use a(2) lo kv sel in auto)
    moreover have "entries ?m2 a (v_used ?s1) = entries m a (v_used ?s1)"
      by (rule f(2)) (use a(2) lo kv sel in auto)
    ultimately show ?thesis using bl(2) by simp
  qed
  have new: "index_ok (drop_view s) ?m2 (i_snap s) \<and>
      entries ?m2 (i_snap s) (v_used s - 1) = butlast (entries (mbytes c) b (v_used s))"
    using keep [OF sn(1) lo(1)] sn(2) by simp
  have dis: "i_base s + 64 * v_used s \<le> i_snap s \<or> i_snap s + 64 * v_used s \<le> i_base s"
    "i_snap s + 64 * v_used s \<le> k_base s"
    using v(3) by (auto simp: areas)
  have old: "index_ok (drop_view s) ?m2 b" if "b = i_base s"
  proof -
    have "snap_bytes s b (mbytes c) x = mbytes c x"
      if "x < b + 64 * v_used s \<and> b \<le> x \<or> k_base s \<le> x" for x
      using that dis \<open>b = i_base s\<close> by (intro snap_bytes_outside) auto
    then show ?thesis using keep [OF d(4)] lo(1) that by blast
  qed
  have vd: "view_ok (drop_view s)" using d(5) by (auto simp: view_ok_def sel)
  have wf: "wf_view (drop_view s) ?c2"
    using st(2) dr(2) vd new by (simp add: wf_view_def hdr_ok_def sel start_ctx_def)
  have wr: "writer (drop_view s) ?c2 b"
    using wf d(2,3) w old new by (auto simp: writer_def sel start_ctx_def)
  have "store_entries ?c2 = butlast (entries (mbytes c) b (v_used s))"
    using new by (simp add: store_entries_view [OF wf] sel)
  then show ?thesis
    using set wr by (intro exI [of _ ?c2]) (simp add: start_ctx_def)
qed

subsection \<open>The key is in the first quarter of the index\<close>

text \<open>
  The bytes behind the key's entry move down by 16, so the entry's first value record is
  read as the next entry.
\<close>

lemma del_shifts:
  assumes w: "writer s c b" and key: "cstr key kb" and i: "i < v_used s"
    "item_key (mbytes c) (b + 64 * i) = skey kb" and head: "4 * i + 1 < v_used s"
  shows "\<exists>c'. pupa_store_del env c key = Some (pupa_shm_sync env c', c') \<and>
     view_of c' = drop_view s \<and>
     key_offset (rd_item (mbytes c') (i_base (drop_view s) + 64 * i)) =
       value_offset (item_val (mbytes c) (b + 64 * i) 0) \<and>
     key_len (rd_item (mbytes c') (i_base (drop_view s) + 64 * i)) =
       value_len (item_val (mbytes c) (b + 64 * i) 0)"
proof -
  note d = writerD [OF w] and st = write_start [OF w key] and v = view_okD [OF writerD(5) [OF w]]
  let ?a = "i_snap s + 64 * i" and ?n = "64 * (v_used s - 4 * i + 1)"
  let ?m1 = "snap_bytes s b (mbytes c)"
  let ?m2 = "put_bytes ?m1 ?a (bytes_at ?m1 (?a + 16) ?n)"
  let ?c2 = "(start_ctx s c b)\<lparr>mbytes := ?m2\<rparr>"
  let ?m3 = "drop_bytes s ?m2"
  let ?c3 = "?c2\<lparr>mbytes := ?m3\<rparr>"
  have fit: "?a + 16 + ?n \<le> file_len (v_keys s)" using head v(2,3) by (auto simp: areas)
  have cp: "memcpy (start_ctx s c b) (W64 ?a) (W64 (?a + 16)) ?n = Some ?c2"
    using fit st(2) by (simp add: memcpy_W64 hdr_ok_def)
  have lo: "128 \<le> ?a" by (simp add: areas)
  have h2: "hdr_ok s ?c2"
    by (rule hdr_ok_put [OF st(2)]) (use hdr_okD(5) [OF st(2)] lo in \<open>simp_all add: mem_simps\<close>)
  have u: "0 < v_used s" "v_used s < 2 ^ 31" using i(1) v(1,2) by auto
  note dr = drop_steps [OF h2 u]
  have set: "pupa_store_del env c key = Some (pupa_shm_sync env ?c3, ?c3)"
    using del_unfold [OF w key i, of env] head cp dr(1) [of env] by simp
  have bytes: "?m3 (?a + k) = mbytes c (b + 64 * i + 16 + k)" if "k < 16" for k
  proof -
    have "?m3 (?a + k) = ?m2 (?a + k)"
      using lo by (simp add: drop_bytes_def switch_bytes_def mem_simps)
    also have "\<dots> = ?m1 (?a + (16 + k))" using that head by (simp add: put_bytes_inside add.assoc)
    also have "\<dots> = mbytes c (b + 64 * i + (16 + k))"
      using that i(1) by (intro snap_bytes_slot) simp_all
    finally show ?thesis by (simp add: add.assoc)
  qed
  have part: "bytes_at ?m3 (?a + k) l = bytes_at (mbytes c) (b + 64 * i + 16 + k) l"
    if "k + l \<le> 16" for k l
    using bytes that by (intro nth_equalityI) (simp_all add: add.assoc)
  have "rd64 ?m3 ?a = rd64 (mbytes c) (b + 64 * i + 16)"
    "rd32 ?m3 (?a + 8) = rd32 (mbytes c) (b + 64 * i + 16 + 8)"
    using part [of 0 8] part [of 8 4] by (simp_all add: rd64_def rd32_def)
  moreover have "view_of ?c3 = drop_view s"
  proof (rule view_of_hdr)
    show "rd_hdr (mbytes ?c3) = view_hdr (drop_view s)" using dr(2) by simp
  qed (use v in \<open>auto simp: drop_view_def\<close>)
  ultimately show ?thesis
    using set by (intro exI [of _ ?c3])
      (simp add: rd_item_def item_val_def rd_item_val_def drop_view_def)
qed

lemma del_breaks:
  assumes w: "writer s c b" and key: "cstr key kb" and i: "i < v_used s"
    "item_key (mbytes c) (b + 64 * i) = skey kb" and head: "4 * i + 1 < v_used s"
    and rec: "unat (val_cnt (rd_item (mbytes c) (b + 64 * i))) = 3 \<or>
      value_len (item_val (mbytes c) (b + 64 * i) 0) = 0"
  shows "\<exists>c'. pupa_store_del env c key = Some (pupa_shm_sync env c', c') \<and> \<not> store_wf c'"
proof -
  note d = writerD [OF w] and v = view_okD [OF writerD(5) [OF w]]
  obtain c' where c': "pupa_store_del env c key = Some (pupa_shm_sync env c', c')"
    "view_of c' = drop_view s"
    "key_offset (rd_item (mbytes c') (i_base (drop_view s) + 64 * i)) =
       value_offset (item_val (mbytes c) (b + 64 * i) 0)"
    "key_len (rd_item (mbytes c') (i_base (drop_view s) + 64 * i)) =
       value_len (item_val (mbytes c) (b + 64 * i) 0)"
    using del_shifts [OF w key i head, of env] by blast
  have ok: "item_ok s (mbytes c) (b + 64 * i)" using index_okD(1) [OF d(4)] i(1) by simp
  have "\<not> item_ok (drop_view s) (mbytes c') (i_base (drop_view s) + 64 * i)"
  proof
    assume ok': "item_ok (drop_view s) (mbytes c') (i_base (drop_view s) + 64 * i)"
    let ?v = "item_val (mbytes c) (b + 64 * i) 0"
    have k: "unat (value_offset ?v) + unat (value_len ?v) \<le> k_base s + v_key_used s"
      "1 \<le> unat (value_len ?v)"
      using ok' c'(3,4) by (simp_all add: item_ok_def Let_def) (simp_all add: drop_view_def)
    then have "unat (val_cnt (rd_item (mbytes c) (b + 64 * i))) = 3" using rec by auto
    then have "val_ok s (mbytes c) ?v" using ok by (simp add: item_ok_def Let_def)
    then have "v_base s \<le> unat (value_offset ?v)" by (simp add: val_ok_def)
    moreover have "k_base s + v_key_used s \<le> v_base s" using v(4) by (auto simp: areas)
    ultimately show False using k by simp
  qed
  moreover have "i < v_used (drop_view s)" using head by (simp add: drop_view_def)
  ultimately have "\<not> store_wf c'"
    using wf_view_item [of "drop_view s" c' i] c'(2) by (auto simp: store_wf_def)
  then show ?thesis using c'(1) by blast
qed

end
