(* ===== verification/Edges.thy ===== *)
theory Edges
  imports Tool Del
begin

text \<open>
  Behaviour at the edges: read-only mappings, a full store, version 0, an initialisation that
  stops half way, and a reader that looks into the file while a key is being added.
\<close>

subsection \<open>Writing through a read-only mapping\<close>

lemma snapshot_read_only:
  assumes wf: "store_wf c" and ro: "\<not> mwritable c" and u: "0 < v_used (view_of c)"
  shows "pupa_store_item_make_snapshot c = None"
proof -
  have wv: "wf_view (view_of c) c" using wf by (simp add: store_wf_def)
  have "v_used (view_of c) < 2 ^ 64" using wf_viewD(3,5) [OF wv] by simp
  then have "W64 (v_used (view_of c)) \<noteq> 0" using u by (simp add: W64_eq_0)
  moreover have "memcpy c d a n = None" for d a n
    using ro by (simp add: memcpy_def stn_def bind_NoneI)
  ultimately show ?thesis
    by (simp add: pupa_store_item_make_snapshot_def load_hdr_wf [OF wv] view_simps)
qed

subsection \<open>A store with no entry left\<close>

lemma item_add_full:
  assumes h: "hdr_ok s c" and full: "v_used s = v_keys s"
  shows "pupa_store_item_add c item key val = Some (PUPA_OVERFLOW, c)"
  using full by (simp add: pupa_store_item_add_def hdr_okD(6) [OF h] view_simps)

lemma set_full:
  assumes w: "writer s c b" and key: "cstr key kb" and full: "v_used s = v_keys s"
    and new: "skey kb \<notin> fst ` set (entries (mbytes c) b (v_used s))"
  shows "pupa_store_set env c key val = Some (PUPA_OVERFLOW, start_ctx s c b)"
proof -
  note st = write_start [OF w key]
  show ?thesis
    using st(1) st(4) [OF new] hdr_okD(6) [OF st(2)] item_add_full [OF st(2) full]
    by (simp add: pupa_store_set_def view_simps return_codes)
qed

lemma writer_full_small:
  assumes "writer s c b" "v_used s = v_keys s"
  shows "v_keys s \<le> 1"
  using view_okD(3) [OF writerD(5) [OF assms(1)]] assms(2) by simp

text \<open>
  A value that does not fit into an empty value section: the compaction has nothing to move and
  fails, but the key has been stored by then.
\<close>

lemma set_value_too_long:
  assumes w: "writer s c b" and key: "cstr key kb" and val: "cstr val vb"
    and empty: "v_used s = 0" "0 < v_keys s"
    and kr: "v_key_used s + length kb + 1 \<le> 64 * v_keys s" and long: "256 * v_keys s \<le> length vb"
  shows "\<exists>c'. pupa_store_set env c key val = Some (PUPA_OVERFLOW, c') \<and>
     wf_view (s\<lparr>v_key_used := v_key_used s + length kb + 1\<rparr>) c'"
proof -
  let ?c1 = "start_ctx s c b" and ?s2 = "s\<lparr>v_key_used := v_key_used s + length kb + 1\<rparr>"
  let ?c2 = "?c1\<lparr>mbytes := add_key_bytes s (i_snap s) kb (snap_bytes s b (mbytes c))\<rparr>"
  note st = write_start [OF w key] and d = writerD [OF w]
  have a: "128 \<le> i_snap s" "i_snap s + 64 \<le> k_base s" using empty(2) by (auto simp: areas)
  note f = add_key_bytes_facts [OF a cstr_place(5) [OF key] hdr_okD(5) [OF st(2)]]
  have h2: "hdr_ok ?s2 ?c2" by (rule hdr_ok_put [OF st(2) f(1) [unfolded start_ctx_sel]]) simp
  note kp = key_place_step [OF st(2) kr key] and ak = item_add_key_step [OF st(2) a kr key, unfolded start_ctx_sel]
  have l: "(scast (str_len val + 1) :: size_t) = W64 (length vb + 1)"
    using cstr_place(4,5) [OF val] by (simp add: W32_add_one scast_32_64)
  have k: "256 * v_keys s < 2 ^ 31" "v_val_used s \<le> 256 * v_keys s" using hdr_okD(4) [OF st(2)] view_okD(5) [OF d(5)] by simp_all
  have vl: "length vb + 1 < 2 ^ 31" by (rule cstr_place(5) [OF val])
  have full: "W64 (256 * v_keys s) < W64 (v_val_used s) + W64 (length vb + 1)"
    "W64 (256 * v_keys s) < W64 (length vb + 1)"
    using k vl long by (simp_all add: W64_add W64_less_iff)
  have cv: "compact_values ?c2 p off 0 0 = Some (?c2, 0)" for p off
    using empty(1) by (simp add: compact_values.simps hdr_okD(6) [OF h2] view_simps W64_zero [symmetric])
  have "value_place ?c2 val = Some (PUPA_OVERFLOW, None, PUPA_STORE_GET_SNAPSHOT_OFFSET (value_section (view_hdr ?s2)), ?c2)"
    using full cv by (simp add: value_place_def pupa_store_value_compaction_def hdr_okD(6) [OF h2] view_simps l Let_def)
  moreover have "W64 0 \<noteq> W64 (v_keys s)" using empty(2) k by (simp add: W64_eq_iff)
  ultimately have "pupa_store_item_add ?c1 (W64 (i_snap s)) key val = Some (PUPA_OVERFLOW, ?c2)"
    using kp ak empty(1) by (simp add: pupa_store_item_add_def hdr_okD(6) [OF st(2)] view_simps)
  moreover have "skey kb \<notin> fst ` set (entries (mbytes c) b (v_used s))" using empty(1) by (simp add: entries_def)
  moreover have "W64 (i_snap s) + W64 0 * 64 = W64 (i_snap s)" by (simp add: addr_simps)
  ultimately have "pupa_store_set env c key val = Some (PUPA_OVERFLOW, ?c2)"
    using st(1) st(4) hdr_okD(6) [OF st(2)] empty(1)
    by (simp add: pupa_store_set_def view_simps return_codes)
  moreover have "wf_view ?s2 ?c2"
    using h2 d(5) kr empty by (simp add: wf_view_def hdr_ok_def view_ok_def index_ok_def entries_def)
  ultimately show ?thesis by blast
qed

subsection \<open>Version 0\<close>

text \<open>
  The record \<open>pupa_get\<close> reads is the one behind the versions of the key: the beginning of
  the next entry, that is the place and length of the next key.
\<close>

lemma next_record:
  "rd_item_val m (a + 64) =
     \<lparr>value_offset = key_offset (rd_item m (a + 64)), value_len = key_len (rd_item m (a + 64))\<rparr>"
  by (simp add: rd_item_val_def rd_item_def)

lemma key_denotes:
  assumes wf: "wf_view s c" and i: "i < v_used s"
  defines "it \<equiv> rd_item (mbytes c) (i_base s + 64 * i)"
  shows "denotes c \<lparr>str_len = key_len it, str_data = Off (key_offset it)\<rparr>
     (key_bytes (item_key (mbytes c) (i_base s + 64 * i)))"
  using wf_view_item [OF wf i] wf_viewD(2,7) [OF wf]
  by (auto simp: denotes_def cptr_bytes_def ldn_def in_map_def item_key_def item_ok_def Let_def areas
      it_def split: if_splits)

lemma get_version_0:
  assumes wf: "store_wf c" and key: "cstr key kb"
    and i: "i + 1 < length (store_entries c)" "fst (store_entries c ! i) = skey kb"
  shows "\<exists>v. pupa_get c key = Some (PUPA_OK, Some v, refresh c) \<and>
     denotes (refresh c) v (key_bytes (fst (store_entries c ! (i + 1))))"
proof -
  let ?s = "view_of c"
  have wv: "wf_view ?s c" using wf by (simp add: store_wf_def)
  have i': "i < v_used ?s" "i + 1 < v_used ?s" "item_key (mbytes c) (i_base ?s + 64 * i) = skey kb"
    using i by (simp_all add: store_entries_view [OF wv] entry_def)
  have a: "i_base ?s + 64 * i + 64 = i_base ?s + 64 * (i + 1)" by simp
  have "pupa_store_get c key (W32 0) =
      Some (PUPA_OK, Some \<lparr>str_len = key_len (rd_item (mbytes c) (i_base ?s + 64 * (i + 1))),
        str_data = Off (key_offset (rd_item (mbytes c) (i_base ?s + 64 * (i + 1))))\<rparr>, refresh c)"
    using get_hit [OF wv key i'(1,3), of 0] next_record [of "mbytes c" "i_base ?s + 64 * i"]
    by (simp add: Let_def a)
  then show ?thesis
    using key_denotes [OF wv i'(2)] i'(2)
    by (simp add: pupa_get_def W32_zero store_entries_view [OF wv] entry_def)
qed

subsection \<open>Closing, reopening, and opening twice\<close>

lemma unmapped_faults:
  assumes "\<not> mapped c"
  shows "pupa_store_get c key ver = None" "pupa_store_get_values c key = None"
    "pupa_store_set env c key val = None" "pupa_store_del env c key = None"
    "pupa_store_stats c = None"
  using assms
  by (simp_all add: load_hdr_def pupa_store_get_def pupa_store_get_values_def pupa_store_set_def
      pupa_store_del_def pupa_store_stats_def pupa_store_item_make_snapshot_def)

subsection \<open>An initialisation that stops after the file got its size\<close>

lemma init_mmap_fails:
  assumes d: "d path = None" and n: "file_len n < 2 ^ 31" and c: "ctx_init c = 0"
    and env: "malloc_ok env" "open_ok env" "fstat_ok env" "ftruncate_ok env" "\<not> mmap_ok env"
  shows "\<exists>c'. pupa_init env junk d c path (W32 n) PUPA_OP_TYPE_RW =
     Some (PUPA_ERROR, c', d(path \<mapsto> \<lparr>file_size = file_len n, file_bytes = (\<lambda>_. 0)\<rparr>))"
proof -
  have total: "layout_total n 3 < 2 ^ 31" using n by (simp add: layout_total_3)
  have ini: "pupa_store_init (W32 n) 3 = (W32 (file_len n), layout_hdr n 3)"
    using pupa_store_init_eq [OF total] by (simp add: W32_numeral layout_total_3)
  have sz: "(scast (W32 (file_len n)) :: size_t) = W64 (file_len n)"
    "\<not> sint (W64 (file_len n)) < 0" "unat (W64 (file_len n)) = file_len n"
    using n by (simp_all add: scast_32_64 sint_W64 unat_W64)
  show ?thesis
    using env c d
    by (simp add: pupa_init_def pupa_shm_init_def pupa_shm_init_rw_def open_create_def
        empty_file_def split_beta Let_def ini sz PUPA_OP_TYPE_RW_def PUPA_OP_TYPE_RO_def)
qed

definition zero_hdr :: pupa_store_hdr where
  "zero_hdr =
     (let z = \<lparr>sec_id = 0, sec_size = 0, sec_used = 0, sec1_offset = 0, sec2_offset = 0\<rparr>
      in \<lparr>max_ver_num = 0, item_section = z, key_section = z, value_section = z\<rparr>)"

lemma rd_hdr_zero: "rd_hdr (\<lambda>_. 0) = zero_hdr"
proof -
  have "bytes_at (\<lambda>_. 0) a 8 = replicate 8 0" "bytes_at (\<lambda>_. 0) a 4 = replicate 4 0" for a
    by (rule nth_equalityI; simp)+
  then show ?thesis
    by (simp add: rd_hdr_def rd_section_def rd8_def rd32_def rd64_def zero_hdr_def
        Let_def numeral_eq_Suc)
qed

lemma zero_file_set:
  assumes m: "mapped c" "mbytes c = (\<lambda>_. 0)" "sizeof_hdr \<le> msize c"
  shows "\<exists>c'. pupa_store_set env c key val = Some (PUPA_OVERFLOW, c') \<and> mbytes c' = mbytes c"
proof -
  have h: "load_hdr c = Some zero_hdr" "load_hdr (c\<lparr>store_items_snapshot := x\<rparr>) = Some zero_hdr" for x
    using m by (simp_all add: load_hdr_def rd_hdr_zero)
  have z: "sec_used (item_section zero_hdr) = 0" "sec_size (item_section zero_hdr) = 0"
    by (simp_all add: zero_hdr_def Let_def)
  have sn: "pupa_store_item_make_snapshot c =
      Some (c\<lparr>store_items_snapshot := PUPA_STORE_GET_SNAPSHOT_ADDR (item_section zero_hdr)\<rparr>)"
    by (simp add: pupa_store_item_make_snapshot_def h z)
  have "bsearch cmp base 0 sz = Some None" for cmp base sz
    by (simp add: bsearch_def bsearch_loop.simps)
  then show ?thesis
    by (simp add: pupa_store_set_def sn h z pupa_store_item_add_def return_codes)
qed

lemma open_zero_file:
  assumes f: "d path = Some f" "file_bytes f = (\<lambda>_. 0)" "sizeof_hdr \<le> file_size f" "file_size f < 2 ^ 63"
    and env: "calls_ok env" and c: "ctx_init c = 0"
  shows "\<exists>c'. pupa_init env junk d c path n PUPA_OP_TYPE_RW = Some (PUPA_OK, c', d) \<and>
     mapped c' \<and> mbytes c' = (\<lambda>_. 0) \<and> msize c' = file_size f"
proof -
  have sz: "file_size f \<noteq> 0" "W64 (file_size f) \<noteq> 0"
    using f(3,4) by (auto simp: sizeof_hdr_def W64_eq_0)
  have ops: "PUPA_OP_TYPE_RW \<noteq> PUPA_OP_TYPE_RO" "PUPA_OK \<noteq> PUPA_ERROR"
    by (simp_all add: PUPA_OP_TYPE_RO_def PUPA_OP_TYPE_RW_def return_codes)
  have fe: "\<lparr>file_size = file_size f, file_bytes = (\<lambda>_. 0)\<rparr> = f" using f(2) by simp
  show ?thesis
    using f env c sz ops fe
    by (simp add: pupa_init_def pupa_shm_init_def pupa_shm_init_rw_def calls_ok_def open_create_def
        map_file_def split_beta Let_def init_items_def load_hdr_def write_back_def ctx_file_def
        fun_upd_idem)
qed

subsection \<open>A reader between two steps of an insertion\<close>

text \<open>
  \<open>pupa_store_set\<close> up to \<open>p_item_section->used++\<close>: the new count is in the header, the section
  \<open>id\<close> still selects the index without the new entry. There is no such point (\<open>None\<close>) when the
  key is found or \<open>pupa_store_item_add\<close> fails.
\<close>

definition set_counted :: "pupa_ctx \<Rightarrow> pupa_str \<Rightarrow> pupa_str \<Rightarrow> pupa_ctx option" where
  "set_counted c key val =
     do {
       c \<leftarrow> pupa_store_item_make_snapshot c;
       h \<leftarrow> load_hdr c;
       let stride = item_stride h;
       found \<leftarrow> bsearch (pupa_store_item_compare c (probe key)) (store_items_snapshot c)
                  (sec_used (item_section h)) stride;
       case found of
         Some p \<Rightarrow> None
       | None \<Rightarrow>
           do {
             (ret, c) \<leftarrow> pupa_store_item_add c
               (store_items_snapshot c + sec_used (item_section h) * stride) key val;
             if ret \<noteq> PUPA_OK then None
             else
               do {
                 h \<leftarrow> load_hdr c;
                 put_sec_used c item_section_addr (sec_used (item_section h) + 1)
               }
           }
     }"

lemma set_counted_new:
  assumes w: "writer s c b" and key: "cstr key kb" and c2: "set_counted c key val = Some c2"
  shows "skey kb \<notin> fst ` set (entries (mbytes c) b (v_used s))"
proof
  assume "skey kb \<in> fst ` set (entries (mbytes c) b (v_used s))"
  then obtain i where "i < v_used s" "item_key (mbytes c) (b + 64 * i) = skey kb"
    by (auto simp: in_set_conv_nth entry_def)
  note st = write_start [OF w key] and this
  then show False
    using c2 st(1) st(3) hdr_okD(6) [OF st(2)] by (simp add: set_counted_def view_simps)
qed

lemma set_counted_eq:
  assumes w: "writer s c b" and key: "cstr key kb" and val: "cstr val vb"
    and room: "has_room s kb vb"
    and new: "skey kb \<notin> fst ` set (entries (mbytes c) b (v_used s))"
  shows "set_counted c key val =
       Some ((start_ctx s c b)\<lparr>mbytes := appended_bytes s b kb vb (mbytes c)\<rparr>)"
    "hdr_ok (insert_view s kb vb) ((start_ctx s c b)\<lparr>mbytes := appended_bytes s b kb vb (mbytes c)\<rparr>)"
proof -
  note st = write_start [OF w key] and d = writerD [OF w]
  let ?a = "i_snap s + 64 * v_used s"
  let ?c2 = "(start_ctx s c b)\<lparr>mbytes := add_bytes s ?a kb vb (snap_bytes s b (mbytes c))\<rparr>"
  have a: "128 \<le> ?a" "?a + 64 \<le> k_base s" "?a + 64 \<le> v_base s"
    using room by (auto simp: has_room_def areas)
  have add: "pupa_store_item_add (start_ctx s c b) (W64 ?a) key val = Some (PUPA_OK, ?c2)"
    using item_add_step [OF st(2) room a key val] by simp
  have at: "W64 (i_snap s) + W64 (v_used s) * 64 = W64 ?a"
    by (simp add: addr_simps mult.commute)
  note cs = count_step [OF w key room refl refl]
  show "set_counted c key val =
       Some ((start_ctx s c b)\<lparr>mbytes := appended_bytes s b kb vb (mbytes c)\<rparr>)"
    using st(1) st(4) [OF new] hdr_okD(6) [OF st(2)] add cs(2-4)
    by (simp add: set_counted_def view_simps at)
  show "hdr_ok (insert_view s kb vb) ((start_ctx s c b)\<lparr>mbytes := appended_bytes s b kb vb (mbytes c)\<rparr>)"
    by (rule cs(5))
qed

lemma appended_frame:
  assumes w: "writer s c b" and room: "has_room s kb vb"
    and x: "i_base s \<le> x" "x < i_base s + 64 * v_used s + 16"
  shows "appended_bytes s b kb vb (mbytes c) x = mbytes c x"
proof -
  have "untouched s kb vb x"
    using x room by (auto simp: untouched_def has_room_def areas split: if_splits)
  then show ?thesis by (rule appended_untouched [OF w room])
qed

text \<open>
  A search through two slots of which the second was never used: it looks at the second first,
  and goes on to the right of it.
\<close>

lemma empty_slot_search:
  assumes sz: "a + 76 \<le> msize r" "msize r < 2 ^ 31" and len: "rd32 (mbytes r) (a + 72) = 0"
    and probe: "cstr key0 kb0"
  shows "bsearch (pupa_store_item_compare r (probe key0)) (W64 a) (W64 2) 64 = Some None"
proof -
  note kp = cstr_place [OF probe]
  have ad: "W64 a + W64 1 * 64 = W64 (a + 64)" "W64 (a + 64) + 8 = W64 (a + 72)"
    by (simp_all add: addr_simps add.commute)
  have "ld32 r (W64 (a + 72)) = Some 0"
    using sz len by (simp add: acc_W64)
  moreover have "str_len key0 + 1 = W32 (length kb0 + 1)" using kp(4) by (simp add: W32_add_one)
  moreover have sg: "sint (W32 (length kb0 + 1)) = int (length kb0 + 1)"
    using kp(5) by (intro sint_W32) simp
  moreover have "W32 (length kb0 + 1) \<noteq> 0"
  proof
    assume "W32 (length kb0 + 1) = 0"
    then show False using sg by simp
  qed
  ultimately have cmp: "pupa_store_item_compare r (probe key0) (W64 (a + 64)) = Some (W32 (length kb0 + 1))"
    by (simp add: pupa_store_item_compare_def pupa_store_item_compare_arg_def probe_def ad(2))
  show ?thesis using cmp sg ad(1) by (simp add: bsearch_def unat_W64 bsearch_loop.simps)
qed

lemma reader_misses:
  assumes w: "writer s c b" and key: "cstr key kb" and val: "cstr val vb"
    and room: "has_room s kb vb" and one: "v_used s = 1"
    and slot: "key_len (rd_item (mbytes c) (i_base s + 64)) = 0"
    and c2: "set_counted c key val = Some c2"
    and r: "mapped r" "mbytes r = mbytes c2" "msize r = msize c2"
    and probe: "cstr key0 kb0" and ver: "sint ver \<le> 3"
  shows "\<exists>r'. pupa_store_get r key0 ver = Some (PUPA_NOT_FOUND, None, r')"
proof -
  let ?s3 = "insert_view s kb vb" and ?m = "appended_bytes s b kb vb (mbytes c)"
  note sc = set_counted_eq [OF w key val room set_counted_new [OF w key c2]]
  note h = hdr_okD [OF sc(2)]
  have "c2 = (start_ctx s c b)\<lparr>mbytes := ?m\<rparr>" using c2 sc(1) by simp
  then have rm: "mbytes r = ?m" and rs: "msize r = 224 + 672 * v_keys s"
    using r h(3) by simp_all
  have lh: "load_hdr r = Some (view_hdr ?s3)"
    using r(1) rm rs h(5) by (simp add: load_hdr_def sizeof_hdr_def)
  let ?r1 = "r\<lparr>store_items := W64 (i_base s)\<rparr>" and ?a = "i_base s + 64"
  have "rd32 ?m (?a + 8) = rd32 (mbytes c) (?a + 8)"
    using appended_frame [OF w room] one
    by (auto simp: rd32_def intro!: arg_cong [where f = word_of_nat] arg_cong [where f = le_val]
        bytes_at_cong)
  then have len: "rd32 (mbytes ?r1) (i_base s + 72) = 0" using slot rm by (simp add: rd_item_def add.commute)
  have fit: "i_base s + 76 \<le> msize ?r1" "msize ?r1 < 2 ^ 31"
    using rs h(4) room one by (auto simp: has_room_def areas)
  note empty_slot_search [OF fit len probe]
  moreover have "\<not> 3 < sint ver" "sint (W32 3) = 3" using ver by (simp_all add: sint_W32)
  ultimately show ?thesis
    using lh one by (simp add: pupa_store_get_def view_simps numeral_2_eq_2 Let_def)
qed

end
