(* ===== verification/Wrap.thy ===== *)
theory Wrap
  imports Edges
begin

text \<open>
  Numbers of keys for which the layout does not fit into an \<open>int\<close>: what \<open>pupa_store_init\<close>
  computes then, and what \<open>pupa_init\<close> makes of it.
\<close>

subsection \<open>The layout, whatever the number of keys\<close>

lemma init_wraps:
  assumes n: "n < 2 ^ 31"
  shows "pupa_store_init (W32 n) 3 =
    (W32 (layout_total n 3),
     \<lparr>max_ver_num = 3,
      item_section = \<lparr>sec_id = 1, sec_size = W64 n, sec_used = 0, sec1_offset = W64 128,
        sec2_offset = scast (W32 (176 + 16 * n))\<rparr>,
      key_section = \<lparr>sec_id = 1, sec_size = scast (W32 (64 * n)), sec_used = 0,
        sec1_offset = scast (W32 (224 + 32 * n)), sec2_offset = scast (W32 (224 + 96 * n))\<rparr>,
      value_section = \<lparr>sec_id = 1, sec_size = scast (W32 (256 * n)), sec_used = 0,
        sec1_offset = scast (W32 (224 + 160 * n)), sec2_offset = scast (W32 (224 + 416 * n))\<rparr>\<rparr>)"
proof -
  have three: "(scast (3 :: c_int) :: size_t) = W64 3"
    unfolding W32_numeral by (rule scast_32_64) simp
  have b: "W64 n * sizeof_item + scast (3 :: c_int) * sizeof_item_val = W64 (16 * n + 48)"
    using n unfolding three by (simp add: sizeofs scast_32_64 addr_simps mult.commute)
  have cut: "ucast (scast (W32 x) + W64 y) = W32 (x + y)" for x y
    by (simp only: ucast_add64 ucast_scast32 ucast_64_32 W32_add)
  have cut2: "ucast (W64 x + W64 y) = W32 (x + y)" for x y
    by (simp only: ucast_add64 ucast_64_32 W32_add)
  have o1: "128 + (16 * n + 48) = 176 + 16 * n" "176 + 16 * n + (16 * n + 48) = 224 + 32 * n"
    "224 + 32 * n + n * 64 = 224 + 96 * n" "224 + 96 * n + n * 64 = 224 + 160 * n"
    "224 + 160 * n + n * 256 = 224 + 416 * n" "224 + 416 * n + n * 256 = layout_total n 3"
    by (simp_all add: layout_total_3 file_len_def)
  have z: "(scast (W32 128) :: size_t) = W64 128" "(scast (W32 n) :: size_t) = W64 n"
    using n by (simp_all add: scast_32_64)
  show ?thesis
    by (simp only: pupa_store_init_def Let_def b cut cut2 sizeof_hdr_def PUPA_KEY_AVERAGE_LEN_def
        PUPA_VALUE_AVERAGE_LEN_def section_ids W32_mult_numeral W32_numeral_mult W32_add o1 z)
qed

subsection \<open>Opening a new file\<close>

lemma init_too_large:
  assumes big: "2 ^ 31 \<le> layout_total n 3 mod 2 ^ 32" and n: "n < 2 ^ 31"
    and d: "d path = None" and env: "calls_ok env" and c: "ctx_init c = 0"
  shows "\<exists>c'. pupa_init env junk d c path (W32 n) PUPA_OP_TYPE_RW = Some (PUPA_ERROR, c', d(path \<mapsto> empty_file))"
proof -
  have "sint (scast (fst (pupa_store_init (W32 n) 3)) :: size_t) < 0"
    using W32_negative [OF big] W32_mod [of "layout_total n 3"] by (simp add: init_wraps [OF n])
  then show ?thesis
    using env c d
    by (simp add: pupa_init_def pupa_shm_init_def pupa_shm_init_rw_def open_create_def calls_ok_def
        empty_file_def split_beta Let_def PUPA_OP_TYPE_RW_def PUPA_OP_TYPE_RO_def)
qed


lemma init_wraps_small:
  assumes sz: "sz = layout_total n 3 mod 2 ^ 32" "128 \<le> sz" "sz < 2 ^ 31" and n: "n < 2 ^ 31"
    and d: "d path = None" and env: "calls_ok env" and c: "ctx_init c = 0"
  shows "\<exists>c' f. pupa_init env junk d c path (W32 n) PUPA_OP_TYPE_RW = Some (PUPA_OK, c', d(path \<mapsto> f)) \<and>
     file_size f = sz \<and> maps_file c' f \<and> rd_hdr (file_bytes f) = snd (pupa_store_init (W32 n) 3)"
proof -
  obtain h where ini: "pupa_store_init (W32 n) 3 = (W32 sz, h)"
    using W32_mod [of "layout_total n 3"] by (simp add: sz(1) init_wraps [OF n])
  have s: "(scast (W32 sz) :: size_t) = W64 sz" "\<not> sint (W64 sz) < 0" "unat (W64 sz) = sz" "W64 sz \<noteq> 0"
    using sz(2,3) by (simp_all add: scast_32_64 sint_W64 unat_W64 W64_eq_0)
  have ops: "PUPA_OP_TYPE_RW \<noteq> PUPA_OP_TYPE_RO" "PUPA_OK \<noteq> PUPA_ERROR"
    by (simp_all add: PUPA_OP_TYPE_RO_def PUPA_OP_TYPE_RW_def return_codes)
  show ?thesis
    using env c d ops sz(2) s
    by (simp add: pupa_init_def pupa_shm_init_def pupa_shm_init_rw_def calls_ok_def open_create_def
        empty_file_def map_file_def split_beta Let_def ini put_hdr_def write_back_def ctx_file_def
        init_items_def load_hdr_def rd_hdr_wr_hdr sizeof_hdr_def maps_file_def)
      (rule exI [of _ "\<lparr>file_size = sz, file_bytes = wr_hdr (\<lambda>_. 0) h\<rparr>"], simp add: rd_hdr_wr_hdr)
qed

lemma wrapped_not_ok:
  assumes f: "file_size f = layout_total n 3 mod 2 ^ 32" "rd_hdr (file_bytes f) = snd (pupa_store_init (W32 n) 3)"
    and n: "n < 2 ^ 31" and big: "2 ^ 31 \<le> layout_total n 3"
  shows "\<not> file_ok f"
proof
  assume ok: "file_ok f"
  have "v_keys (file_view f) = n"
    using f(2) n by (simp add: file_view_def view_of_def file_ctx_def init_wraps [OF n] Let_def unat_W64)
  then show False using file_ok_size [OF ok] big by (simp add: layout_total_3)
qed

text \<open>The first write then goes to the second index area, which lies beyond the end of the file.\<close>

lemma wrapped_set_faults:
  assumes c: "mapped c" "msize c \<le> 16 * n + 176" "128 \<le> msize c"
      "rd_hdr (mbytes c) = snd (pupa_store_init (W32 n) 3)"
    and n: "n < 2 ^ 25" and key: "cstr key kb" "length kb < 64 * n"
  shows "pupa_store_set env c key val = None"
proof -
  have n': "n < 2 ^ 31" using n by simp
  obtain h where h: "rd_hdr (mbytes c) = h" "item_section h =
      \<lparr>sec_id = 1, sec_size = W64 n, sec_used = 0, sec1_offset = W64 128,
        sec2_offset = W64 (176 + 16 * n)\<rparr>"
    "sec_used (key_section h) = 0" "sec_size (key_section h) = W64 (64 * n)"
    using c(4) n by (simp add: init_wraps [OF n'] scast_32_64)
  let ?c1 = "c\<lparr>store_items_snapshot := W64 (176 + 16 * n)\<rparr>"
  have lh: "load_hdr c = Some h" "load_hdr (c\<lparr>store_items_snapshot := x\<rparr>) = Some h" for x
    using c(1,3) h(1) by (simp_all add: load_hdr_def sizeof_hdr_def)
  have l: "(scast (str_len key + 1) :: size_t) = W64 (length kb + 1)"
    using cstr_place [OF key(1)] by (simp add: W32_add_one scast_32_64)
  have "\<not> W64 (64 * n) < W64 (length kb + 1)" using key(2) n by (simp add: W64_less_iff)
  then obtain p off where k: "key_place ?c1 key = Some (PUPA_OK, Some p, off, ?c1)"
    by (simp add: key_place_def lh h(3,4) l)
  have add: "item_add_key ?c1 (W64 (176 + 16 * n)) key p off = None"
    using c(2) n by (simp add: item_add_key_def st32_def in_map_def unat_W64 addr_simps bind_NoneI)
  have ne: "W64 n \<noteq> 0" using key(2) n by (simp add: W64_eq_0)
  have "bsearch cmp base 0 sz = Some None" for cmp base sz
    by (simp add: bsearch_def bsearch_loop.simps)
  then show ?thesis
    using ne k add
    by (simp add: pupa_store_set_def pupa_store_item_make_snapshot_def pupa_store_item_add_def lh h(2)
        section_macros section_ids Let_def bind_NoneI)
qed

end
