(* ===== verification/Live.thy ===== *)
theory Live
  imports Writer Contract
begin

text \<open>
  A process that keeps the store open and looks a key up before it sets it: a second instance
  of \<open>versioned_store\<close>, with the context as the state. The lookup matters: it makes the
  write start from the current index.
\<close>

definition live_put :: "pupa_ctx \<Rightarrow> byte list \<Rightarrow> byte list \<Rightarrow> pupa_ctx option" where
  "live_put c kb vb =
     do {
       (ret, vs, c) \<leftarrow> pupa_store_get_values c (mk_str kb);
       (ret, c) \<leftarrow> pupa_store_set env_good c (mk_str kb) (mk_str vb);
       if ret = PUPA_OK then Some c else None
     }"

definition live_versions :: "pupa_ctx \<Rightarrow> byte list \<Rightarrow> byte list list" where
  "live_versions c kb = map butlast (versions (store_map c (skey kb)))"

definition live_ready :: "pupa_ctx \<Rightarrow> byte list \<Rightarrow> byte list \<Rightarrow> bool" where
  "live_ready c kb vb \<longleftrightarrow>
     store_wf c \<and> mwritable c \<and> length kb + 1 < 2 ^ 31 \<and> length vb + 1 < 2 ^ 31 \<and>
     set_ready (refresh c) kb vb"

lemma live_put_eq:
  assumes r: "live_ready c kb vb"
  shows "\<exists>c'. live_put c kb vb = Some c' \<and> writer_ok c' \<and>
     store_map c' = (store_map c)(skey kb \<mapsto> take 3 (stored vb # versions (store_map c (skey kb))))"
proof -
  have s: "cstr (mk_str kb) kb" "cstr (mk_str vb) vb" "store_wf c" "mwritable c" "set_ready (refresh c) kb vb"
    using r by (simp_all add: live_ready_def cstr_mk_str)
  note rw = refresh_writer [OF s(3,4)]
  obtain vs ret where g: "pupa_store_get_values c (mk_str kb) = Some (ret, vs, refresh c)"
    using get_values_refines [OF s(3,1)] by blast
  have env: "malloc_ok env_good" "pupa_shm_sync env_good c' = PUPA_OK" for c'
    by (simp_all add: env_good_def pupa_shm_sync_def)
  obtain c' where c': "pupa_store_set env_good (refresh c) (mk_str kb) (mk_str vb) = Some (PUPA_OK, c')"
    "writer_ok c'"
    "store_map c' = (store_map c)(skey kb \<mapsto> take 3 (stored vb # versions (store_map c (skey kb))))"
    using set_any_key [OF rw(1) s(1,2,5) env(1)] rw(4) env(2) by auto
  then show ?thesis using g by (intro exI [of _ c']) (simp add: live_put_def)
qed

interpretation live: versioned_store live_put live_versions live_ready
proof
  fix c kb vb
  assume r: "live_ready c kb vb"
  obtain c1 where c1: "live_put c kb vb = Some c1"
    "store_map c1 = (store_map c)(skey kb \<mapsto> take 3 (stored vb # versions (store_map c (skey kb))))"
    using live_put_eq [OF r] by blast
  show "\<exists>c'. live_put c kb vb = Some c'" using c1(1) by blast
  fix c'
  assume "live_put c kb vb = Some c'"
  then have eq: "c' = c1" using c1(1) by simp
  show "live_versions c' kb = take 3 (vb # live_versions c kb)"
    by (simp add: live_versions_def eq c1(2) take_map stored_def)
  show "live_versions c' kb' = live_versions c kb'" if "kb' \<noteq> kb" for kb'
    using that by (simp add: live_versions_def eq c1(2) stored_def)
qed

text \<open>A sequence of such writes.\<close>

primrec live_sets :: "pupa_ctx \<Rightarrow> (byte list \<times> byte list) list \<Rightarrow> pupa_ctx option" where
  "live_sets c [] = Some c"
| "live_sets c (kv # kvs) = do { c \<leftarrow> live_put c (fst kv) (snd kv); live_sets c kvs }"

primrec live_sets_ready :: "pupa_ctx \<Rightarrow> (byte list \<times> byte list) list \<Rightarrow> bool" where
  "live_sets_ready c [] \<longleftrightarrow> True"
| "live_sets_ready c (kv # kvs) \<longleftrightarrow> live_ready c (fst kv) (snd kv) \<and>
     (case live_put c (fst kv) (snd kv) of None \<Rightarrow> False | Some c \<Rightarrow> live_sets_ready c kvs)"

lemma live_sets_puts: "live_sets c kvs = live.puts c kvs"
  by (induction kvs arbitrary: c) simp_all

lemma live_sets_all_ready: "live_sets_ready c kvs = live.all_ready c kvs"
  by (induction kvs arbitrary: c) (simp_all split: option.splits)

lemma live_sets_wf:
  "store_wf c \<Longrightarrow> live_sets_ready c kvs \<Longrightarrow> live_sets c kvs = Some c' \<Longrightarrow> store_wf c'"
proof (induction kvs arbitrary: c)
  case Nil
  then show ?case by simp
next
  case (Cons kv kvs)
  then have r: "live_ready c (fst kv) (snd kv)" by simp
  obtain c1 where c1: "live_put c (fst kv) (snd kv) = Some c1" "writer_ok c1"
    using live_put_eq [OF r] by blast
  then show ?case using Cons.IH [OF writer_ok_wf [OF c1(2)]] Cons.prems by simp
qed

lemma live_versions_length: "store_wf c \<Longrightarrow> length (live_versions c kb) \<le> 3"
  using store_map_length(2) [of c kb] by (cases "store_map c (skey kb)") (simp_all add: live_versions_def)

end
