(* ===== verification/Compact.thy ===== *)
theory Compact
  imports Writer
begin

text \<open>
  The compaction of the value section on a store with one entry. The loop looks for value
  records 256 bytes behind the entry, in slots of the index area that hold none: no value is
  copied, and nothing is counted in the section it switches to.
\<close>

subsection \<open>The loop over the values of an item\<close>

text \<open>The slots it takes for records, and the offsets it writes to them.\<close>

abbreviation slot :: "nat \<Rightarrow> nat \<Rightarrow> nat" where
  "slot a j \<equiv> a + 256 + 256 * j"

primrec marked :: "nat \<Rightarrow> nat \<Rightarrow> (nat \<Rightarrow> byte) \<Rightarrow> nat \<Rightarrow> (nat \<Rightarrow> byte)" where
  "marked a off m 0 = m"
| "marked a off m (Suc j) = wr64 (marked a off m j) (slot a j) (W64 off)"

lemma marked_outside:
  "(\<And>i. i < j \<Longrightarrow> x < slot a i \<or> slot a i + 8 \<le> x) \<Longrightarrow> marked a off m j x = m x"
  by (induction j) (simp_all add: mem_simps)

lemma marked_hdr: "128 \<le> a \<Longrightarrow> rd_hdr (marked a off m j) = rd_hdr m"
  by (rule rd_hdr_cong) (auto intro!: marked_outside)

text \<open>A slot that leads to no bytes: length 0, and an offset in the file.\<close>

definition idle_slot :: "nat \<Rightarrow> (nat \<Rightarrow> byte) \<Rightarrow> nat \<Rightarrow> bool" where
  "idle_slot n m a \<longleftrightarrow> rd32 m (a + 8) = 0 \<and> unat (rd64 m a) \<le> file_len n"

lemma compact_item_idle:
  assumes h: "hdr_ok s c" and a: "128 \<le> a" "slot a k \<le> file_len (v_keys s)"
    and m: "mbytes c = marked a off m j" "j \<le> k" and cnt: "rd32 m (a + 12) = W32 k" "k < 2 ^ 31"
    and idle: "\<And>i. i < k \<Longrightarrow> idle_slot (v_keys s) m (slot a i)"
    and p: "p \<le> file_len (v_keys s)"
  shows "compact_item_values c (W64 a) (W64 p) (W64 off) 0 j =
     Some (c\<lparr>mbytes := marked a off m k\<rparr>, 0)"
  using h m
proof (induction "k - j" arbitrary: j c)
  case 0
  then have jk: "j = k" by simp
  note d = hdr_okD [OF 0(2)]
  have "marked a off m j x = m x" if "x < slot a 0" for x using that by (intro marked_outside) auto
  then have "rd32 (mbytes c) (a + 12) = W32 k"
    using cnt(1) 0(3) rd_cong(1) [of "a + 12" "mbytes c" m] by simp
  then have ld: "ld32 c (W64 (a + 12)) = Some (W32 k)" using a(2) d(3,4) by (simp add: acc_W64 file_len_def)
  have "sint (W32 k) = int k" using cnt(2) by (simp add: sint_W32)
  then show ?case
    using ld jk 0(3) by (subst compact_item_values.simps) (simp add: addr_simps)
next
  case (Suc x)
  then have jk: "j < k" by simp
  note d = hdr_okD [OF Suc(3)]
  let ?pv = "slot a j"
  have "slot a (Suc j) \<le> slot a k" using jk by simp
  then have pv: "?pv + 12 \<le> msize c" using a(2) d(3) by (simp add: file_len_def)
  have eq: "marked a off m j y = m y" if "y < slot a 0 \<or> ?pv \<le> y" for y
    using that by (intro marked_outside) auto
  have "rd32 (mbytes c) (a + 12) = W32 k"
    using cnt(1) Suc(4) eq rd_cong(1) [of "a + 12" "mbytes c" m] by simp
  then have ld: "ld32 c (W64 (a + 12)) = Some (W32 k)" using a(2) d(3,4) by (simp add: acc_W64 file_len_def)
  have sk: "sint (W32 k) = int k" using cnt(2) by (simp add: sint_W32)
  let ?o = "rd64 m ?pv"
  have rv: "rd_item_val (mbytes c) ?pv = \<lparr>value_offset = ?o, value_len = 0\<rparr>"
    using idle [OF jk] eq Suc(4) rd_cong(1) [of "?pv + 8" "mbytes c" m] rd_cong(2) [of ?pv "mbytes c" m]
    by (simp add: rd_item_val_def idle_slot_def)
  have lv: "load_item_val c (W64 ?pv) = Some \<lparr>value_offset = ?o, value_len = 0\<rparr>"
    using rv pv d(3,4) by (simp add: load_item_val_def in_map_def unat_W64)
  have o: "?o = W64 (unat ?o)" by (simp add: W64_def)
  have cp: "memcpy c (W64 p) ?o 0 = Some c"
    using memcpy_W64 [of "unat ?o" 0 c p] idle [OF jk] p d(2,3,4)
    by (simp add: idle_slot_def file_len_def W64_def put_bytes_Nil)
  let ?m = "marked a off m (Suc j)"
  have st: "st64 c (W64 ?pv) (W64 off) = Some (c\<lparr>mbytes := ?m\<rparr>)"
    using pv d(2-4) Suc(4) by (simp add: acc_W64)
  have "rd32 ?m (?pv + 8) = 0"
    using rv Suc(4) by (simp add: rd_item_val_def mem_simps)
  then have ld2: "ld32 (c\<lparr>mbytes := ?m\<rparr>) (W64 (?pv + 8)) = Some 0"
    using pv d(3,4) by (simp add: acc_W64)
  have h': "hdr_ok s (c\<lparr>mbytes := ?m\<rparr>)"
    using Suc(3) Suc(4) a(1) by (intro hdr_ok_put [OF Suc(3)]) (simp_all add: marked_hdr hdr_ok_def del: marked.simps)
  have IH: "compact_item_values (c\<lparr>mbytes := ?m\<rparr>) (W64 a) (W64 p) (W64 off) 0 (Suc j) =
      Some (c\<lparr>mbytes := marked a off m k\<rparr>, 0)"
    using Suc(1) [of "Suc j" "c\<lparr>mbytes := ?m\<rparr>"] Suc(2) h' jk by simp
  have at: "W64 a + (sizeof_item + W64 j * sizeof_item_val) * sizeof_item = W64 ?pv"
    by (simp add: sizeofs addr_simps algebra_simps)
  show ?case
    using ld sk jk lv cp st ld2 IH
    by (subst compact_item_values.simps) (simp add: at addr_simps Let_def)
qed


subsection \<open>The compaction and the place for the new value\<close>

abbreviation val_switched :: "store_view \<Rightarrow> store_view" where
  "val_switched s \<equiv> s\<lparr>v_val_used := 0, v_val_one := \<not> v_val_one s\<rparr>"

lemma value_macros:
  "PUPA_STORE_GET_SNAPSHOT_ADDR (value_section (view_hdr s)) = W64 (v_base (val_switched s))"
  "PUPA_STORE_GET_SNAPSHOT_OFFSET (value_section (view_hdr s)) = W64 (v_base (val_switched s))"
  "PUPA_STORE_GET_SEC_SNAPSHOT_ID (value_section (view_hdr s)) = sec_no (\<not> v_val_one s)"
  "view_hdr s\<lparr>value_section := value_section (view_hdr s)\<lparr>sec_id := sec_no one\<rparr>\<rparr> =
     view_hdr (s\<lparr>v_val_one := one\<rparr>)"
  by (simp_all add: section_macros section_ids view_hdr_def W64_add sec_no_def)

definition compacted :: "store_view \<Rightarrow> nat \<Rightarrow> nat \<Rightarrow> (nat \<Rightarrow> byte) \<Rightarrow> (nat \<Rightarrow> byte)" where
  "compacted s a k m =
     wr8 (wr64 (marked a (v_base (val_switched s)) m k) 104 0) 88 (sec_no (\<not> v_val_one s))"

lemma compacted_hdr:
  "128 \<le> a \<Longrightarrow> rd_hdr m = view_hdr s \<Longrightarrow> rd_hdr (compacted s a k m) = view_hdr (val_switched s)"
  using view_hdr_upd(3) [of 0 s] value_macros(4) [where s = "s\<lparr>v_val_used := 0\<rparr>" and one = "\<not> v_val_one s"]
  by (simp add: compacted_def mem_simps marked_hdr W64_zero)

lemma compacted_outside:
  assumes "128 \<le> x" "\<And>i. i < k \<Longrightarrow> x < slot a i \<or> slot a i + 8 \<le> x"
  shows "compacted s a k m x = m x"
  using assms marked_outside [of k x a "v_base (val_switched s)" m]
  by (simp add: compacted_def mem_simps)

lemma value_place_compacts:
  assumes h: "hdr_ok s c" and u: "v_used s = 1" and items: "store_items_snapshot c = W64 a"
    and a: "128 \<le> a" "slot a k \<le> file_len (v_keys s)"
    and cnt: "rd32 (mbytes c) (a + 12) = W32 k" "k < 2 ^ 31"
    and idle: "\<And>i. i < k \<Longrightarrow> idle_slot (v_keys s) (mbytes c) (slot a i)"
    and val: "cstr val vb" and full: "256 * v_keys s < v_val_used s + length vb + 1"
    and vu: "v_val_used s \<le> 256 * v_keys s" and fits: "length vb + 1 \<le> 256 * v_keys s"
  shows "value_place c val = Some (PUPA_OK, Some (W64 (v_base (val_switched s))),
       W64 (v_base (val_switched s)), c\<lparr>mbytes := compacted s a k (mbytes c)\<rparr>)"
    "hdr_ok (val_switched s) (c\<lparr>mbytes := compacted s a k (mbytes c)\<rparr>)"
proof -
  note d = hdr_okD [OF h] and v = cstr_place [OF val]
  define p where "p = v_base (val_switched s)"
  let ?m1 = "marked a p (mbytes c) k"
  let ?c1 = "c\<lparr>mbytes := ?m1\<rparr>"
  let ?m2 = "wr64 ?m1 104 0"
  have h1: "hdr_ok s ?c1" using h a(1) by (intro hdr_ok_put [OF h]) (simp_all add: marked_hdr hdr_ok_def)
  have h2: "hdr_ok (s\<lparr>v_val_used := 0\<rparr>) (c\<lparr>mbytes := ?m2\<rparr>)"
    using hdr_okD(5) [OF h1] view_hdr_upd(3) [of 0 s]
    by (intro hdr_ok_put [OF h]) (simp_all add: mem_simps W64_zero)
  show "hdr_ok (val_switched s) (c\<lparr>mbytes := compacted s a k (mbytes c)\<rparr>)"
    using compacted_hdr [OF a(1) d(5)] by (intro hdr_ok_put [OF h]) simp_all
  have pl: "p \<le> file_len (v_keys s)" by (simp add: areas p_def)
  have c1: "compact_item_values c (W64 a) (W64 p) (W64 p) 0 0 = Some (?c1, 0)"
    using compact_item_idle [OF h a _ _ cnt idle pl, of p 0] by simp
  have u1: "unat (W64 (Suc 0)) = 1" by (simp add: unat_W64)
  have "compact_values ?c1 (W64 p) (W64 p) 0 1 = Some (?c1, 0)"
    by (subst compact_values.simps) (simp add: hdr_okD(6) [OF h1] view_simps u u1)
  then have cv: "compact_values c (W64 p) (W64 p) 0 0 = Some (?c1, 0)"
    using c1 by (subst compact_values.simps)
      (simp add: d(6) view_simps u u1 items W64_def)
  have l: "(scast (str_len val + 1) :: size_t) = W64 (length vb + 1)"
    using v(4,5) by (simp add: W32_add_one scast_32_64)
  have nf: "\<not> W64 (256 * v_keys s) < W64 (length vb + 1)"
    and fl: "W64 (256 * v_keys s) < W64 (v_val_used s) + W64 (length vb + 1)"
    using fits full vu d(4) v(5) by (simp_all add: W64_add W64_less_iff)
  have pu: "put_sec_used ?c1 value_section_addr 0 = Some (c\<lparr>mbytes := ?m2\<rparr>)"
    using d st_W64(3) [of 104 ?c1]
    by (simp add: put_sec_used_def section_addrs W64_numeral [symmetric])
  have pi: "put_sec_id (c\<lparr>mbytes := ?m2\<rparr>) value_section_addr (sec_no (\<not> v_val_one s)) =
      Some (c\<lparr>mbytes := compacted s a k (mbytes c)\<rparr>)"
    using d st_W64(1) [of 88 "c\<lparr>mbytes := ?m2\<rparr>"]
    by (simp add: put_sec_id_def section_addrs W64_numeral [symmetric] compacted_def p_def)
  have vm: "PUPA_STORE_GET_SNAPSHOT_ADDR (value_section (view_hdr s)) = W64 p"
    "PUPA_STORE_GET_SNAPSHOT_OFFSET (value_section (view_hdr s)) = W64 p"
    "PUPA_STORE_GET_SEC_SNAPSHOT_ID (value_section (view_hdr (s\<lparr>v_val_used := 0\<rparr>))) =
       sec_no (\<not> v_val_one s)"
    by (simp_all add: value_macros p_def)
  have "pupa_store_value_compaction c val =
      Some (PUPA_OK, Some (W64 p), c\<lparr>mbytes := compacted s a k (mbytes c)\<rparr>)"
    using cv nf pu pi hdr_okD(6) [OF h2]
    by (simp add: pupa_store_value_compaction_def d(6) hdr_okD(6) [OF h1] view_simps vm l)
  then show "value_place c val = Some (PUPA_OK, Some (W64 (v_base (val_switched s))),
       W64 (v_base (val_switched s)), c\<lparr>mbytes := compacted s a k (mbytes c)\<rparr>)"
    unfolding p_def [symmetric] using fl by (simp add: value_place_def d(6) view_simps vm l)
qed


subsection \<open>A store with one entry\<close>

text \<open>
  The entry with its key and its value records, the newest first, whether they lie in the
  current value section or not; and idle slots behind it, in both index areas.
\<close>

definition lone :: "store_view \<Rightarrow> pupa_ctx \<Rightarrow> store_key \<Rightarrow> pupa_store_item_val list \<Rightarrow> bool" where
  "lone s c k rs \<longleftrightarrow>
     hdr_ok s c \<and> view_ok s \<and> v_used s = 1 \<and> 30 \<le> v_keys s \<and>
     key_ok s (mbytes c) (i_base s) \<and> item_key (mbytes c) (i_base s) = k \<and>
     rd32 (mbytes c) (i_base s + 12) = W32 (length rs) \<and> 1 \<le> length rs \<and> length rs \<le> 3 \<and>
     (\<forall>r < length rs. item_val (mbytes c) (i_base s) (2 - r) = rs ! r) \<and>
     (\<forall>one. \<forall>j < 2. idle_slot (v_keys s) (mbytes c) (slot (item_area_at (v_keys s) one) j))"

lemma loneD:
  assumes "lone s c k rs"
  shows "hdr_ok s c" "view_ok s" "v_used s = 1" "30 \<le> v_keys s" "key_ok s (mbytes c) (i_base s)"
    "item_key (mbytes c) (i_base s) = k" "rd32 (mbytes c) (i_base s + 12) = W32 (length rs)"
    "1 \<le> length rs" "length rs \<le> 3"
    "\<And>r. r < length rs \<Longrightarrow> item_val (mbytes c) (i_base s) (2 - r) = rs ! r"
    "\<And>one j. j < 2 \<Longrightarrow> idle_slot (v_keys s) (mbytes c) (slot (item_area_at (v_keys s) one) j)"
  using assms by (auto simp: lone_def)

lemma lone_searchable: "lone s c k rs \<Longrightarrow> searchable s c"
  by (simp add: lone_def searchable_def hdr_ok_def entries_def)

text \<open>A lookup of one of the versions.\<close>

lemma lone_get:
  assumes l: "lone s c (skey kb) rs" and key: "cstr key kb" and r: "1 \<le> r" "r \<le> length rs"
  shows "pupa_store_get c key (W32 r) = Some (PUPA_OK, Some (val_ref (rs ! (r - 1))), refresh c)"
proof -
  note d = loneD [OF l]
  have cn: "unat (val_cnt (rd_item (mbytes c) (i_base s))) = length rs"
    using d(7,9) by (simp add: rd_item_def unat_W32)
  have "rd_item_val (mbytes c) (i_base s + 64 - 16 * r) = rs ! (r - 1)"
  proof -
    have "i_base s + 64 - 16 * r = i_base s + 16 + 16 * (2 - (r - 1))" using r d(9) by simp
    then show ?thesis using d(10) [of "r - 1"] r by (simp add: item_val_def)
  qed
  then show ?thesis
    using get_entry [OF lone_searchable [OF l] key, of 0 r] d(3,6,9) r cn
    by (simp add: Let_def val_ref_def)
qed


subsection \<open>A replacement that compacts\<close>

definition compact_bytes :: "store_view \<Rightarrow> nat \<Rightarrow> byte list \<Rightarrow> (nat \<Rightarrow> byte) \<Rightarrow> (nat \<Rightarrow> byte)" where
  "compact_bytes s k vb m =
     switch_bytes (replace_view (val_switched s) vb)
       (replace_bytes (val_switched s) (i_snap s) k vb
          (compacted s (i_snap s) k (snap_bytes s (i_base s) m)))"

abbreviation compact_view :: "store_view \<Rightarrow> byte list \<Rightarrow> store_view" where
  "compact_view s vb \<equiv> switched (replace_view (val_switched s) vb)"

lemma compact_bytes_marked:
  assumes "128 \<le> x" "k \<le> 3" "x < i_snap s + 12 \<or> i_snap s + 64 \<le> x"
    "x < v_base (val_switched s) \<or> v_base (val_switched s) + length vb + 1 \<le> x"
  shows "compact_bytes s k vb m x =
     marked (i_snap s) (v_base (val_switched s)) (snap_bytes s (i_base s) m) k x"
proof -
  have "128 \<le> i_snap s + 48" by (simp add: areas)
  then have rec: "rec_bytes s' (i_snap s + 48) vb m' x = m' x" for s' m'
    using assms(3) by (intro rec_bytes_facts(3)) auto
  show ?thesis
    using assms
    by (auto simp: compact_bytes_def switch_bytes_def replace_bytes_def compacted_def mem_simps rec
        shift_bytes_frame)
qed

lemma compact_bytes_frame:
  assumes "128 \<le> x" "k \<le> 3" "x < i_snap s + 12 \<or> i_snap s + 64 \<le> x"
    "x < v_base (val_switched s) \<or> v_base (val_switched s) + length vb + 1 \<le> x"
    "\<And>i. i < k \<Longrightarrow> x < slot (i_snap s) i \<or> slot (i_snap s) i + 8 \<le> x"
  shows "compact_bytes s k vb m x = snap_bytes s (i_base s) m x"
  using compact_bytes_marked [OF assms(1-4)] marked_outside [OF assms(5)] by simp

lemma marked_cell:
  "j < k \<Longrightarrow> rd64 (marked a off m k) (slot a j) = W64 off"
proof (induction k)
  case (Suc k)
  show ?case
  proof (cases "j = k")
    case True
    then show ?thesis by (simp add: mem_simps)
  next
    case False
    then have jk: "j < k" using Suc.prems by simp
    then have "slot a j + 256 \<le> slot a k" by simp
    then have "rd64 (marked a off m (Suc k)) (slot a j) = rd64 (marked a off m k) (slot a j)"
      by (intro rd_cong(2)) (simp add: mem_simps)
    then show ?thesis using Suc.IH [OF jk] by simp
  qed
qed simp

lemma compact_run:
  assumes l: "lone s c (skey kb) rs" and k: "length rs \<le> 2" and items: "store_items c = W64 (i_base s)"
    and key: "cstr key kb" and val: "cstr val vb"
    and full: "256 * v_keys s < v_val_used s + length vb + 1" and fits: "length vb + 1 \<le> 256 * v_keys s"
    and c': "c' = c\<lparr>store_items_snapshot := W64 (i_snap s),
      mbytes := compact_bytes s (length rs) vb (mbytes c)\<rparr>"
  shows "pupa_store_set env c key val = Some (pupa_shm_sync env c', c')"
    "hdr_ok (compact_view s vb) c'"
proof -
  note d = loneD [OF l] and v = view_okD [OF loneD(2) [OF l]]
  let ?q = "i_snap s" and ?b = "i_base s" and ?m1 = "snap_bytes s (i_base s) (mbytes c)"
  let ?c1 = "c\<lparr>mbytes := ?m1, store_items_snapshot := W64 ?q\<rparr>" and ?s2 = "val_switched s"
  let ?m2 = "compacted s ?q (length rs) ?m1"
  let ?c2 = "?c1\<lparr>mbytes := ?m2\<rparr>"
  let ?m3 = "replace_bytes ?s2 ?q (length rs) vb ?m2"
  have snap: "pupa_store_item_make_snapshot c = Some ?c1"
    by (rule make_snapshot_step [OF d(1) v(3) items refl])
  have h1: "hdr_ok s ?c1" using d(1) by (simp add: hdr_ok_def snap_bytes_hdr)
  have copy: "?m1 (?q + i) = mbytes c (?b + i)" if "i < 64" for i
    using that snap_bytes_slot [of 0 s i ?b "mbytes c"] d(3) by simp
  have keep: "?m1 x = mbytes c x" if "?q + 64 \<le> x" for x
    using that d(3) by (simp add: snap_bytes_outside)
  have it: "rd_item ?m1 ?q = rd_item (mbytes c) ?b" by (rule rd_item_shift) (rule copy)
  have kq: "?q + 64 \<le> k_base s" using d(4) by (simp add: areas)
  have ko: "key_ok s ?m1 ?q" using d(5) by (simp add: key_ok_def it)
  have ik: "item_key ?m1 ?q = skey kb"
  proof -
    have "k_base s \<le> unat (key_offset (rd_item (mbytes c) ?b))" using d(5) by (simp add: key_ok_def Let_def)
    then have "item_key ?m1 ?q = item_key (mbytes c) ?b"
      using kq unfolding item_key_def it Let_def by (intro arg_cong [where f = StoreKey] bytes_at_cong keep) simp
    then show ?thesis using d(6) by simp
  qed
  have fit: "?q + 64 * 1 \<le> file_len (v_keys s)" using d(4) by (simp add: areas)
  have bs: "bsearch (pupa_store_item_compare ?c1 (probe key)) (W64 ?q) (W64 (v_used s)) 64 =
      Some (Some (W64 ?q))"
    using bsearch_entries(1) [of 1 s ?c1 ?q key kb 0] ko ik key fit v(4) hdr_okD(3,4) [OF d(1)] d(3)
    by (simp add: file_len_def entries_def)
  have n2: "rd32 ?m1 (?q + 12) = W32 (length rs)"
    using it d(7) by (simp add: rd_item_def)
  have idle: "idle_slot (v_keys s) ?m1 (slot ?q i)" if "i < length rs" for i
  proof -
    have "idle_slot (v_keys s) (mbytes c) (slot ?q i)" using that k d(11) by simp
    then show ?thesis
      using rd_cong(1) [of "slot ?q i + 8" ?m1 "mbytes c"] rd_cong(2) [of "slot ?q i" ?m1 "mbytes c"] keep
      by (simp add: idle_slot_def)
  qed
  have qb: "128 \<le> ?q" "slot ?q (length rs) \<le> file_len (v_keys s)" using k d(4) by (simp_all add: areas)
  have l31: "length rs < 2 ^ 31" using k by simp
  have n2': "rd32 (mbytes ?c1) (?q + 12) = W32 (length rs)"
    and idle': "\<And>i. i < length rs \<Longrightarrow> idle_slot (v_keys s) (mbytes ?c1) (slot ?q i)"
    using n2 idle by simp_all
  note vp = value_place_compacts [OF h1 d(3) _ qb n2' l31 idle' val full v(5) fits]
  have h2: "hdr_ok ?s2 ?c2" using vp(2) by simp
  have n3: "rd32 (mbytes ?c2) (?q + 12) = W32 (length rs)"
    using n2 rd_cong(1) [of "?q + 12" ?m2 ?m1] compacted_outside [where m = ?m1] qb(1) by simp
  have room: "v_val_used ?s2 + length vb + 1 \<le> 256 * v_keys ?s2" "?q + 64 \<le> v_base ?s2"
    using fits by (simp_all add: areas)
  note rs = replace_steps [OF h2 qb(1) room(2) n3 d(8,9) room(1) val refl refl refl]
  have h3: "hdr_ok (replace_view ?s2 vb) (?c2\<lparr>mbytes := ?m3\<rparr>)"
    using hdr_okD(5) [OF rs(3)] view_hdr_upd(3) [of "v_val_used ?s2 + length vb + 1" ?s2]
    by (intro hdr_ok_put [OF h2]) (simp_all add: replace_bytes_def mem_simps replace_view_def)
  have rep: "pupa_store_item_replace ?c1 (W64 ?q) val = Some (PUPA_OK, ?c2\<lparr>mbytes := ?m3\<rparr>)"
    using vp(1) rs by (simp add: pupa_store_item_replace_def)
  note sw = switch_step [OF h3]
  show "pupa_store_set env c key val = Some (pupa_shm_sync env c', c')"
    using snap bs rep sw(1) hdr_okD(6) [OF h1]
    by (simp add: pupa_store_set_def view_simps return_codes c' compact_bytes_def)
  show "hdr_ok (compact_view s vb) c'"
    using sw(2) h3 by (simp add: hdr_ok_def c' compact_bytes_def replace_view_def)
qed


text \<open>What the bytes are afterwards: the entry, its neighbours, the two value areas.\<close>

lemma compact_entry:
  assumes k: "1 \<le> k" "k \<le> 2" and n: "30 \<le> v_keys s" and u: "v_used s = 1"
    and cnt: "rd32 m (i_base s + 12) = W32 k" and fits: "length vb + 1 \<le> 256 * v_keys s"
    and m': "m' = compact_bytes s k vb m"
  shows "rd32 m' (i_snap s + 12) = W32 (k + 1)"
    "\<And>j. j < 2 \<Longrightarrow> 2 - k \<le> j \<Longrightarrow> item_val m' (i_snap s) j = item_val m (i_base s) (j + 1)"
    "item_val m' (i_snap s) 2 =
       \<lparr>value_offset = W64 (v_base (val_switched s)), value_len = W32 (length vb + 1)\<rparr>"
    "bytes_at m' (v_base (val_switched s)) (length vb + 1) = stored vb"
proof -
  let ?q = "i_snap s" and ?b = "i_base s" and ?v = "v_base (val_switched s)"
  let ?m1 = "snap_bytes s (i_base s) m"
  let ?M = "put_bytes (compacted s ?q k ?m1) ?v (stored vb)"
  have q: "128 \<le> ?q" "slot ?q k \<le> ?v" using k n by (auto simp: areas)
  have M: "?M (?q + i) = m (?b + i)" if "i < 64" for i
  proof -
    have "?M (?q + i) = ?m1 (?q + i)"
      using that q compacted_outside [of "?q + i" k ?q s ?m1] by (simp add: mem_simps)
    then show ?thesis using that snap_bytes_slot [of 0 s i ?b m] u by simp
  qed
  have m'x: "m' x = rec_bytes (val_switched s) (?q + 48) vb (shift_bytes k ?q ?M) x" if "128 \<le> x" for x
    using that by (simp add: m' compact_bytes_def switch_bytes_def replace_bytes_def mem_simps)
  have lo: "m' x = shift_bytes k ?q ?M x" if "128 \<le> x" "x < ?q + 48 \<or> ?q + 60 \<le> x" for x
  proof -
    have "128 \<le> ?q + 48" "x < ?q + 48 \<or> ?q + 48 + 12 \<le> x" using that q(1) by auto
    then show ?thesis unfolding m'x [OF that(1)] by (rule rec_bytes_facts(3))
  qed
  have "rd_item ?M ?q = rd_item m ?b" by (rule rd_item_shift) (rule M)
  then have "rd32 ?M (?q + 12) = W32 k" using cnt by (simp add: rd_item_def)
  then have "rd32 (shift_bytes k ?q ?M) (?q + 12) = W32 (k + 1)"
    using shift_bytes_cnt [of k ?M ?q] k by (simp add: min_def)
  then show "rd32 m' (?q + 12) = W32 (k + 1)"
    using rd_cong(1) [of "?q + 12" m' "shift_bytes k ?q ?M"] lo q(1) by simp
  show "item_val m' ?q j = item_val m ?b (j + 1)" if j: "j < 2" "2 - k \<le> j" for j
  proof -
    have "item_val m' ?q j = item_val (shift_bytes k ?q ?M) ?q j"
      unfolding item_val_def by (rule rd_item_val_cong, rule lo) (use q(1) j in auto)
    also have "\<dots> = item_val ?M ?q (j + 1)" using shift_bytes_vals [of k j ?q ?M] k j by simp
    also have "\<dots> = item_val m ?b (j + 1)" using j M by (intro item_val_cong) simp_all
    finally show ?thesis .
  qed
  have "item_val m' ?q 2 = rd_item_val (rec_bytes (val_switched s) (?q + 48) vb (shift_bytes k ?q ?M)) (?q + 48)"
    unfolding item_val_def using q(1) m'x by (simp add: add.assoc) (rule rd_item_val_cong, simp)
  then show "item_val m' ?q 2 = \<lparr>value_offset = W64 ?v, value_len = W32 (length vb + 1)\<rparr>"
    using q(1) by (simp add: rec_bytes_facts(2))
  have "m' x = ?M x" if "?v \<le> x" for x
    using that q lo [of x] k by (simp add: shift_bytes_frame)
  then have "bytes_at m' ?v (length vb + 1) = bytes_at ?M ?v (length vb + 1)"
    by (intro bytes_at_cong) simp
  then show "bytes_at m' ?v (length vb + 1) = stored vb" by (simp add: mem_simps)
qed


lemma compact_kept:
  assumes k: "k \<le> 2" and n: "30 \<le> v_keys s" and u: "v_used s = 1"
    and fits: "length vb + 1 \<le> 256 * v_keys s" and m': "m' = compact_bytes s k vb m"
  shows "\<And>x. 128 \<le> x \<Longrightarrow> x < i_snap s \<or> i_snap s + 64 \<le> x \<Longrightarrow>
      (\<And>i. i < k \<Longrightarrow> x < slot (i_snap s) i \<or> slot (i_snap s) i + 8 \<le> x) \<Longrightarrow>
      x < v_base (val_switched s) \<or> v_base (val_switched s) + length vb + 1 \<le> x \<Longrightarrow> m' x = m x"
    "\<And>i. i < 12 \<Longrightarrow> m' (i_snap s + i) = m (i_base s + i)"
    "\<And>x. v_base s \<le> x \<Longrightarrow> x < v_base s + 256 * v_keys s \<Longrightarrow> m' x = m x"
    "\<And>x. k_base s \<le> x \<Longrightarrow> x < k_base s + 64 * v_keys s \<Longrightarrow> m' x = m x"
proof -
  note fr = compact_bytes_frame [where k = k and s = s and vb = vb and m = m]
  show f: "m' x = m x" if "128 \<le> x" "x < i_snap s \<or> i_snap s + 64 \<le> x"
    "\<And>i. i < k \<Longrightarrow> x < slot (i_snap s) i \<or> slot (i_snap s) i + 8 \<le> x"
    "x < v_base (val_switched s) \<or> v_base (val_switched s) + length vb + 1 \<le> x" for x
  proof -
    have "m' x = snap_bytes s (i_base s) m x" unfolding m' by (rule fr) (use that k in auto)
    also have "\<dots> = m x" using that(2) u by (intro snap_bytes_outside) simp
    finally show ?thesis .
  qed
  have cells: "i < k \<Longrightarrow> slot (i_snap s) i + 8 \<le> 224 + 32 * v_keys s" for i
    using k n by (simp add: areas)
  show "m' (i_snap s + i) = m (i_base s + i)" if "i < 12" for i
  proof -
    have "m' (i_snap s + i) = snap_bytes s (i_base s) m (i_snap s + i)"
      unfolding m' by (rule fr) (use that k n in \<open>auto simp: areas\<close>)
    then show ?thesis using that snap_bytes_slot [of 0 s i "i_base s" m] u by simp
  qed
  show "m' x = m x" if "v_base s \<le> x" "x < v_base s + 256 * v_keys s" for x
  proof (rule f)
    show "x < slot (i_snap s) i \<or> slot (i_snap s) i + 8 \<le> x" if "i < k" for i
      using cells [OF that] \<open>v_base s \<le> x\<close> by (auto simp: val_area_at_def split: if_splits)
  qed (use that fits n in \<open>auto simp: areas split: if_splits\<close>)
  show "m' x = m x" if "k_base s \<le> x" "x < k_base s + 64 * v_keys s" for x
  proof (rule f)
    show "x < slot (i_snap s) i \<or> slot (i_snap s) i + 8 \<le> x" if "i < k" for i
      using cells [OF that] \<open>k_base s \<le> x\<close> by (auto simp: key_area_at_def split: if_splits)
  qed (use that fits n in \<open>auto simp: areas split: if_splits\<close>)
qed

lemma compact_idle:
  assumes k: "k \<le> 2" and n: "30 \<le> v_keys s" and u: "v_used s = 1"
    and fits: "length vb + 1 \<le> 256 * v_keys s" and m': "m' = compact_bytes s k vb m" and j: "j < 2"
    and len31: "file_len (v_keys s) < 2 ^ 31"
    and idle: "idle_slot (v_keys s) m (slot (item_area_at (v_keys s) one) j)"
  shows "idle_slot (v_keys s) m' (slot (item_area_at (v_keys s) one) j)"
proof -
  let ?a = "slot (item_area_at (v_keys s) one) j"
  note f = compact_kept(1) [OF k n u fits m']
  have q: "?a + 12 \<le> 224 + 32 * v_keys s" "128 \<le> ?a" using j n by (simp_all add: areas)
  have out: "?a + 12 \<le> i_snap s \<or> i_snap s + 64 \<le> ?a"
    using j n by (auto simp: areas split: if_splits)
  have len: "rd32 m' (?a + 8) = rd32 m (?a + 8)"
  proof (rule rd_cong(1), rule f)
    fix x i
    assume x: "?a + 8 \<le> x" "x < ?a + 8 + 4" and i: "i < k"
    then show "x < slot (i_snap s) i \<or> slot (i_snap s) i + 8 \<le> x"
      using j k n by (cases "i < j"; cases "i = j") (auto simp: areas split: if_splits)
  qed (use q out in \<open>auto simp: areas split: if_splits\<close>)
  have "rd64 m' ?a = rd64 m ?a \<or> unat (rd64 m' ?a) \<le> file_len (v_keys s)"
  proof (cases "one \<noteq> v_item_one s \<and> j < k")
    case True
    then have a: "?a = slot (i_snap s) j" by (cases one) auto
    let ?v = "v_base (val_switched s)"
    have v: "?v \<le> file_len (v_keys s)" "?v < 2 ^ 64" using len31 by (simp_all add: areas)
    have "rd64 m' ?a = rd64 (marked (i_snap s) ?v (snap_bytes s (i_base s) m) k) ?a"
    proof (rule rd_cong(2))
      fix x
      assume x: "?a \<le> x" "x < ?a + 8"
      then show "m' x = marked (i_snap s) ?v (snap_bytes s (i_base s) m) k x"
        unfolding m' using q a k n by (intro compact_bytes_marked) (auto simp: areas)
    qed
    also have "\<dots> = W64 ?v" unfolding a using True by (intro marked_cell) simp
    finally show ?thesis using v by (simp add: unat_W64 areas)
  next
    case False
    have "rd64 m' ?a = rd64 m ?a"
    proof (rule rd_cong(2), rule f)
      fix x i
      assume x: "?a \<le> x" "x < ?a + 8" and i: "i < k"
      then show "x < slot (i_snap s) i \<or> slot (i_snap s) i + 8 \<le> x"
        using False j k n by (cases "i < j"; cases "i = j") (auto simp: areas split: if_splits)
    qed (use q out in \<open>auto simp: areas split: if_splits\<close>)
    then show ?thesis by simp
  qed
  then show ?thesis using idle len by (auto simp: idle_slot_def)
qed


text \<open>The value record of a value that compaction put at the start of its area.\<close>

definition first_record :: "store_view \<Rightarrow> byte list \<Rightarrow> pupa_store_item_val" where
  "first_record s vb = \<lparr>value_offset = W64 (v_base s), value_len = W32 (length vb + 1)\<rparr>"

lemma compact_lone:
  assumes l: "lone s c (skey kb) rs" and k: "length rs \<le> 2" and items: "store_items c = W64 (i_base s)"
    and key: "cstr key kb" and val: "cstr val vb"
    and full: "256 * v_keys s < v_val_used s + length vb + 1" and fits: "length vb + 1 \<le> 256 * v_keys s"
  obtains c' where "pupa_store_set env c key val = Some (pupa_shm_sync env c', c')"
    "lone (compact_view s vb) c' (skey kb) (first_record (compact_view s vb) vb # rs)"
    "bytes_at (mbytes c') (v_base (compact_view s vb)) (length vb + 1) = stored vb"
    "\<And>x. v_base s \<le> x \<Longrightarrow> x < v_base s + 256 * v_keys s \<Longrightarrow> mbytes c' x = mbytes c x"
proof -
  note d = loneD [OF l] and v = view_okD [OF loneD(2) [OF l]]
  define c' where "c' = c\<lparr>store_items_snapshot := W64 (i_snap s),
      mbytes := compact_bytes s (length rs) vb (mbytes c)\<rparr>"
  define s' where "s' = compact_view s vb"
  have m': "mbytes c' = compact_bytes s (length rs) vb (mbytes c)" by (simp add: c'_def)
  note run = compact_run [OF l k items key val full fits c'_def]
  note en = compact_entry [OF d(8) k d(4,3,7) fits m']
  note kept = compact_kept [OF k d(4,3) fits m']
  have s': "v_keys s' = v_keys s" "v_item_one s' = (\<not> v_item_one s)" "v_val_one s' = (\<not> v_val_one s)"
    "v_key_one s' = v_key_one s" "v_used s' = 1" "v_key_used s' = v_key_used s"
    using d(3) by (simp_all add: s'_def replace_view_def)
  have it: "key_offset (rd_item (mbytes c') (i_snap s)) = key_offset (rd_item (mbytes c) (i_base s))"
    "key_len (rd_item (mbytes c') (i_snap s)) = key_len (rd_item (mbytes c) (i_base s))"
  proof -
    have "bytes_at (mbytes c') (i_snap s + k) n = bytes_at (mbytes c) (i_base s + k) n"
      if "k + n \<le> 12" for k n
      using kept(2) that by (intro nth_equalityI) (simp_all add: add.assoc)
    from this [of 0 8] this [of 8 4]
    show "key_offset (rd_item (mbytes c') (i_snap s)) = key_offset (rd_item (mbytes c) (i_base s))"
      "key_len (rd_item (mbytes c') (i_snap s)) = key_len (rd_item (mbytes c) (i_base s))"
      by (simp_all add: rd_item_def rd32_def rd64_def)
  qed
  have ko: "key_ok s' (mbytes c') (i_snap s)" using d(5) it s' by (simp add: key_ok_def Let_def)
  have "item_key (mbytes c') (i_snap s) = item_key (mbytes c) (i_base s)"
    using d(5) v(4) unfolding item_key_def it Let_def key_ok_def
    by (intro arg_cong [where f = StoreKey] bytes_at_cong kept(4)) auto
  then have ik: "item_key (mbytes c') (i_snap s) = skey kb" using d(6) by simp
  have vals: "item_val (mbytes c') (i_snap s) (2 - r) = (first_record s' vb # rs) ! r"
    if "r < length (first_record s' vb # rs)" for r
  proof (cases r)
    case 0
    then show ?thesis using en(3) by (simp add: first_record_def s')
  next
    case (Suc p)
    then have "item_val (mbytes c') (i_snap s) (2 - r) = item_val (mbytes c) (i_base s) (2 - r + 1)"
      using that k by (intro en(2)) auto
    moreover have "2 - r + 1 = 2 - p" using Suc that k by auto
    ultimately show ?thesis using d(10) [of p] Suc that by simp
  qed
  have vo: "view_ok s'"
    using d(2) fits by (simp add: s'_def view_ok_def replace_view_def)
  have fl: "file_len (v_keys s) < 2 ^ 31" using v(1) by (simp add: file_len_def)
  have "lone s' c' (skey kb) (first_record s' vb # rs)"
    unfolding lone_def s'(1,2)
    using run(2) vo s'(5) d(4) ko ik en(1) k vals compact_idle [OF k d(4,3) fits m' _ fl d(11)]
    by (simp add: s'_def)
  then show ?thesis
    using that [of c'] run(1) en(4) kept(3) by (simp add: s'_def replace_view_def)
qed

text \<open>A store with one value of one key in it.\<close>

lemma one_value_lone:
  assumes w: "writer_ok c" and e: "store_entries c = [(skey kb, [stored vb])]"
    and u: "v_val_used (view_of c) = length vb + 1" and n: "30 \<le> v_keys (view_of c)"
    and idle: "\<And>one j. j < 2 \<Longrightarrow>
      idle_slot (v_keys (view_of c)) (mbytes c) (slot (item_area_at (v_keys (view_of c)) one) j)"
  shows "lone (view_of c) c (skey kb) [first_record (view_of c) vb]"
proof -
  let ?s = "view_of c" and ?m = "mbytes c" and ?b = "i_base (view_of c)"
  have wv: "wf_view ?s c" and wr: "writer ?s c (unat (store_items c))"
    using w writer_ok_wf [OF w] by (simp_all add: store_wf_def writer_ok_def)
  note d = wf_viewD [OF wv]
  have es: "entries ?m ?b (v_used ?s) = [(skey kb, [stored vb])]"
    using e store_entries_view [OF wv] by simp
  then have u1: "v_used ?s = 1" using length_entries [of ?m ?b "v_used ?s"] by simp
  then have en: "item_key ?m ?b = skey kb" "item_values ?m ?b = [stored vb]"
    using es by (simp_all add: entries_def entry_def)
  have ok: "item_ok ?s ?m ?b" using wf_view_item [OF wv, of 0] u1 by simp
  have cn: "unat (val_cnt (rd_item ?m ?b)) = 1" using arg_cong [OF en(2), of length] by simp
  have vo: "val_ok ?s ?m (item_val ?m ?b 2)" using ok cn by (simp add: item_ok_def Let_def)
  have vb: "val_bytes ?m (item_val ?m ?b 2) = stored vb"
    using item_values_nth [of 1 ?m ?b] cn en(2) by simp
  have len: "unat (value_len (item_val ?m ?b 2)) = length vb + 1"
    using arg_cong [OF vb, of length] by (simp add: val_bytes_def)
  have off: "unat (value_offset (item_val ?m ?b 2)) = v_base ?s"
    using vo len u by (simp add: val_ok_def)
  have "item_val ?m ?b 2 = first_record ?s vb"
    unfolding first_record_def off [symmetric] len [symmetric] by (simp add: W64_def W32_def)
  moreover have "rd32 ?m (?b + 12) = W32 1"
    using cn unfolding cn [symmetric] by (simp add: rd_item_def W32_def)
  ultimately show ?thesis
    using writerD(5,6) [OF wr] u1 n item_ok_key_ok [OF ok] en(1) idle by (simp add: lone_def)
qed


lemma record_denotes:
  assumes "hdr_ok s' c" "v_keys s' = v_keys s" "length vb + 1 \<le> 256 * v_keys s"
    "bytes_at (mbytes c) (v_base s) (length vb + 1) = bs"
  shows "denotes c (val_ref (first_record s vb)) bs"
proof -
  note d = hdr_okD [OF assms(1)]
  have fit: "v_base s + (length vb + 1) \<le> msize c" "v_base s < 2 ^ 64" "length vb + 1 < 2 ^ 32"
    using d(3,4) assms(2,3) by (simp_all add: areas)
  have "length bs = length vb + 1" using assms(4) by auto
  then show ?thesis
    using fit assms(4)
    by (simp add: denotes_def val_ref_def first_record_def cptr_bytes_def ldn_def in_map_def
        unat_W32 unat_W64)
qed

text \<open>
  Two replacements in a row that compact, with a lookup in between: the second one writes where
  the first value of the key still is.
\<close>

lemma compact_twice:
  assumes l: "lone s c (skey kb) [first_record s v0]" and items: "store_items c = W64 (i_base s)"
    and key: "cstr key kb" and x1: "cstr x1 v1" and x2: "cstr x2 v2"
    and full: "256 * v_keys s < v_val_used s + length v1 + 1" "256 * v_keys s < length v1 + length v2 + 2"
    and fits: "length v1 + 1 \<le> 256 * v_keys s" "length v2 + 1 \<le> 256 * v_keys s"
    and v0: "length v0 \<le> length v2"
  obtains c1 c2 u1 u2 u3 where "pupa_store_set env c key x1 = Some (pupa_shm_sync env c1, c1)"
    "pupa_store_get c1 key (W32 1) = Some (PUPA_OK, Some u1, refresh c1)" "denotes c1 u1 (stored v1)"
    "pupa_store_set env (refresh c1) key x2 = Some (pupa_shm_sync env c2, c2)"
    "pupa_store_get c2 key (W32 2) = Some (PUPA_OK, Some u2, refresh c2)" "denotes c2 u2 (stored v1)"
    "pupa_store_get c2 key (W32 3) = Some (PUPA_OK, Some u3, refresh c2)"
    "denotes c2 u3 (take (length v0 + 1) (stored v2))"
proof -
  define s1 where "s1 = compact_view s v1"
  define s2 where "s2 = compact_view s1 v2"
  have n1: "length [first_record s v0] \<le> 2" and
    n2: "length [first_record s1 v1, first_record s v0] \<le> 2" by simp_all
  obtain c1 where c1: "pupa_store_set env c key x1 = Some (pupa_shm_sync env c1, c1)"
    "lone s1 c1 (skey kb) [first_record s1 v1, first_record s v0]"
    "bytes_at (mbytes c1) (v_base s1) (length v1 + 1) = stored v1"
    by (rule compact_lone [OF l n1 items key x1 full(1) fits(1), where env = env, folded s1_def])
  have s1: "v_keys s1 = v_keys s" "v_val_used s1 = length v1 + 1" "v_val_one s1 = (\<not> v_val_one s)"
    by (simp_all add: s1_def replace_view_def)
  have s2: "v_keys s2 = v_keys s" "v_val_one s2 = v_val_one s"
    by (simp_all add: s2_def s1 replace_view_def)
  have vo: "view_of c1 = s1" by (rule searchableD(11) [OF lone_searchable [OF c1(2)]])
  have l1: "lone s1 (refresh c1) (skey kb) [first_record s1 v1, first_record s v0]"
    using c1(2) by (simp add: lone_def hdr_ok_def refresh_def)
  have it1: "store_items (refresh c1) = W64 (i_base s1)" by (simp add: refresh_def vo)
  have f1: "256 * v_keys s1 < v_val_used s1 + length v2 + 1" "length v2 + 1 \<le> 256 * v_keys s1"
    using full(2) fits(2) by (simp_all add: s1)
  obtain c2 where c2: "pupa_store_set env (refresh c1) key x2 = Some (pupa_shm_sync env c2, c2)"
    "lone s2 c2 (skey kb) [first_record s2 v2, first_record s1 v1, first_record s v0]"
    "bytes_at (mbytes c2) (v_base s2) (length v2 + 1) = stored v2"
    "\<And>x. v_base s1 \<le> x \<Longrightarrow> x < v_base s1 + 256 * v_keys s1 \<Longrightarrow>
       mbytes c2 x = mbytes (refresh c1) x"
    by (rule compact_lone [OF l1 n2 it1 key x2 f1, where env = env, folded s2_def], rule that)
  note h1 = loneD(1) [OF c1(2)] and h2 = loneD(1) [OF c2(2)]
  have b1: "bytes_at (mbytes c2) (v_base s1) (length v1 + 1) = stored v1"
    using c2(4) c1(3) fits(1) s1(1) bytes_at_cong [of "v_base s1" "length v1 + 1" "mbytes c2" "mbytes c1"]
    by (simp add: refresh_def)
  have "bytes_at (mbytes c2) (v_base s2) (length v0 + 1) = take (length v0 + 1) (stored v2)"
    using bytes_at_sub [of 0 "length v0 + 1" "length v2 + 1" "mbytes c2" "v_base s2"] c2(3) v0 by simp
  then have b0: "bytes_at (mbytes c2) (v_base s) (length v0 + 1) = take (length v0 + 1) (stored v2)"
    by (simp add: s2)
  show ?thesis
  proof (rule that)
    show "pupa_store_get c1 key (W32 1) = Some (PUPA_OK, Some (val_ref (first_record s1 v1)), refresh c1)"
      using lone_get [OF c1(2) key, of 1] by simp
    show "denotes c1 (val_ref (first_record s1 v1)) (stored v1)"
      by (rule record_denotes [OF h1 _ _ c1(3)]) (use fits s1 in simp_all)
    show "pupa_store_get c2 key (W32 2) = Some (PUPA_OK, Some (val_ref (first_record s1 v1)), refresh c2)"
      using lone_get [OF c2(2) key, of 2] by simp
    show "denotes c2 (val_ref (first_record s1 v1)) (stored v1)"
      by (rule record_denotes [OF h2 _ _ b1]) (use fits s1 s2 in simp_all)
    show "pupa_store_get c2 key (W32 3) = Some (PUPA_OK, Some (val_ref (first_record s v0)), refresh c2)"
      using lone_get [OF c2(2) key, of 3] by simp
    show "denotes c2 (val_ref (first_record s v0)) (take (length v0 + 1) (stored v2))"
      by (rule record_denotes [OF h2 _ _ b0]) (use fits v0 s2 in simp_all)
  qed (use c1(1) c2(1) in simp_all)
qed

end
