(* ===== verification/Demo.thy ===== *)
theory Demo
  imports Edges Compact
begin

text \<open>
  Small stores at which the properties are applied: a new file for 16 keys (its index holds
  four entries), and what a process that wrote to it one, two or three times has mapped.
\<close>

definition demo_file :: disk_file where
  "demo_file = fresh_file 16 (\<lambda>_. 0)"

definition demo0 :: pupa_ctx where
  "demo0 = (file_ctx demo_file)\<lparr>store_items := W64 128\<rparr>"

definition demo_set :: "pupa_ctx \<Rightarrow> byte list \<Rightarrow> byte list \<Rightarrow> pupa_ctx" where
  "demo_set c kb vb = snd (the (pupa_store_set env_good c (mk_str kb) (mk_str vb)))"

text \<open>The keys \<open>b\<close>, \<open>c\<close>, and \<open>a\<close>, which is smaller than both.\<close>

definition key_a :: "byte list" where "key_a = [97]"
definition key_b :: "byte list" where "key_b = [98]"
definition key_c :: "byte list" where "key_c = [99]"

definition demo1 :: pupa_ctx where "demo1 = demo_set demo0 key_b [49]"
definition demo2 :: pupa_ctx where "demo2 = demo_set demo1 key_c [50]"
definition demo2' :: pupa_ctx where "demo2' = demo_set demo1 key_b [51]"

lemmas demo_keys = key_a_def key_b_def key_c_def

lemma demo_cstr [simp]: "length bs < 100 \<Longrightarrow> cstr (mk_str bs) bs"
  by (simp add: cstr_mk_str)

lemma demo_sync [simp]: "pupa_shm_sync env_good c = PUPA_OK" "malloc_ok env_good"
  by (simp_all add: pupa_shm_sync_def env_good_def)

lemma demo_view: "fresh_view 16 = \<lparr>v_keys = 16, v_item_one = True, v_key_one = True,
    v_val_one = True, v_used = 0, v_key_used = 0, v_val_used = 0\<rparr>"
  by (simp add: fresh_view_def)

lemma demo_file_ok: "file_ok demo_file" "file_view demo_file = fresh_view 16"
  "file_map demo_file = Map.empty"
  by (simp_all add: demo_file_def fresh_file_ok file_len_def)

lemma demo0_facts:
  "writer_ok demo0" "synced demo0" "store_map demo0 = Map.empty" "view_of demo0 = fresh_view 16"
  "work_entries demo0 = []" "work_map demo0 = Map.empty" "store_wf demo0"
proof -
  have m: "maps_file demo0 demo_file"
    by (simp add: demo0_def maps_file_def file_ctx_def)
  note f = maps_fileD [OF m]
  show wf: "store_wf demo0" and v: "view_of demo0 = fresh_view 16" and sm: "store_map demo0 = Map.empty"
    using f by (simp_all add: demo_file_ok)
  have it: "store_items demo0 = W64 (i_base (fresh_view 16))"
    by (simp add: demo0_def demo_view item_area_at_def)
  show sy: "synced demo0" by (simp add: synced_def v it)
  have w: "writer (fresh_view 16) demo0 (i_base (fresh_view 16))"
    using wf by (intro synced_writer) (simp_all add: store_wf_def v it, simp add: demo0_def file_ctx_def)
  show "writer_ok demo0" by (rule writer_writer_ok [OF w])
  show "work_entries demo0 = []" by (simp add: writer_work [OF w] entries_def) (simp add: demo_view)
  show "work_map demo0 = Map.empty" using synced_work_map [OF wf sy] sm by simp
qed

text \<open>The writes, through the lemmas on \<open>pupa_store_set\<close>.\<close>

lemma demo_new:
  assumes "writer_ok c" "length kb < 100" "length vb < 100" "work_map c (skey kb) = None"
    "has_room (view_of c) kb vb" "search_returns c kb" "c' = demo_set c kb vb"
  shows "writer_ok c'" "synced c'" "store_map c' = (work_map c)(skey kb \<mapsto> [stored vb])"
    "work_entries c' = insert_entry (work_entries c) (skey kb) [stored vb]"
    "view_of c' = switched (insert_view (view_of c) kb vb)" "store_wf c'" "work_map c' = store_map c'"
    "pupa_store_set env_good c (mk_str kb) (mk_str vb) = Some (PUPA_OK, c')"
    "\<And>x. untouched (view_of c) kb vb x \<Longrightarrow> mbytes c' x = mbytes c x"
proof -
  obtain d where d: "pupa_store_set env_good c (mk_str kb) (mk_str vb) = Some (PUPA_OK, d)"
    "writer_ok d" "synced d" "store_map d = (work_map c)(skey kb \<mapsto> [stored vb])"
    "work_entries d = insert_entry (work_entries c) (skey kb) [stored vb]"
    "view_of d = switched (insert_view (view_of c) kb vb)"
    "\<forall>x. untouched (view_of c) kb vb x \<longrightarrow> mbytes d x = mbytes c x"
    using set_new_key [of c "mk_str kb" kb "mk_str vb" vb env_good] assms(1-6) by auto
  have "c' = d" using assms(7) d(1) by (simp add: demo_set_def)
  then show "writer_ok c'" "synced c'" "store_map c' = (work_map c)(skey kb \<mapsto> [stored vb])"
    "work_entries c' = insert_entry (work_entries c) (skey kb) [stored vb]"
    "view_of c' = switched (insert_view (view_of c) kb vb)"
    "store_wf c'" "work_map c' = store_map c'"
    "pupa_store_set env_good c (mk_str kb) (mk_str vb) = Some (PUPA_OK, c')"
    "\<And>x. untouched (view_of c) kb vb x \<Longrightarrow> mbytes c' x = mbytes c x"
    using d writer_ok_wf synced_work_map by auto
qed

lemma demo_present:
  assumes "writer_ok c" "length kb < 100" "length vb < 100" "work_map c (skey kb) = Some vs"
    "val_room (view_of c) vb" "synced c" "c' = demo_set c kb vb"
  shows "writer_ok c'" "\<not> synced c'" "work_map c' = work_map c" "store_wf c'"
    "store_map c' = (work_map c)(skey kb \<mapsto> take 3 (stored vb # vs))"
    "work_entries c' = work_entries c"
    "view_of c' = switched (replace_view (view_of c) vb)"
    "pupa_store_set env_good c (mk_str kb) (mk_str vb) = Some (PUPA_OK, c')"
    "\<exists>i < length (work_entries c). fst (work_entries c ! i) = skey kb \<and>
        store_entries c' = (work_entries c) [i := (skey kb, take 3 (stored vb # vs))]"
proof -
  obtain d where d: "pupa_store_set env_good c (mk_str kb) (mk_str vb) = Some (PUPA_OK, d)"
    "writer_ok d" "\<not> synced d" "work_map d = work_map c"
    "store_map d = (work_map c)(skey kb \<mapsto> take 3 (stored vb # vs))"
    "work_entries d = work_entries c" "view_of d = switched (replace_view (view_of c) vb)"
    "\<exists>i < length (work_entries c). fst (work_entries c ! i) = skey kb \<and>
        store_entries d = (work_entries c) [i := (skey kb, take 3 (stored vb # vs))]"
    using set_present_key [of c "mk_str kb" kb "mk_str vb" vb vs env_good] assms(1-6) by auto
  have "c' = d" using assms(7) d(1) by (simp add: demo_set_def)
  then show "writer_ok c'" "\<not> synced c'" "work_map c' = work_map c" "store_wf c'"
    "store_map c' = (work_map c)(skey kb \<mapsto> take 3 (stored vb # vs))"
    "work_entries c' = work_entries c"
    "view_of c' = switched (replace_view (view_of c) vb)"
    "pupa_store_set env_good c (mk_str kb) (mk_str vb) = Some (PUPA_OK, c')"
    "\<exists>i < length (work_entries c). fst (work_entries c ! i) = skey kb \<and>
        store_entries c' = (work_entries c) [i := (skey kb, take 3 (stored vb # vs))]"
    using d writer_ok_wf by auto
qed

lemma demo0_room: "has_room (view_of demo0) kb vb \<longleftrightarrow> length kb < 1024 \<and> length vb < 4096"
  by (simp add: demo0_facts demo_view has_room_def) linarith

lemma demo0_returns: "search_returns demo0 kb"
  by (simp add: search_returns_def demo0_facts demo_view left_ok.simps)

lemma demo1_facts:
  "writer_ok demo1" "synced demo1" "store_map demo1 = [skey key_b \<mapsto> [stored [49]]]"
  "work_entries demo1 = [(skey key_b, [stored [49]])]" "store_wf demo1"
  "work_map demo1 = [skey key_b \<mapsto> [stored [49]]]"
  "view_of demo1 = \<lparr>v_keys = 16, v_item_one = False, v_key_one = True, v_val_one = True,
     v_used = 1, v_key_used = 2, v_val_used = 2\<rparr>"
proof -
  note n = demo_new [of demo0 key_b "[49]" demo1]
  have p: "writer_ok demo0" "length key_b < 100" "length [49 :: byte] < 100"
    "work_map demo0 (skey key_b) = None" "has_room (view_of demo0) key_b [49]"
    "search_returns demo0 key_b" "demo1 = demo_set demo0 key_b [49]"
    by (simp_all add: demo0_facts(1,6) demo0_room demo0_returns demo1_def demo_keys)
  note f = n [OF p]
  show "writer_ok demo1" "synced demo1" "store_wf demo1" using f by simp_all
  show sm: "store_map demo1 = [skey key_b \<mapsto> [stored [49]]]" using f(3) by (simp add: demo0_facts)
  show "work_map demo1 = [skey key_b \<mapsto> [stored [49]]]" using f(7) sm by simp
  show "work_entries demo1 = [(skey key_b, [stored [49]])]"
    using f(4) by (simp add: demo0_facts insert_entry_def insert_pos_def)
  show "view_of demo1 = \<lparr>v_keys = 16, v_item_one = False, v_key_one = True, v_val_one = True,
     v_used = 1, v_key_used = 2, v_val_used = 2\<rparr>"
    using f(5) by (simp add: demo0_facts demo_view insert_view_def add_view_def demo_keys)
qed

lemma key_order: "skey key_b < skey key_c" "skey key_a < skey key_b"
  by (simp_all add: less_store_key_def stored_def demo_keys)

lemma demo2_facts:
  "writer_ok demo2" "synced demo2" "store_wf demo2"
  "store_map demo2 = [skey key_b \<mapsto> [stored [49]], skey key_c \<mapsto> [stored [50]]]"
  "work_entries demo2 = [(skey key_b, [stored [49]]), (skey key_c, [stored [50]])]"
  "work_map demo2 = store_map demo2"
  "view_of demo2 = \<lparr>v_keys = 16, v_item_one = True, v_key_one = True, v_val_one = True,
     v_used = 2, v_key_used = 4, v_val_used = 4\<rparr>"
proof -
  have pos: "insert_pos (skey key_c) [skey key_b] = 1"
    using key_order(1) by (simp add: insert_pos_def)
  have ne: "skey key_c \<noteq> skey key_b" using key_order(1) by auto
  have p: "writer_ok demo1" "length key_c < 100" "length [50 :: byte] < 100"
    "work_map demo1 (skey key_c) = None" "has_room (view_of demo1) key_c [50]"
    "search_returns demo1 key_c" "demo2 = demo_set demo1 key_c [50]"
    using ne pos
    by (simp_all add: demo1_facts has_room_def search_returns_def demo2_def)
      (simp_all add: demo_keys)
  note f = demo_new [OF p]
  show "writer_ok demo2" "synced demo2" "store_wf demo2" "work_map demo2 = store_map demo2"
    using f by simp_all
  show "store_map demo2 = [skey key_b \<mapsto> [stored [49]], skey key_c \<mapsto> [stored [50]]]"
    using f(3) by (simp add: demo1_facts)
  show "work_entries demo2 = [(skey key_b, [stored [49]]), (skey key_c, [stored [50]])]"
    using f(4) pos by (simp add: demo1_facts insert_entry_def)
  show "view_of demo2 = \<lparr>v_keys = 16, v_item_one = True, v_key_one = True, v_val_one = True,
     v_used = 2, v_key_used = 4, v_val_used = 4\<rparr>"
    using f(5) by (simp add: demo1_facts insert_view_def add_view_def demo_keys)
qed

text \<open>The value of \<open>b\<close> replaced: the next write would start from the index before that.\<close>

lemma demo2'_facts:
  "writer_ok demo2'" "\<not> synced demo2'" "store_wf demo2'"
  "store_map demo2' = [skey key_b \<mapsto> [stored [51], stored [49]]]"
  "work_map demo2' = [skey key_b \<mapsto> [stored [49]]]"
  "work_entries demo2' = [(skey key_b, [stored [49]])]"
  "store_entries demo2' = [(skey key_b, [stored [51], stored [49]])]"
  "view_of demo2' = \<lparr>v_keys = 16, v_item_one = True, v_key_one = True, v_val_one = True,
     v_used = 1, v_key_used = 2, v_val_used = 4\<rparr>"
proof -
  have p: "writer_ok demo1" "length key_b < 100" "length [51 :: byte] < 100"
    "work_map demo1 (skey key_b) = Some [stored [49]]" "val_room (view_of demo1) [51]"
    "synced demo1" "demo2' = demo_set demo1 key_b [51]"
    by (simp_all add: demo1_facts val_room_def demo2'_def) (simp add: demo_keys)
  note f = demo_present [OF p]
  show "writer_ok demo2'" "\<not> synced demo2'" "store_wf demo2'"
    "store_map demo2' = [skey key_b \<mapsto> [stored [51], stored [49]]]"
    "work_map demo2' = [skey key_b \<mapsto> [stored [49]]]"
    "work_entries demo2' = [(skey key_b, [stored [49]])]"
    using f by (simp_all add: demo1_facts)
  show "store_entries demo2' = [(skey key_b, [stored [51], stored [49]])]"
    using f(9) by (simp add: demo1_facts)
  show "view_of demo2' = \<lparr>v_keys = 16, v_item_one = True, v_key_one = True, v_val_one = True,
     v_used = 1, v_key_used = 2, v_val_used = 4\<rparr>"
    using f(7) by (simp add: demo1_facts replace_view_def)
qed

text \<open>Two commands on a file that does not exist yet.\<close>

definition demo_commands :: "(byte list \<times> byte list) list" where
  "demo_commands = [(key_b, [49]), (key_b, [50])]"

lemma demo_tool:
  "\<exists>f. tool_put junk ''f'' 16 Map.empty key_b [49] = Some [''f'' \<mapsto> f] \<and> file_ok f \<and>
     file_map f = [skey key_b \<mapsto> [stored [49]]] \<and>
     file_view f = switched (insert_view (fresh_view 16) key_b [49])"
proof -
  have a: "empty_path Map.empty ''f''" "file_len 16 < 2 ^ 31" "cstr (mk_str key_b) key_b"
    "cstr (mk_str [49]) [49]" "has_room (fresh_view 16) key_b [49]"
    by (simp_all add: empty_path_def file_len_def demo_keys has_room_def demo_view)
  then show ?thesis
    using pt_set_fresh [OF a(1,2) env_good_ok a(3-5), where junk = junk]
    by (auto simp: tool_put_def)
qed

lemma demo_commands_ready:
  "path_ok Map.empty ''f''" "commands_ready junk ''f'' 16 Map.empty demo_commands"
proof -
  show "path_ok Map.empty ''f''" by (simp add: path_ok_def empty_path_def)
  obtain f where f: "tool_put junk ''f'' 16 Map.empty key_b [49] = Some [''f'' \<mapsto> f]" "file_ok f"
    "file_map f = [skey key_b \<mapsto> [stored [49]]]"
    "file_view f = switched (insert_view (fresh_view 16) key_b [49])"
    using demo_tool by blast
  have r1: "tool_ready ''f'' 16 Map.empty key_b [49]"
    by (simp add: tool_ready_def empty_path_def fresh_ready file_len_def)
      (simp add: demo_keys has_room_def demo_view)
  have ne: "\<not> empty_path [''f'' \<mapsto> f] ''f''" by (rule file_ok_not_empty [of _ _ f]) (simp_all add: f(2))
  then have r2: "tool_ready ''f'' 16 [''f'' \<mapsto> f] key_b [50]"
    using f(2-4) by (simp add: tool_ready_def file_ready_def val_room_def)
      (simp add: demo_keys demo_view)
  obtain d where "tool_put junk ''f'' 16 [''f'' \<mapsto> f] key_b [50] = Some d"
    using tool_put_eq [OF r2, of junk] by blast
  then show "commands_ready junk ''f'' 16 Map.empty demo_commands"
    using r1 r2 f(1) by (simp add: demo_commands_def del: fun_upd_apply)
qed

text \<open>A lookup between the writes.\<close>

lemma demo_refresh:
  assumes "writer_ok c"
  shows "writer_ok (refresh c)" "synced (refresh c)" "work_map (refresh c) = store_map c"
    "work_entries (refresh c) = store_entries c" "view_of (refresh c) = view_of c"
proof -
  have m: "store_wf c" "mwritable c"
    using assms writer_ok_wf by (auto simp: writer_ok_def writer_def)
  note r = refresh_writer [OF m]
  show "writer_ok (refresh c)" "synced (refresh c)" "work_map (refresh c) = store_map c"
    using r by simp_all
  have "store_entries (refresh c) = store_entries c"
    by (simp add: store_entries_def refresh_def)
  then show "work_entries (refresh c) = store_entries c"
    using synced_work_entries [OF r(1,2)] by simp
  show "view_of (refresh c) = view_of c" by (simp add: refresh_def)
qed

text \<open>Three values of \<open>b\<close>, then \<open>c\<close>.\<close>

definition demo3 :: pupa_ctx where "demo3 = demo_set (refresh demo2') key_b [52]"
definition demo4 :: pupa_ctx where "demo4 = demo_set (refresh demo3) key_c [53]"

lemma demo3_facts:
  "writer_ok demo3" "store_map demo3 = [skey key_b \<mapsto> [stored [52], stored [51], stored [49]]]"
  "store_entries demo3 = [(skey key_b, [stored [52], stored [51], stored [49]])]"
  "view_of demo3 = \<lparr>v_keys = 16, v_item_one = False, v_key_one = True, v_val_one = True,
     v_used = 1, v_key_used = 2, v_val_used = 6\<rparr>"
proof -
  note r = demo_refresh [OF demo2'_facts(1)]
  have p: "writer_ok (refresh demo2')" "length key_b < 100" "length [52 :: byte] < 100"
    "work_map (refresh demo2') (skey key_b) = Some [stored [51], stored [49]]"
    "val_room (view_of (refresh demo2')) [52]" "synced (refresh demo2')"
    "demo3 = demo_set (refresh demo2') key_b [52]"
    by (simp_all add: r demo2'_facts val_room_def demo3_def) (simp add: demo_keys)
  note f = demo_present [OF p]
  show "writer_ok demo3" using f by simp
  show "store_map demo3 = [skey key_b \<mapsto> [stored [52], stored [51], stored [49]]]"
    using f(5) by (simp add: r demo2'_facts)
  show "store_entries demo3 = [(skey key_b, [stored [52], stored [51], stored [49]])]"
    using f(9) by (simp add: r demo2'_facts)
  show "view_of demo3 = \<lparr>v_keys = 16, v_item_one = False, v_key_one = True, v_val_one = True,
     v_used = 1, v_key_used = 2, v_val_used = 6\<rparr>"
    using f(7) by (simp add: r demo2'_facts replace_view_def)
qed

lemma demo4_facts:
  "writer_ok demo4"
  "work_entries demo4 =
     [(skey key_b, [stored [52], stored [51], stored [49]]), (skey key_c, [stored [53]])]"
proof -
  note r = demo_refresh [OF demo3_facts(1)]
  have pos: "insert_pos (skey key_c) [skey key_b] = 1"
    using key_order(1) by (simp add: insert_pos_def)
  have ne: "skey key_c \<noteq> skey key_b" using key_order(1) by auto
  have p: "writer_ok (refresh demo3)" "length key_c < 100" "length [53 :: byte] < 100"
    "work_map (refresh demo3) (skey key_c) = None" "has_room (view_of (refresh demo3)) key_c [53]"
    "search_returns (refresh demo3) key_c" "demo4 = demo_set (refresh demo3) key_c [53]"
    using ne pos
    by (simp_all add: r demo3_facts has_room_def search_returns_def demo4_def)
      (simp_all add: demo_keys)
  note f = demo_new [OF p]
  show "writer_ok demo4" using f by simp
  show "work_entries demo4 =
     [(skey key_b, [stored [52], stored [51], stored [49]]), (skey key_c, [stored [53]])]"
    using f(4) pos by (simp add: r demo3_facts insert_entry_def)
qed

text \<open>A third key.\<close>

definition key_d :: "byte list" where "key_d = [100]"
definition demo5 :: pupa_ctx where "demo5 = demo_set demo2 key_d [54]"

lemma demo5_facts:
  "writer_ok demo5" "work_entries demo5 =
     [(skey key_b, [stored [49]]), (skey key_c, [stored [50]]), (skey key_d, [stored [54]])]"
proof -
  have o: "skey key_c < skey key_d" "skey key_b < skey key_d"
    by (simp_all add: less_store_key_def stored_def demo_keys key_d_def)
  then have pos: "insert_pos (skey key_d) [skey key_b, skey key_c] = 2"
    by (simp add: insert_pos_def)
  have ne: "skey key_d \<noteq> skey key_b" "skey key_d \<noteq> skey key_c" using o by auto
  have p: "writer_ok demo2" "length key_d < 100" "length [54 :: byte] < 100"
    "work_map demo2 (skey key_d) = None" "has_room (view_of demo2) key_d [54]"
    "search_returns demo2 key_d" "demo5 = demo_set demo2 key_d [54]"
    using ne pos
    by (simp_all add: demo2_facts has_room_def search_returns_def demo5_def)
      (simp_all add: key_d_def)
  note f = demo_new [OF p]
  show "writer_ok demo5" using f by simp
  show "work_entries demo5 =
     [(skey key_b, [stored [49]]), (skey key_c, [stored [50]]), (skey key_d, [stored [54]])]"
    using f(4) pos by (simp add: demo2_facts insert_entry_def numeral_2_eq_2)
qed

text \<open>The second slot of the index of \<open>demo1\<close> was never used.\<close>

lemma demo1_slot: "key_len (rd_item (mbytes demo1) (i_base (view_of demo1) + 64)) = 0"
proof -
  have p: "writer_ok demo0" "length key_b < 100" "length [49 :: byte] < 100"
    "work_map demo0 (skey key_b) = None" "has_room (view_of demo0) key_b [49]"
    "search_returns demo0 key_b" "demo1 = demo_set demo0 key_b [49]"
    by (simp_all add: demo0_facts(1,6) demo0_room demo0_returns demo1_def demo_keys)
  have z: "mbytes demo1 x = 0" if "496 \<le> x" "x < 512" for x
  proof -
    have "untouched (view_of demo0) key_b [49] x"
      using that by (simp add: demo0_facts demo_view untouched_def areas)
    then have "mbytes demo1 x = mbytes demo0 x" by (rule demo_new(9) [OF p])
    then show ?thesis
      using that by (simp add: demo0_def demo_file_def file_ctx_def fresh_file_def wr_hdr_def
          wr_section_outside mem_simps)
  qed
  have "bytes_at (mbytes demo1) 504 4 = replicate 4 0"
    using z by (intro nth_equalityI) simp_all
  then have "rd32 (mbytes demo1) 504 = 0" by (simp add: rd32_def numeral_eq_Suc)
  then show ?thesis by (simp add: rd_item_def demo1_facts areas)
qed

text \<open>A new store for \<open>n\<close> keys with one key in it.\<close>

definition demo_new_file :: "nat \<Rightarrow> pupa_ctx" where
  "demo_new_file n = (file_ctx (fresh_file n (\<lambda>_. 0)))\<lparr>store_items := W64 128\<rparr>"

definition demo_first :: "nat \<Rightarrow> pupa_ctx" where
  "demo_first n = demo_set (demo_new_file n) key_b [49]"

definition demo_full :: pupa_ctx where "demo_full = demo_first 1"

lemma demo_first_facts:
  assumes n: "file_len n < 2 ^ 31" "1 \<le> n" and c: "c = demo_first n"
  shows "writer_ok c" "synced c" "work_map c = [skey key_b \<mapsto> [stored [49]]]"
    "store_entries c = [(skey key_b, [stored [49]])]"
    "view_of c = switched (insert_view (fresh_view n) key_b [49])"
    "\<And>x. untouched (fresh_view n) key_b [49] x \<Longrightarrow> 128 \<le> x \<Longrightarrow> mbytes c x = 0"
proof -
  let ?c = "demo_new_file n"
  have m: "maps_file ?c (fresh_file n (\<lambda>_. 0))"
    by (simp add: demo_new_file_def maps_file_def file_ctx_def)
  have wf: "store_wf ?c" by (simp only: maps_fileD(1) [OF m] fresh_file_ok(1) [OF n(1)])
  have v: "view_of ?c = fresh_view n"
    by (simp only: maps_fileD(3) [OF m] fresh_file_ok(2) [OF n(1)])
  have f: "v_used (fresh_view n) = 0" "v_keys (fresh_view n) = n" "v_item_one (fresh_view n)"
    "v_key_used (fresh_view n) = 0" "v_val_used (fresh_view n) = 0" by (simp_all add: fresh_view_def)
  have w: "writer (fresh_view n) ?c (i_base (fresh_view n))"
  proof (rule synced_writer)
    show "wf_view (fresh_view n) ?c" using wf by (simp only: store_wf_def v)
    show "mwritable ?c" by (simp add: demo_new_file_def file_ctx_def)
    show "store_items ?c = W64 (i_base (fresh_view n))"
      by (simp add: demo_new_file_def item_area_at_def f)
  qed
  have we: "work_entries ?c = []" by (simp add: writer_work [OF w] entries_def f)
  have p: "writer_ok ?c" "length key_b < 100" "length [49 :: byte] < 100"
    "work_map ?c (skey key_b) = None" "has_room (view_of ?c) key_b [49]"
    "search_returns ?c key_b" "c = demo_set ?c key_b [49]"
    using writer_writer_ok [OF w] n(2)
    by (simp_all add: work_map_def we search_returns_def v f c demo_first_def has_room_def
        left_ok.simps) (simp_all add: demo_keys)
  note g = demo_new [OF p]
  show "writer_ok c" "synced c" by (rule g(1), rule g(2))
  show "work_map c = [skey key_b \<mapsto> [stored [49]]]"
    using g(3,7) by (simp add: work_map_def we)
  have "work_entries c = [(skey key_b, [stored [49]])]"
    using g(4) by (simp add: we insert_entry_def insert_pos_def)
  then show "store_entries c = [(skey key_b, [stored [49]])]"
    using synced_work_entries [OF g(1,2)] by simp
  show "view_of c = switched (insert_view (fresh_view n) key_b [49])" using g(5) by (simp add: v)
  show "mbytes c x = 0" if "untouched (fresh_view n) key_b [49] x" "128 \<le> x" for x
  proof -
    have "mbytes c x = mbytes ?c x" using g(9) that(1) by (simp add: v)
    then show ?thesis
      using that(2) by (simp add: demo_new_file_def file_ctx_def fresh_file_def wr_hdr_def
          wr_section_outside mem_simps)
  qed
qed

lemma demo_full_facts:
  "writer_ok demo_full" "work_map demo_full = [skey key_b \<mapsto> [stored [49]]]"
  "v_used (view_of demo_full) = 1" "v_keys (view_of demo_full) = 1"
proof -
  have n: "file_len 1 < 2 ^ 31" "(1 :: nat) \<le> 1" by (simp_all add: file_len_def)
  note f = demo_first_facts [OF n demo_full_def]
  show "writer_ok demo_full" "work_map demo_full = [skey key_b \<mapsto> [stored [49]]]" using f by simp_all
  show "v_used (view_of demo_full) = 1" "v_keys (view_of demo_full) = 1"
    by (simp_all add: f(5) insert_view_def add_view_def fresh_view_def)
qed

text \<open>The slots that the compaction of the values of that key looks at were never used.\<close>

definition demo_wide :: pupa_ctx where "demo_wide = demo_first 30"

lemma demo_wide_facts:
  "writer_ok demo_wide" "synced demo_wide" "store_entries demo_wide = [(skey key_b, [stored [49]])]"
  "v_val_used (view_of demo_wide) = 2" "v_keys (view_of demo_wide) = 30"
  "j < 2 \<Longrightarrow> idle_slot 30 (mbytes demo_wide) (slot (item_area_at 30 one) j)"
proof -
  have n: "file_len 30 < 2 ^ 31" "(1 :: nat) \<le> 30" by (simp_all add: file_len_def)
  note f = demo_first_facts [OF n demo_wide_def]
  show "writer_ok demo_wide" "synced demo_wide" "store_entries demo_wide = [(skey key_b, [stored [49]])]"
    using f by simp_all
  show "v_val_used (view_of demo_wide) = 2" "v_keys (view_of demo_wide) = 30"
    by (simp_all add: f(5) insert_view_def add_view_def fresh_view_def)
  show "idle_slot 30 (mbytes demo_wide) (slot (item_area_at 30 one) j)" if j: "j < 2"
  proof -
    let ?a = "slot (item_area_at 30 one) j"
    have z: "mbytes demo_wide x = 0" if "?a \<le> x" "x < ?a + 12" for x
      using that j by (intro f(6)) (auto simp: untouched_def fresh_view_def areas split: if_splits)
    have "bytes_at (mbytes demo_wide) (?a + 8) 4 = replicate 4 0" "bytes_at (mbytes demo_wide) ?a 8 = replicate 8 0"
      using z by (auto intro!: nth_equalityI)
    then have "rd32 (mbytes demo_wide) (?a + 8) = 0" "rd64 (mbytes demo_wide) ?a = 0"
      by (simp_all add: rd32_def rd64_def numeral_eq_Suc)
    then show ?thesis by (simp add: idle_slot_def)
  qed
qed

end
