(* ===== verification/Steps.thy ===== *)
theory Steps
  imports Pupa
begin

text \<open>
  \<open>pupa_store_set\<close> as a sequence of steps, for what the readers of the file see while a
  writer works. A lookup of another process runs between two steps. A step is one of the
  named parts of the code; its stores go to areas no lookup reads and to the counters
  \<open>key_section.used\<close> and \<open>value_section.used\<close>, which lookups do not read either, except for
  \<open>item_section.used\<close> and \<open>item_section.id\<close>, which are written by a step of their own.
\<close>

subsection \<open>The steps\<close>

text \<open>Where the writer is, with the local variables that are live there.\<close>

datatype write_pc =
    Begin
  | Snapped
  | Absent size_t addr
  | Key_placed size_t addr addr size_t
  | Key_added size_t addr
  | Value_placed size_t addr addr size_t
  | Value_added size_t
  | Counted size_t
  | Sorted
  | Present addr
  | Room_found addr addr size_t
  | Value_stored addr size_t
  | Shifted addr size_t
  | Recorded addr
  | Replaced
  | Switched
  | Returned int

inductive write_step ::
  "os_env \<Rightarrow> pupa_str \<Rightarrow> pupa_str \<Rightarrow> write_pc \<times> pupa_ctx \<Rightarrow> write_pc \<times> pupa_ctx \<Rightarrow> bool"
  for env key val where
  snapshot: "pupa_store_item_make_snapshot c = Some c' \<Longrightarrow>
     write_step env key val (Begin, c) (Snapped, c')"
| absent: "load_hdr c = Some h \<Longrightarrow>
     bsearch (pupa_store_item_compare c (probe key)) (store_items_snapshot c)
       (sec_used (item_section h)) (item_stride h) = Some None \<Longrightarrow>
     write_step env key val (Snapped, c)
       (Absent (item_stride h)
          (store_items_snapshot c + sec_used (item_section h) * item_stride h), c)"
| present: "load_hdr c = Some h \<Longrightarrow>
     bsearch (pupa_store_item_compare c (probe key)) (store_items_snapshot c)
       (sec_used (item_section h)) (item_stride h) = Some (Some p) \<Longrightarrow>
     write_step env key val (Snapped, c) (Present p, c)"
| full: "load_hdr c = Some h \<Longrightarrow> sec_used (item_section h) = sec_size (item_section h) \<Longrightarrow>
     write_step env key val (Absent sz a, c) (Returned PUPA_OVERFLOW, c)"
| place_key: "load_hdr c = Some h \<Longrightarrow> sec_used (item_section h) \<noteq> sec_size (item_section h) \<Longrightarrow>
     key_place c key = Some (ret, Some p, off, c') \<Longrightarrow>
     write_step env key val (Absent sz a, c) (Key_placed sz a p off, c')"
| no_key_room: "load_hdr c = Some h \<Longrightarrow> sec_used (item_section h) \<noteq> sec_size (item_section h) \<Longrightarrow>
     key_place c key = Some (ret, None, off, c') \<Longrightarrow>
     write_step env key val (Absent sz a, c) (Returned ret, c')"
| add_key: "item_add_key c a key p off = Some c' \<Longrightarrow>
     write_step env key val (Key_placed sz a p off, c) (Key_added sz a, c')"
| place_value: "value_place c val = Some (ret, Some p, off, c') \<Longrightarrow>
     write_step env key val (Key_added sz a, c) (Value_placed sz a p off, c')"
| no_value_room: "value_place c val = Some (ret, None, off, c') \<Longrightarrow>
     write_step env key val (Key_added sz a, c) (Returned ret, c')"
| add_value: "item_add_value c a val p off = Some c' \<Longrightarrow>
     write_step env key val (Value_placed sz a p off, c) (Value_added sz, c')"
| count: "load_hdr c = Some h \<Longrightarrow>
     put_sec_used c item_section_addr (sec_used (item_section h) + 1) = Some c' \<Longrightarrow>
     write_step env key val (Value_added sz, c) (Counted sz, c')"
| sort: "load_hdr c = Some h \<Longrightarrow>
     pupa_sort (malloc_ok env) c (store_items_snapshot c) (sec_used (item_section h)) sz
       ((probe key)\<lparr>w_key := Off 0\<rparr>) = Some c' \<Longrightarrow>
     write_step env key val (Counted sz, c) (Sorted, c'\<lparr>store_items := store_items_snapshot c'\<rparr>)"
| switch_added: "switch_items c = Some c' \<Longrightarrow>
     write_step env key val (Sorted, c) (Switched, c')"
| find_room: "value_place c val = Some (ret, Some q, off, c') \<Longrightarrow>
     write_step env key val (Present p, c) (Room_found p q off, c')"
| no_room: "value_place c val = Some (ret, None, off, c') \<Longrightarrow>
     write_step env key val (Present p, c) (Returned ret, c')"
| store_value: "put_str c q val = Some c' \<Longrightarrow>
     write_step env key val (Room_found p q off, c) (Value_stored p off, c')"
| shift: "item_shift_values c p = Some (pv, c') \<Longrightarrow>
     write_step env key val (Value_stored p off, c) (Shifted pv off, c')"
| record_value: "put_item_val c pv off val = Some c' \<Longrightarrow>
     write_step env key val (Shifted pv off, c) (Recorded pv, c')"
| count_value: "add_value_used c pv = Some c' \<Longrightarrow>
     write_step env key val (Recorded pv, c) (Replaced, c')"
| switch_replaced: "switch_items c = Some c' \<Longrightarrow>
     write_step env key val (Replaced, c) (Switched, c')"
| sync: "write_step env key val (Switched, c) (Returned (pupa_shm_sync env c), c)"

inductive_cases write_stepE: "write_step env key val (pc, c) st"
inductive_cases returnedE [elim!]: "write_step env key val (Returned r, c) st"
inductive_simps write_step_sync [simp]: "write_step env key val (Switched, c) st"

abbreviation write_steps ::
  "os_env \<Rightarrow> pupa_str \<Rightarrow> pupa_str \<Rightarrow> write_pc \<times> pupa_ctx \<Rightarrow> write_pc \<times> pupa_ctx \<Rightarrow> bool" where
  "write_steps env key val \<equiv> (write_step env key val)\<^sup>*\<^sup>*"

lemma write_step_deterministic:
  "write_step env key val st st1 \<Longrightarrow> write_step env key val st st2 \<Longrightarrow> st1 = st2"
  by (induction rule: write_step.induct) (auto elim!: write_stepE)

subsection \<open>The steps are those of the operation\<close>

lemma place_codes:
  "key_place c key = Some (ret, p, off, c') \<Longrightarrow>
     ret = (if p = None then PUPA_OVERFLOW else PUPA_OK)"
  "value_place c val = Some (ret, p, off, c') \<Longrightarrow>
     ret = (if p = None then PUPA_OVERFLOW else PUPA_OK)"
  by (auto simp: key_place_def value_place_def pupa_store_key_compaction_def
      pupa_store_value_compaction_def bind_Some_iff Let_def split: if_splits prod.splits)

text \<open>What is left of \<open>pupa_store_set\<close> at each point.\<close>

definition finish :: "os_env \<Rightarrow> pupa_ctx \<Rightarrow> (int \<times> pupa_ctx) option" where
  "finish env c = do { c \<leftarrow> switch_items c; Some (pupa_shm_sync env c, c) }"

definition resume_sort :: "os_env \<Rightarrow> pupa_str \<Rightarrow> size_t \<Rightarrow> pupa_ctx \<Rightarrow> (int \<times> pupa_ctx) option" where
  "resume_sort env key sz c =
     do {
       h \<leftarrow> load_hdr c;
       c \<leftarrow> pupa_sort (malloc_ok env) c (store_items_snapshot c) (sec_used (item_section h)) sz
             ((probe key)\<lparr>w_key := Off 0\<rparr>);
       finish env (c\<lparr>store_items := store_items_snapshot c\<rparr>)
     }"

definition resume_count :: "os_env \<Rightarrow> pupa_str \<Rightarrow> size_t \<Rightarrow> pupa_ctx \<Rightarrow> (int \<times> pupa_ctx) option" where
  "resume_count env key sz c =
     do {
       h \<leftarrow> load_hdr c;
       c \<leftarrow> put_sec_used c item_section_addr (sec_used (item_section h) + 1);
       resume_sort env key sz c
     }"

definition resume_value ::
  "os_env \<Rightarrow> pupa_str \<Rightarrow> pupa_str \<Rightarrow> size_t \<Rightarrow> addr \<Rightarrow> pupa_ctx \<Rightarrow> (int \<times> pupa_ctx) option" where
  "resume_value env key val sz a c =
     do {
       (ret, p, off, c) \<leftarrow> value_place c val;
       case p of
         None \<Rightarrow> Some (ret, c)
       | Some p \<Rightarrow> do { c \<leftarrow> item_add_value c a val p off; resume_count env key sz c }
     }"

definition resume_add ::
  "os_env \<Rightarrow> pupa_str \<Rightarrow> pupa_str \<Rightarrow> size_t \<Rightarrow> addr \<Rightarrow> pupa_ctx \<Rightarrow> (int \<times> pupa_ctx) option" where
  "resume_add env key val sz a c =
     do {
       h \<leftarrow> load_hdr c;
       if sec_used (item_section h) = sec_size (item_section h) then Some (PUPA_OVERFLOW, c)
       else
         do {
           (ret, p, off, c) \<leftarrow> key_place c key;
           case p of
             None \<Rightarrow> Some (ret, c)
           | Some p \<Rightarrow> do { c \<leftarrow> item_add_key c a key p off; resume_value env key val sz a c }
         }
     }"

definition resume_record :: "os_env \<Rightarrow> pupa_str \<Rightarrow> addr \<Rightarrow> size_t \<Rightarrow> pupa_ctx \<Rightarrow> (int \<times> pupa_ctx) option"
  where
  "resume_record env val pv off c =
     do { c \<leftarrow> put_item_val c pv off val; c \<leftarrow> add_value_used c pv; finish env c }"

definition resume_shift :: "os_env \<Rightarrow> pupa_str \<Rightarrow> addr \<Rightarrow> size_t \<Rightarrow> pupa_ctx \<Rightarrow> (int \<times> pupa_ctx) option"
  where
  "resume_shift env val p off c =
     do { (pv, c) \<leftarrow> item_shift_values c p; resume_record env val pv off c }"

definition resume_replace :: "os_env \<Rightarrow> pupa_str \<Rightarrow> addr \<Rightarrow> pupa_ctx \<Rightarrow> (int \<times> pupa_ctx) option" where
  "resume_replace env val p c =
     do {
       (ret, q, off, c) \<leftarrow> value_place c val;
       case q of
         None \<Rightarrow> Some (ret, c)
       | Some q \<Rightarrow> do { c \<leftarrow> put_str c q val; resume_shift env val p off c }
     }"

definition resume_search ::
  "os_env \<Rightarrow> pupa_str \<Rightarrow> pupa_str \<Rightarrow> pupa_ctx \<Rightarrow> (int \<times> pupa_ctx) option" where
  "resume_search env key val c =
     do {
       h \<leftarrow> load_hdr c;
       found \<leftarrow> bsearch (pupa_store_item_compare c (probe key)) (store_items_snapshot c)
                  (sec_used (item_section h)) (item_stride h);
       case found of
         None \<Rightarrow> resume_add env key val (item_stride h)
           (store_items_snapshot c + sec_used (item_section h) * item_stride h) c
       | Some p \<Rightarrow> resume_replace env val p c
     }"

fun resume :: "os_env \<Rightarrow> pupa_str \<Rightarrow> pupa_str \<Rightarrow> write_pc \<Rightarrow> pupa_ctx \<Rightarrow> (int \<times> pupa_ctx) option" where
  "resume env key val Begin c = do { c \<leftarrow> pupa_store_item_make_snapshot c; resume_search env key val c }"
| "resume env key val Snapped c = resume_search env key val c"
| "resume env key val (Absent sz a) c = resume_add env key val sz a c"
| "resume env key val (Key_placed sz a p off) c =
     do { c \<leftarrow> item_add_key c a key p off; resume_value env key val sz a c }"
| "resume env key val (Key_added sz a) c = resume_value env key val sz a c"
| "resume env key val (Value_placed sz a p off) c =
     do { c \<leftarrow> item_add_value c a val p off; resume_count env key sz c }"
| "resume env key val (Value_added sz) c = resume_count env key sz c"
| "resume env key val (Counted sz) c = resume_sort env key sz c"
| "resume env key val Sorted c = finish env c"
| "resume env key val (Present p) c = resume_replace env val p c"
| "resume env key val (Room_found p q off) c =
     do { c \<leftarrow> put_str c q val; resume_shift env val p off c }"
| "resume env key val (Value_stored p off) c = resume_shift env val p off c"
| "resume env key val (Shifted pv off) c = resume_record env val pv off c"
| "resume env key val (Recorded pv) c = do { c \<leftarrow> add_value_used c pv; finish env c }"
| "resume env key val Replaced c = finish env c"
| "resume env key val Switched c = Some (pupa_shm_sync env c, c)"
| "resume env key val (Returned r) c = Some (r, c)"

lemmas resume_defs = resume_search_def resume_add_def resume_value_def resume_count_def
  resume_sort_def resume_replace_def resume_shift_def resume_record_def finish_def [abs_def]

lemma resume_step:
  "write_step env key val st st' \<Longrightarrow>
     resume env key val (fst st') (snd st') = resume env key val (fst st) (snd st)"
  by (induction rule: write_step.induct) (simp_all add: resume_defs)

lemma place_some [dest]:
  "key_place c key = Some (ret, Some p, off, c') \<Longrightarrow> ret = PUPA_OK"
  "value_place c val = Some (ret, Some p, off, c') \<Longrightarrow> ret = PUPA_OK"
  by (auto dest: place_codes)

lemma place_none [dest]:
  "key_place c key = Some (ret, None, off, c') \<Longrightarrow> ret = PUPA_OVERFLOW"
  "value_place c val = Some (ret, None, off, c') \<Longrightarrow> ret = PUPA_OVERFLOW"
  by (auto dest: place_codes)

lemma resume_add_set:
  "do {
     (ret, c) \<leftarrow> pupa_store_item_add c a key val;
     if ret \<noteq> PUPA_OK then Some (ret, c)
     else do { c \<leftarrow> set_resort env c key sz; c \<leftarrow> switch_items c; Some (pupa_shm_sync env c, c) }
   } = resume_add env key val sz a c"
  by (auto simp: pupa_store_item_add_def resume_defs set_resort_def return_codes
      split: Option.bind_split option.splits prod.splits)

lemma resume_replace_set:
  "do {
     (ret, c) \<leftarrow> pupa_store_item_replace c p val;
     if ret \<noteq> PUPA_OK then Some (ret, c)
     else do { c \<leftarrow> switch_items c; Some (pupa_shm_sync env c, c) }
   } = resume_replace env val p c"
  by (auto simp: pupa_store_item_replace_def resume_defs return_codes
      split: Option.bind_split option.splits prod.splits)

lemma resume_Begin: "resume env key val Begin c = pupa_store_set env c key val"
proof -
  have s: "resume_search env key val c =
      do {
        h \<leftarrow> load_hdr c;
        found \<leftarrow> bsearch (pupa_store_item_compare c (probe key)) (store_items_snapshot c)
                   (sec_used (item_section h)) (item_stride h);
        (ret, c) \<leftarrow>
          (case found of
             None \<Rightarrow> pupa_store_item_add c
               (store_items_snapshot c + sec_used (item_section h) * item_stride h) key val
           | Some p \<Rightarrow> pupa_store_item_replace c p val);
        if ret \<noteq> PUPA_OK then Some (ret, c)
        else
          do {
            c \<leftarrow> (if found = None then set_resort env c key (item_stride h) else Some c);
            c \<leftarrow> switch_items c;
            Some (pupa_shm_sync env c, c)
          }
      }" for c
    unfolding resume_search_def resume_add_set [symmetric] resume_replace_set [symmetric]
    by (rule arg_cong2 [where f = Option.bind, OF refl], rule ext,
        rule arg_cong2 [where f = Option.bind, OF refl], rule ext) (auto simp: case_prod_beta' split: option.split cong: if_cong)
  show ?thesis by (simp add: pupa_store_set_def Let_def s [abs_def])
qed

text \<open>A point from which the operation returns is the last one, or has a next step.\<close>

lemma write_progress:
  assumes "resume env key val pc c = Some rc"
  shows "(\<exists>r. pc = Returned r) \<or> (\<exists>st. write_step env key val (pc, c) st)"
proof (cases pc)
  case Begin
  then show ?thesis using assms by (auto simp: bind_Some_iff intro: write_step.snapshot)
next
  case Snapped
  then obtain h found where "load_hdr c = Some h"
    "bsearch (pupa_store_item_compare c (probe key)) (store_items_snapshot c)
       (sec_used (item_section h)) (item_stride h) = Some found"
    using assms by (auto simp: resume_search_def bind_Some_iff)
  then show ?thesis
    using Snapped by (cases found) (auto intro: write_step.absent write_step.present)
next
  case (Absent sz a)
  then obtain h where h: "load_hdr c = Some h"
    "sec_used (item_section h) \<noteq> sec_size (item_section h) \<longrightarrow> key_place c key \<noteq> None"
    using assms by (auto simp: resume_add_def bind_Some_iff split: if_splits)
  show ?thesis
  proof (cases "sec_used (item_section h) = sec_size (item_section h)")
    case True
    then show ?thesis using Absent h by (auto intro: write_step.full)
  next
    case False
    then obtain ret p off c' where "key_place c key = Some (ret, p, off, c')"
      using h(2) by auto
    then show ?thesis
      using Absent h(1) False
      by (cases p) (auto intro: write_step.place_key write_step.no_key_room)
  qed
next
  case (Key_added sz a)
  then obtain ret p off c' where "value_place c val = Some (ret, p, off, c')"
    using assms by (auto simp: resume_value_def bind_Some_iff)
  then show ?thesis
    using Key_added by (cases p) (auto intro: write_step.place_value write_step.no_value_room)
next
  case (Present p)
  then obtain ret q off c' where "value_place c val = Some (ret, q, off, c')"
    using assms by (auto simp: resume_replace_def bind_Some_iff)
  then show ?thesis
    using Present by (cases q) (auto intro: write_step.find_room write_step.no_room)
qed (use assms in \<open>auto simp: resume_count_def resume_sort_def resume_shift_def resume_record_def
    finish_def bind_Some_iff\<close>, (blast intro: write_step.intros)+)

text \<open>The steps that may follow.\<close>

fun steps_left :: "write_pc \<Rightarrow> nat" where
  "steps_left Begin = 10"
| "steps_left Snapped = 9"
| "steps_left (Absent _ _) = 8"
| "steps_left (Key_placed _ _ _ _) = 7"
| "steps_left (Key_added _ _) = 6"
| "steps_left (Value_placed _ _ _ _) = 5"
| "steps_left (Value_added _) = 4"
| "steps_left (Counted _) = 3"
| "steps_left Sorted = 2"
| "steps_left (Present _) = 7"
| "steps_left (Room_found _ _ _) = 6"
| "steps_left (Value_stored _ _) = 5"
| "steps_left (Shifted _ _) = 4"
| "steps_left (Recorded _) = 3"
| "steps_left Replaced = 2"
| "steps_left Switched = 1"
| "steps_left (Returned _) = 0"

lemma write_step_left: "write_step env key val st st' \<Longrightarrow> steps_left (fst st') < steps_left (fst st)"
  by (induction rule: write_step.induct) simp_all

lemma resume_steps:
  "write_steps env key val st st' \<Longrightarrow>
     resume env key val (fst st') (snd st') = resume env key val (fst st) (snd st)"
  by (induction rule: rtranclp_induct) (simp_all add: resume_step)

lemma steps_resume:
  "resume env key val pc c = Some (r, c') \<Longrightarrow> write_steps env key val (pc, c) (Returned r, c')"
proof (induction "steps_left pc" arbitrary: pc c rule: less_induct)
  case less
  from write_progress [OF less.prems] show ?case
  proof
    assume "\<exists>r. pc = Returned r"
    then show ?thesis using less.prems by auto
  next
    assume "\<exists>st. write_step env key val (pc, c) st"
    then obtain pc1 c1 where st: "write_step env key val (pc, c) (pc1, c1)" by auto
    then have "write_steps env key val (pc1, c1) (Returned r, c')"
      using less write_step_left [OF st] resume_step [OF st] by simp
    then show ?thesis using st by (rule converse_rtranclp_into_rtranclp [rotated])
  qed
qed

lemma steps_bounded:
  assumes "write_steps env key val st st'"
  obtains n where "n + steps_left (fst st') \<le> steps_left (fst st)" "(write_step env key val ^^ n) st st'"
proof -
  have "\<exists>n. n + steps_left (fst st') \<le> steps_left (fst st) \<and> (write_step env key val ^^ n) st st'"
    using assms
  proof (induction rule: rtranclp_induct)
    case base
    show ?case by (rule exI [of _ 0]) simp
  next
    case (step y z)
    then obtain n where n: "n + steps_left (fst y) \<le> steps_left (fst st)"
      "(write_step env key val ^^ n) st y" by blast
    have "(write_step env key val ^^ Suc n) st z" using n(2) step.hyps(2) by auto
    then show ?case using n(1) write_step_left [OF step.hyps(2)] by (intro exI [of _ "Suc n"]) simp
  qed
  then show ?thesis using that by blast
qed

lemma set_iff_steps:
  "pupa_store_set env c key val = Some (r, c') \<longleftrightarrow>
     write_steps env key val (Begin, c) (Returned r, c')"
  using resume_steps [of env key val "(Begin, c)" "(Returned r, c')"]
    steps_resume [of env key val Begin c r c']
  by (auto simp: resume_Begin simp del: resume.simps(1))

text \<open>The states on a run of the steps are all that can be reached.\<close>

inductive write_run ::
  "os_env \<Rightarrow> pupa_str \<Rightarrow> pupa_str \<Rightarrow> (write_pc \<times> pupa_ctx) list \<Rightarrow> bool" for env key val where
  last: "write_run env key val [(Returned r, c)]"
| next_step: "write_step env key val st st' \<Longrightarrow> write_run env key val (st' # sts) \<Longrightarrow>
     write_run env key val (st # st' # sts)"

lemma run_reaches:
  assumes "write_run env key val sts" "write_steps env key val (hd sts) st"
  shows "st \<in> set sts"
  using assms
proof (induction arbitrary: st rule: write_run.induct)
  case (last r c)
  then show ?case by (auto elim: converse_rtranclpE)
next
  case (next_step st0 st' sts)
  from next_step.prems show ?case
  proof (cases rule: converse_rtranclpE)
    case base
    then show ?thesis by simp
  next
    case (step y)
    then have "y = st'" using next_step.hyps(1) by (auto dest: write_step_deterministic)
    then show ?thesis using step(2) next_step.IH by simp
  qed
qed

end
