(* ===== verification/Reach.thy ===== *)
theory Reach
  imports Steps
begin

text \<open>
  What a lookup of another process sees between any two steps of a write that finds room:
  the store from before the write, until the section is switched, and the one after it from
  then on, except between the counting of a new entry and the switch. The bytes an entry of
  the old index leads to stay where they are throughout.
\<close>

subsection \<open>What lookups read\<close>

text \<open>The current index area, and the used parts of the current key and value sections.\<close>

definition visible :: "store_view \<Rightarrow> nat \<Rightarrow> bool" where
  "visible s x \<longleftrightarrow>
     i_base s \<le> x \<and> x < i_base s + 16 * v_keys s + 48 \<or>
     k_base s \<le> x \<and> x < k_base s + v_key_used s \<or>
     v_base s \<le> x \<and> x < v_base s + v_val_used s"

definition keeps :: "store_view \<Rightarrow> (nat \<Rightarrow> byte) \<Rightarrow> (nat \<Rightarrow> byte) \<Rightarrow> bool" where
  "keeps s m m' \<longleftrightarrow> (\<forall>x. visible s x \<longrightarrow> m' x = m x)"

lemma visible_untouched:
  assumes "view_ok s" "has_room s kb vb" "visible s x"
  shows "untouched s kb vb x"
  using view_okD(3-5) [OF assms(1)] assms(2,3)
  by (auto simp: visible_def untouched_def has_room_def areas split: if_splits)

lemma visible_body: "visible s x \<Longrightarrow> 128 \<le> x"
  by (auto simp: visible_def areas split: if_splits)

lemma switch_keeps: "keeps s m m' \<Longrightarrow> keeps s m (switch_bytes s' m')"
  by (auto simp: keeps_def switch_bytes_def wr8_def put_bytes_def dest!: visible_body)

text \<open>A state that differs from \<open>c\<close> only where lookups do not read.\<close>

definition quiet :: "store_view \<Rightarrow> pupa_ctx \<Rightarrow> pupa_ctx \<Rightarrow> bool" where
  "quiet s c c1 \<longleftrightarrow>
     mapped c1 \<and> msize c1 = msize c \<and> keeps s (mbytes c) (mbytes c1) \<and>
     (\<exists>k v. v_key_used s \<le> k \<and> k \<le> 64 * v_keys s \<and> v_val_used s \<le> v \<and> v \<le> 256 * v_keys s \<and>
        rd_hdr (mbytes c1) = view_hdr (s\<lparr>v_key_used := k, v_val_used := v\<rparr>))"

lemma quiet_map:
  assumes wv: "wf_view s c" and q: "quiet s c c1"
  shows "store_wf c1" "store_map c1 = store_map c"
proof -
  obtain k v where kv: "v_key_used s \<le> k" "k \<le> 64 * v_keys s" "v_val_used s \<le> v"
    "v \<le> 256 * v_keys s" "rd_hdr (mbytes c1) = view_hdr (s\<lparr>v_key_used := k, v_val_used := v\<rparr>)"
    using q by (auto simp: quiet_def)
  let ?s1 = "s\<lparr>v_key_used := k, v_val_used := v\<rparr>"
  have ix: "view_ok s" "index_ok s (mbytes c) (i_base s)" using wf_view_index [OF wv] by auto
  have vo: "64 * v_used s \<le> 16 * v_keys s + 48" by (rule view_okD(3) [OF ix(1)])
  have fr: "mbytes c1 x = mbytes c x" if "visible s x" for x
    using q that by (simp add: quiet_def keeps_def)
  note f = index_ok_frame [OF ix(2), where m' = "mbytes c1" and s' = ?s1]
  have "index_ok ?s1 (mbytes c1) (i_base s)"
    by (rule f(1)) (use kv vo in \<open>auto intro!: fr simp: visible_def\<close>)
  moreover have es: "entries (mbytes c1) (i_base s) (v_used s) = entries (mbytes c) (i_base s) (v_used s)"
    by (rule f(2)) (use kv vo in \<open>auto intro!: fr simp: visible_def\<close>)
  moreover have "view_ok ?s1" using ix(1) kv by (simp add: view_ok_def)
  ultimately have w1: "wf_view ?s1 c1"
    using q kv(5) wf_viewD(2) [OF wv] by (simp add: wf_view_def quiet_def)
  then show "store_wf c1" by (rule wf_view_wf)
  show "store_map c1 = store_map c"
    using es by (simp add: store_map_def store_entries_view [OF wv] store_entries_view [OF w1])
qed

definition published :: "write_pc \<Rightarrow> bool" where
  "published pc \<longleftrightarrow> pc = Switched \<or> (\<exists>r. pc = Returned r)"

definition exposed :: "write_pc \<Rightarrow> bool" where
  "exposed pc \<longleftrightarrow> pc = Sorted \<or> (\<exists>sz. pc = Counted sz)"

text \<open>The points of an insertion behind \<open>p_item_section->used++\<close>.\<close>

definition counted :: "write_pc \<Rightarrow> bool" where
  "counted pc \<longleftrightarrow> exposed pc \<or> published pc"

lemma phases [simp]:
  "\<not> published Begin" "\<not> published Snapped" "\<not> published (Absent sz a)"
  "\<not> published (Key_placed sz a p off)" "\<not> published (Key_added sz a)"
  "\<not> published (Value_placed sz a p off)" "\<not> published (Value_added sz)"
  "\<not> published (Counted sz)" "\<not> published Sorted" "\<not> published (Present a)"
  "\<not> published (Room_found a p off)" "\<not> published (Value_stored a off)"
  "\<not> published (Shifted a off)" "\<not> published (Recorded a)" "\<not> published Replaced"
  "published Switched" "published (Returned r)"
  "\<not> exposed Begin" "\<not> exposed Snapped" "\<not> exposed (Absent sz a)"
  "\<not> exposed (Key_placed sz a p off)" "\<not> exposed (Key_added sz a)"
  "\<not> exposed (Value_placed sz a p off)" "\<not> exposed (Value_added sz)"
  "exposed (Counted sz)" "exposed Sorted" "\<not> exposed (Present a)"
  "\<not> exposed (Room_found a p off)" "\<not> exposed (Value_stored a off)"
  "\<not> exposed (Shifted a off)" "\<not> exposed (Recorded a)" "\<not> exposed Replaced"
  "\<not> exposed Switched" "\<not> exposed (Returned r)"
  by (auto simp: published_def exposed_def)

text \<open>The header between the counting of a new entry and the switch.\<close>

definition late_hdr :: "store_view \<Rightarrow> pupa_ctx \<Rightarrow> bool" where
  "late_hdr s c1 \<longleftrightarrow>
     (\<exists>k v. rd_hdr (mbytes c1) =
        view_hdr (s\<lparr>v_used := v_used s + 1, v_key_used := k, v_val_used := v\<rparr>))"

lemma late_hdr_insert: "hdr_ok (insert_view s kb vb) c1 \<Longrightarrow> late_hdr s c1"
  unfolding late_hdr_def hdr_ok_def
  by (intro exI [of _ "v_key_used s + length kb + 1"] exI [of _ "v_val_used s + length vb + 1"])
    (auto intro!: arg_cong [where f = view_hdr] simp: insert_view_def add_view_def)

text \<open>
  The states of a run: those before the switch are quiet or exposed, those behind it have the
  bytes of the result; all keep what the old index leads to.
\<close>

definition run_ok :: "store_view \<Rightarrow> pupa_ctx \<Rightarrow> pupa_ctx \<Rightarrow> write_pc \<times> pupa_ctx \<Rightarrow> bool" where
  "run_ok s c c' st \<longleftrightarrow>
     mapped (snd st) \<and> msize (snd st) = msize c \<and> keeps s (mbytes c) (mbytes (snd st)) \<and>
     (if published (fst st) then snd st = c'
      else if exposed (fst st) then late_hdr s (snd st) else quiet s c (snd st))"

lemma run_ok_quiet: "quiet s c c1 \<Longrightarrow> \<not> published pc \<Longrightarrow> \<not> exposed pc \<Longrightarrow> run_ok s c c' (pc, c1)"
  by (simp add: run_ok_def quiet_def)

lemma quiet_hdr_ok:
  assumes h: "hdr_ok s c" "hdr_ok s' c1" and k: "keeps s (mbytes c) (mbytes c1)"
    and s': "v_keys s' = v_keys s" "v_item_one s' = v_item_one s" "v_key_one s' = v_key_one s"
      "v_val_one s' = v_val_one s" "v_used s' = v_used s"
      "v_key_used s \<le> v_key_used s'" "v_key_used s' \<le> 64 * v_keys s"
      "v_val_used s \<le> v_val_used s'" "v_val_used s' \<le> 256 * v_keys s"
  shows "quiet s c c1"
proof -
  have "s' = s\<lparr>v_key_used := v_key_used s', v_val_used := v_val_used s'\<rparr>"
    using s' by (intro store_view.equality) simp_all
  then show ?thesis
    using h k s' unfolding quiet_def hdr_ok_def by metis
qed

subsection \<open>The run of an insertion\<close>

definition insert_trace ::
  "os_env \<Rightarrow> store_view \<Rightarrow> nat \<Rightarrow> pupa_ctx \<Rightarrow> byte list \<Rightarrow> byte list \<Rightarrow> (write_pc \<times> pupa_ctx) list" where
  "insert_trace env s b c kb vb =
     (let c1 = start_ctx s c b; m1 = mbytes c1; a = i_snap s + 64 * v_used s;
          k1 = c1\<lparr>mbytes := add_key_bytes s a kb m1\<rparr>;
          v1 = c1\<lparr>mbytes := add_bytes s a kb vb m1\<rparr>;
          n1 = c1\<lparr>mbytes := appended_bytes s b kb vb (mbytes c)\<rparr>;
          s1 = c1\<lparr>mbytes := insert_slot (appended_bytes s b kb vb (mbytes c)) (i_snap s)
              (insert_pos (skey kb) (map fst (entries (mbytes c) b (v_used s)))) (v_used s),
            store_items := W64 (i_snap s)\<rparr>;
          w1 = s1\<lparr>mbytes := switch_bytes (insert_view s kb vb) (mbytes s1)\<rparr>
      in [(Begin, c), (Snapped, c1), (Absent 64 (W64 a), c1),
          (Key_placed 64 (W64 a) (W64 (k_base s + v_key_used s)) (W64 (k_base s)), c1),
          (Key_added 64 (W64 a), k1),
          (Value_placed 64 (W64 a) (W64 (v_base s + v_val_used s)) (W64 (v_base s)), k1),
          (Value_added 64, v1), (Counted 64, n1), (Sorted, s1), (Switched, w1),
          (Returned (pupa_shm_sync env w1), w1)])"

lemma add_steps:
  assumes h: "hdr_ok s c" and room: "has_room s kb vb"
    and a: "128 \<le> a" "a + 64 \<le> k_base s" "a + 64 \<le> v_base s"
    and key: "cstr key kb" and val: "cstr val vb"
    and m1: "m1 = add_key_bytes s a kb (mbytes c)"
  shows "hdr_ok (s\<lparr>v_key_used := v_key_used s + length kb + 1\<rparr>) (c\<lparr>mbytes := m1\<rparr>)"
    "key_place c key = Some (PUPA_OK, Some (W64 (k_base s + v_key_used s)), W64 (k_base s), c)"
    "item_add_key c (W64 a) key (W64 (k_base s + v_key_used s)) (W64 (k_base s)) =
       Some (c\<lparr>mbytes := m1\<rparr>)"
    "value_place (c\<lparr>mbytes := m1\<rparr>) val =
       Some (PUPA_OK, Some (W64 (v_base s + v_val_used s)), W64 (v_base s), c\<lparr>mbytes := m1\<rparr>)"
    "item_add_value (c\<lparr>mbytes := m1\<rparr>) (W64 a) val (W64 (v_base s + v_val_used s)) (W64 (v_base s)) =
       Some (c\<lparr>mbytes := add_bytes s a kb vb (mbytes c)\<rparr>)"
proof -
  let ?s2 = "s\<lparr>v_key_used := v_key_used s + length kb + 1\<rparr>"
  have r: "v_key_used s + length kb + 1 \<le> 64 * v_keys s"
    "v_val_used s + length vb + 1 \<le> 256 * v_keys s"
    using room by (simp_all add: has_room_def)
  note f = add_key_bytes_facts [OF a(1,2) cstr_place(5) [OF key] hdr_okD(5) [OF h]]
  show h2: "hdr_ok ?s2 (c\<lparr>mbytes := m1\<rparr>)"
    unfolding m1 by (rule hdr_ok_put [OF h f(1)]) simp
  show "key_place c key = Some (PUPA_OK, Some (W64 (k_base s + v_key_used s)), W64 (k_base s), c)"
    by (rule key_place_step [OF h r(1) key])
  show "item_add_key c (W64 a) key (W64 (k_base s + v_key_used s)) (W64 (k_base s)) =
       Some (c\<lparr>mbytes := m1\<rparr>)"
    unfolding m1 by (rule item_add_key_step [OF h a(1,2) r(1) key])
  show "value_place (c\<lparr>mbytes := m1\<rparr>) val =
       Some (PUPA_OK, Some (W64 (v_base s + v_val_used s)), W64 (v_base s), c\<lparr>mbytes := m1\<rparr>)"
    using value_place_step [OF h2, of vb val] r val by simp
  show "item_add_value (c\<lparr>mbytes := m1\<rparr>) (W64 a) val (W64 (v_base s + v_val_used s)) (W64 (v_base s)) =
       Some (c\<lparr>mbytes := add_bytes s a kb vb (mbytes c)\<rparr>)"
    using item_add_value_step [OF h2, of a vb val] a r val by (simp add: add_bytes_def m1)
qed

lemma insert_run:
  assumes w: "writer s c b" and key: "cstr key kb" and val: "cstr val vb"
    and room: "has_room s kb vb" and env: "malloc_ok env"
    and new: "skey kb \<notin> fst ` set (entries (mbytes c) b (v_used s))"
    and left: "insert_pos (skey kb) (map fst (entries (mbytes c) b (v_used s))) = 0 \<Longrightarrow>
      left_ok (v_used s)"
  shows "write_run env key val (insert_trace env s b c kb vb)"
proof -
  let ?c1 = "start_ctx s c b" and ?a = "i_snap s + 64 * v_used s"
  let ?n1 = "?c1\<lparr>mbytes := appended_bytes s b kb vb (mbytes c)\<rparr>"
  let ?s1 = "?c1\<lparr>mbytes := insert_slot (appended_bytes s b kb vb (mbytes c)) (i_snap s)
      (insert_pos (skey kb) (map fst (entries (mbytes c) b (v_used s)))) (v_used s),
    store_items := W64 (i_snap s)\<rparr>"
  note st = write_start [OF w key] and d = writerD [OF w]
  have a: "128 \<le> ?a" "?a + 64 \<le> k_base s" "?a + 64 \<le> v_base s"
    using room by (auto simp: has_room_def areas)
  note ad = add_steps [OF st(2) room a key val refl] and cs = count_step [OF w key room refl refl]
    and rc = set_resort_call [OF w key room refl refl] and so = sorted_ctx [OF w key room new refl]
  have at: "W64 (i_snap s) + W64 (v_used s) * 64 = W64 ?a"
    by (simp add: addr_simps mult.commute)
  have s2: "write_step env key val (Snapped, ?c1) (Absent 64 (W64 ?a), ?c1)"
    using write_step.absent [OF hdr_okD(6) [OF st(2)], of key env val] st(4) [OF new]
    by (simp add: view_simps at)
  have ne: "W64 (v_used s) \<noteq> W64 (v_keys s)"
    using room hdr_okD(4) [OF d(6)] by (simp add: has_room_def W64_eq_iff)
  have s3: "write_step env key val (Absent 64 (W64 ?a), ?c1)
      (Key_placed 64 (W64 ?a) (W64 (k_base s + v_key_used s)) (W64 (k_base s)), ?c1)"
    by (rule write_step.place_key [OF hdr_okD(6) [OF st(2)] _ ad(2)]) (simp add: view_simps ne)
  have s7: "write_step env key val
      (Value_added 64, ?c1\<lparr>mbytes := add_bytes s ?a kb vb (mbytes ?c1)\<rparr>) (Counted 64, ?n1)"
    using write_step.count [OF cs(2) cs(4) [folded cs(3)], of env key val 64] by simp
  have "pupa_sort (malloc_ok env) ?n1 (store_items_snapshot ?n1)
      (sec_used (item_section (view_hdr (insert_view s kb vb)))) 64 ((probe key)\<lparr>w_key := Off 0\<rparr>) =
      Some (?n1\<lparr>mbytes := mbytes ?s1\<rparr>)"
    using sort_appended [OF rc(2,6,5,3,4) index_okD(2) [OF d(4)] new cstr_place(5) [OF key] left] env
    by (simp add: view_simps)
  from write_step.sort [OF hdr_okD(6) [OF cs(5)] this]
  have s8: "write_step env key val (Counted 64, ?n1) (Sorted, ?s1)" by simp
  have s9: "write_step env key val (Sorted, ?s1)
      (Switched, ?s1\<lparr>mbytes := switch_bytes (insert_view s kb vb) (mbytes ?s1)\<rparr>)"
    by (rule write_step.switch_added [OF switch_step(1) [OF so(1)]])
  show ?thesis
    unfolding insert_trace_def Let_def
    by (intro write_run.intros write_step.snapshot [OF st(1)] s2 s3 write_step.add_key [OF ad(3)]
        write_step.place_value [OF ad(4)] write_step.add_value [OF ad(5)] s7 s8 s9 write_step.sync)
qed

text \<open>Every state of the run.\<close>

lemma insert_keeps:
  assumes w: "writer s c b" and key: "cstr key kb" and room: "has_room s kb vb"
    and new: "skey kb \<notin> fst ` set (entries (mbytes c) b (v_used s))"
    and a: "a = i_snap s + 64 * v_used s"
  shows "keeps s (mbytes c) (snap_bytes s b (mbytes c))"
    "keeps s (mbytes c) (add_key_bytes s a kb (snap_bytes s b (mbytes c)))"
    "keeps s (mbytes c) (add_bytes s a kb vb (snap_bytes s b (mbytes c)))"
    "keeps s (mbytes c) (appended_bytes s b kb vb (mbytes c))"
    "c4 = (start_ctx s c b)\<lparr>mbytes := insert_slot (appended_bytes s b kb vb (mbytes c)) (i_snap s)
        (insert_pos (skey kb) (map fst (entries (mbytes c) b (v_used s)))) (v_used s),
      store_items := W64 (i_snap s)\<rparr> \<Longrightarrow> keeps s (mbytes c) (mbytes c4)"
proof -
  note d = writerD [OF w]
  have un: "untouched s kb vb x" if "visible s x" for x
    by (rule visible_untouched [OF d(5) room that])
  have a': "128 \<le> a" "a + 64 \<le> k_base s" "a + 64 \<le> v_base s"
    using room by (auto simp: has_room_def areas a)
  have h: "rd_hdr (snap_bytes s b (mbytes c)) = view_hdr s" "file_len (v_keys s) < 2 ^ 31"
    using d(6) by (simp_all add: snap_bytes_hdr hdr_ok_def)
  have sn: "snap_bytes s b (mbytes c) x = mbytes c x" if "visible s x" for x
    using un [OF that] by (intro snap_bytes_outside) (auto simp: untouched_def)
  show "keeps s (mbytes c) (snap_bytes s b (mbytes c))" using sn by (simp add: keeps_def)
  have "add_key_bytes s a kb (snap_bytes s b (mbytes c)) x = snap_bytes s b (mbytes c) x"
    if "visible s x" for x
    by (rule add_key_bytes_facts(5) [OF a'(1,2) cstr_place(5) [OF key] h(1)])
      (use un [OF that] in \<open>auto simp: untouched_def a\<close>)
  then show "keeps s (mbytes c) (add_key_bytes s a kb (snap_bytes s b (mbytes c)))"
    using sn by (simp add: keeps_def)
  have "add_bytes s a kb vb (snap_bytes s b (mbytes c)) x = snap_bytes s b (mbytes c) x"
    if "visible s x" for x
    by (rule add_bytes_facts(2) [OF h room a']) (use un [OF that] in \<open>auto simp: untouched_def a\<close>)
  then show "keeps s (mbytes c) (add_bytes s a kb vb (snap_bytes s b (mbytes c)))"
    using sn by (simp add: keeps_def)
  show "keeps s (mbytes c) (appended_bytes s b kb vb (mbytes c))"
    using appended_untouched [OF w room] un by (simp add: keeps_def)
  show "keeps s (mbytes c) (mbytes c4)"
    if "c4 = (start_ctx s c b)\<lparr>mbytes := insert_slot (appended_bytes s b kb vb (mbytes c)) (i_snap s)
        (insert_pos (skey kb) (map fst (entries (mbytes c) b (v_used s)))) (v_used s),
      store_items := W64 (i_snap s)\<rparr>"
    using sorted_ctx(5) [OF w key room new that] un by (simp add: keeps_def)
qed

lemma insert_run_ok:
  assumes w: "writer s c b" and key: "cstr key kb" and val: "cstr val vb"
    and room: "has_room s kb vb"
    and new: "skey kb \<notin> fst ` set (entries (mbytes c) b (v_used s))"
    and c': "c' = snd (last (insert_trace env s b c kb vb))"
  shows "\<forall>st \<in> set (insert_trace env s b c kb vb). run_ok s c c' st"
proof -
  note st = write_start [OF w key] and d = writerD [OF w]
  let ?c1 = "start_ctx s c b" and ?a = "i_snap s + 64 * v_used s" and ?s3 = "insert_view s kb vb"
  let ?k1 = "?c1\<lparr>mbytes := add_key_bytes s ?a kb (mbytes ?c1)\<rparr>"
  let ?v1 = "?c1\<lparr>mbytes := add_bytes s ?a kb vb (mbytes ?c1)\<rparr>"
  let ?s1 = "?c1\<lparr>mbytes := insert_slot (appended_bytes s b kb vb (mbytes c)) (i_snap s)
      (insert_pos (skey kb) (map fst (entries (mbytes c) b (v_used s)))) (v_used s),
    store_items := W64 (i_snap s)\<rparr>"
  have a: "128 \<le> ?a" "?a + 64 \<le> k_base s" "?a + 64 \<le> v_base s"
    using room by (auto simp: has_room_def areas)
  note ad = add_steps [OF st(2) room a key val refl] and cs = count_step [OF w key room refl refl]
    and so = sorted_ctx [OF w key room new refl] and kp = insert_keeps [OF w key room new refl]
  note v = view_okD [OF d(5)]
  have r: "v_key_used s + length kb + 1 \<le> 64 * v_keys s"
    "v_val_used s + length vb + 1 \<le> 256 * v_keys s"
    using room by (simp_all add: has_room_def)
  have "quiet s c c"
    using quiet_hdr_ok [OF d(6,6)] v by (simp add: keeps_def)
  moreover have "quiet s c ?c1"
    using quiet_hdr_ok [OF d(6) st(2)] v kp(1) by simp
  moreover have "quiet s c ?k1"
    using quiet_hdr_ok [OF d(6) ad(1)] v r kp(2) by simp
  moreover have "quiet s c ?v1"
    using quiet_hdr_ok [OF d(6) cs(1)] r kp(3) by (simp add: add_view_def)
  moreover have "keeps s (mbytes c) (switch_bytes ?s3 (mbytes ?s1))"
    by (rule switch_keeps [OF kp(5) [OF refl]])
  moreover have "mapped c" "mapped ?c1" "msize ?c1 = msize c"
    using d(6) by (simp_all add: hdr_ok_def start_ctx_def)
  ultimately show ?thesis
    using kp(4,5) late_hdr_insert [OF cs(5)] late_hdr_insert [OF so(1)]
    by (simp add: insert_trace_def Let_def c' run_ok_quiet) (simp add: run_ok_def)
qed

subsection \<open>The run of a replacement\<close>

definition replace_trace ::
  "os_env \<Rightarrow> store_view \<Rightarrow> nat \<Rightarrow> pupa_ctx \<Rightarrow> nat \<Rightarrow> byte list \<Rightarrow> (write_pc \<times> pupa_ctx) list" where
  "replace_trace env s b c i vb =
     (let c1 = start_ctx s c b; a = i_snap s + 64 * i;
          n = unat (val_cnt (rd_item (mbytes c1) a));
          m1 = put_bytes (mbytes c1) (v_base s + v_val_used s) (stored vb);
          m2 = shift_bytes n a m1; m3 = rec_bytes s (a + 48) vb m2;
          m4 = replaced_bytes s b i vb (mbytes c);
          w1 = c1\<lparr>mbytes := switch_bytes (replace_view s vb) m4\<rparr>
      in [(Begin, c), (Snapped, c1), (Present (W64 a), c1),
          (Room_found (W64 a) (W64 (v_base s + v_val_used s)) (W64 (v_base s)), c1),
          (Value_stored (W64 a) (W64 (v_base s)), c1\<lparr>mbytes := m1\<rparr>),
          (Shifted (W64 (a + 48)) (W64 (v_base s)), c1\<lparr>mbytes := m2\<rparr>),
          (Recorded (W64 (a + 48)), c1\<lparr>mbytes := m3\<rparr>),
          (Replaced, c1\<lparr>mbytes := m4\<rparr>), (Switched, w1),
          (Returned (pupa_shm_sync env w1), w1)])"

lemma replaced_ctx:
  assumes w: "writer s c b" and key: "cstr key kb" and val: "cstr val vb"
    and room: "v_val_used s + length vb + 1 \<le> 256 * v_keys s"
    and i: "i < v_used s" and a: "a = i_snap s + 64 * i"
    and n: "n = unat (val_cnt (rd_item (snap_bytes s b (mbytes c)) a))"
  shows "128 \<le> a" "a + 64 \<le> v_base s" "rd32 (mbytes (start_ctx s c b)) (a + 12) = W32 n"
    "1 \<le> n" "n \<le> 3"
    "hdr_ok (replace_view s vb) ((start_ctx s c b)\<lparr>mbytes := replaced_bytes s b i vb (mbytes c)\<rparr>)"
    "view_ok (replace_view s vb)"
    "index_ok (replace_view s vb) (replaced_bytes s b i vb (mbytes c)) (i_snap s)"
proof -
  note d = writerD [OF w]
  have sh: "rd_hdr (mbytes c) = view_hdr s" using d(6) by (simp add: hdr_ok_def)
  note r = replaced_index [OF d(5) sh d(4) room i]
  show "128 \<le> a" "a + 64 \<le> v_base s" using i view_okD(3) [OF d(5)] by (auto simp: areas a)
  have "item_ok s (snap_bytes s b (mbytes c)) a"
    using index_okD(1) [OF snapshot_entries(1) [OF d(5,4)] i] by (simp add: a)
  then show "1 \<le> n" "n \<le> 3" by (simp_all add: item_ok_def Let_def n)
  show "rd32 (mbytes (start_ctx s c b)) (a + 12) = W32 n" by (simp add: n rd_item_def W32_def)
  show "hdr_ok (replace_view s vb) ((start_ctx s c b)\<lparr>mbytes := replaced_bytes s b i vb (mbytes c)\<rparr>)"
    by (rule hdr_ok_put [OF write_start(2) [OF w key] r(1)]) (simp add: replace_view_def)
  show "view_ok (replace_view s vb)" using d(5) room by (simp add: view_ok_def replace_view_def)
  show "index_ok (replace_view s vb) (replaced_bytes s b i vb (mbytes c)) (i_snap s)" by (rule r(2))
qed

lemma replace_run:
  assumes w: "writer s c b" and key: "cstr key kb" and val: "cstr val vb"
    and room: "v_val_used s + length vb + 1 \<le> 256 * v_keys s"
    and i: "i < v_used s" "item_key (mbytes c) (b + 64 * i) = skey kb"
  shows "write_run env key val (replace_trace env s b c i vb)"
proof -
  let ?c1 = "start_ctx s c b" and ?a = "i_snap s + 64 * i"
  note st = write_start [OF w key] and rc = replaced_ctx [OF w key val room i(1) refl refl]
  note rs = replace_steps [OF st(2) rc(1-5) room val refl refl refl]
  have s2: "write_step env key val (Snapped, ?c1) (Present (W64 ?a), ?c1)"
    using write_step.present [OF hdr_okD(6) [OF st(2)], of key "W64 ?a" env val] st(3) [OF i]
    by (simp add: view_simps)
  note vp = value_place_step [OF st(2) room val]
  have m4: "replace_bytes s ?a (unat (val_cnt (rd_item (snap_bytes s b (mbytes c)) ?a))) vb
      (mbytes ?c1) = replaced_bytes s b i vb (mbytes c)"
    by (simp add: replaced_bytes_def Let_def)
  show ?thesis
    unfolding replace_trace_def Let_def
    by (intro write_run.intros write_step.snapshot [OF st(1)] s2 write_step.find_room [OF vp]
        write_step.store_value write_step.shift write_step.record_value write_step.count_value
        write_step.switch_replaced write_step.sync)
      (simp_all add: rs [simplified] m4 [simplified] switch_step(1) [OF rc(6)])
qed

lemma visible_apart:
  assumes "view_ok s" "v_val_used s + length vb + 1 \<le> 256 * v_keys s" "visible s x"
  shows "128 \<le> x \<and> (x < i_snap s \<or> i_snap s + 64 * v_used s \<le> x) \<and>
     (x < v_base s + v_val_used s \<or> v_base s + v_val_used s + length vb + 1 \<le> x)"
  using view_okD(3-5) [OF assms(1)] assms(2,3)
  by (auto simp: visible_def areas split: if_splits)

lemma replace_keeps:
  assumes w: "writer s c b" and room: "v_val_used s + length vb + 1 \<le> 256 * v_keys s"
    and i: "i < v_used s" and a: "a = i_snap s + 64 * i" and n: "n \<le> 3"
    and m1: "m1 = put_bytes (snap_bytes s b (mbytes c)) (v_base s + v_val_used s) (stored vb)"
  shows "keeps s (mbytes c) (snap_bytes s b (mbytes c))" "keeps s (mbytes c) m1"
    "keeps s (mbytes c) (shift_bytes n a m1)"
    "keeps s (mbytes c) (rec_bytes s (a + 48) vb (shift_bytes n a m1))"
    "keeps s (mbytes c) (replaced_bytes s b i vb (mbytes c))"
proof -
  note d = writerD [OF w]
  note ap = visible_apart [OF d(5) room]
  have out: "x < a \<or> a + 64 \<le> x" if "visible s x" for x using ap [OF that] i a by auto
  show k0: "keeps s (mbytes c) (snap_bytes s b (mbytes c))"
    using ap by (simp add: keeps_def snap_bytes_outside)
  show k1: "keeps s (mbytes c) m1"
    using k0 ap by (simp add: keeps_def m1 mem_simps)
  show k2: "keeps s (mbytes c) (shift_bytes n a m1)"
    using k1 out n by (fastforce simp: keeps_def shift_bytes_frame)
  show "keeps s (mbytes c) (rec_bytes s (a + 48) vb (shift_bytes n a m1))"
    unfolding keeps_def
  proof (intro allI impI)
    fix x
    assume x: "visible s x"
    have "128 \<le> a + 48" by (simp add: a areas)
    then have "rec_bytes s (a + 48) vb (shift_bytes n a m1) x = shift_bytes n a m1 x"
      using out [OF x] by (intro rec_bytes_facts(3)) auto
    then show "rec_bytes s (a + 48) vb (shift_bytes n a m1) x = mbytes c x"
      using k2 x by (simp add: keeps_def)
  qed
  have sh: "rd_hdr (mbytes c) = view_hdr s" using d(6) by (simp add: hdr_ok_def)
  show "keeps s (mbytes c) (replaced_bytes s b i vb (mbytes c))"
    using replaced_index(4) [OF d(5) sh d(4) room i] ap by (simp add: keeps_def)
qed

lemma replace_run_ok:
  assumes w: "writer s c b" and key: "cstr key kb" and val: "cstr val vb"
    and room: "v_val_used s + length vb + 1 \<le> 256 * v_keys s"
    and i: "i < v_used s" "item_key (mbytes c) (b + 64 * i) = skey kb"
    and c': "c' = snd (last (replace_trace env s b c i vb))"
  shows "\<forall>st \<in> set (replace_trace env s b c i vb). run_ok s c c' st"
proof -
  note st = write_start [OF w key] and d = writerD [OF w] and v = view_okD [OF writerD(5) [OF w]]
  note rc = replaced_ctx [OF w key val room i(1) refl refl]
  note rs = replace_steps [OF st(2) rc(1-5) room val refl refl refl]
  note kp = replace_keeps [OF w room i(1) refl rc(5) refl]
  let ?c1 = "start_ctx s c b" and ?a = "i_snap s + 64 * i" and ?s2 = "replace_view s vb"
  let ?n = "unat (val_cnt (rd_item (mbytes ?c1) ?a))" and ?m4 = "replaced_bytes s b i vb (mbytes c)"
  let ?m1 = "put_bytes (mbytes ?c1) (v_base s + v_val_used s) (stored vb)"
  let ?m2 = "shift_bytes ?n ?a ?m1"
  have "quiet s c c" using quiet_hdr_ok [OF d(6,6)] v by (simp add: keeps_def)
  moreover have "quiet s c ?c1" using quiet_hdr_ok [OF d(6) st(2)] v kp(1) by simp
  moreover have "quiet s c (?c1\<lparr>mbytes := ?m1\<rparr>)"
    using quiet_hdr_ok [OF d(6) rs(1)] v kp(2) by simp
  moreover have "quiet s c (?c1\<lparr>mbytes := ?m2\<rparr>)"
    using quiet_hdr_ok [OF d(6) rs(2)] v kp(3) by simp
  moreover have "quiet s c (?c1\<lparr>mbytes := rec_bytes s (?a + 48) vb ?m2\<rparr>)"
    using quiet_hdr_ok [OF d(6) rs(3)] v kp(4) by simp
  moreover have "quiet s c (?c1\<lparr>mbytes := ?m4\<rparr>)"
    using quiet_hdr_ok [OF d(6) rc(6)] v kp(5) room by (simp add: replace_view_def)
  moreover have "keeps s (mbytes c) (switch_bytes ?s2 ?m4)" by (rule switch_keeps [OF kp(5)])
  moreover have "mapped ?c1" "msize ?c1 = msize c"
    using d(6) by (simp_all add: hdr_ok_def start_ctx_def)
  ultimately show ?thesis
    by (simp add: replace_trace_def Let_def c' run_ok_quiet) (simp add: run_ok_def)
qed

subsection \<open>Any write that finds room\<close>

lemma run_to_last: "write_run env key val sts \<Longrightarrow> write_steps env key val (hd sts) (last sts)"
  by (induction rule: write_run.induct)
    (auto intro: converse_rtranclp_into_rtranclp)

lemma write_trace:
  assumes w: "writer_ok c" and key: "cstr key kb" and val: "cstr val vb"
    and r: "set_ready c kb vb" and env: "malloc_ok env"
  obtains sts c' where "write_run env key val sts" "hd sts = (Begin, c)"
    "last sts = (Returned (pupa_shm_sync env c'), c')" "\<forall>st \<in> set sts. run_ok (view_of c) c c' st"
    "\<forall>st \<in> set sts. exposed (fst st) \<longrightarrow> work_map c (skey kb) = None"
proof -
  define s b where "s = view_of c" and "b = unat (store_items c)"
  have w': "writer s c b" using w by (simp add: writer_ok_def s_def b_def)
  note we = writer_work [OF w']
  show ?thesis
  proof (cases "work_map c (skey kb)")
    case None
    then have new: "skey kb \<notin> fst ` set (entries (mbytes c) b (v_used s))"
      and room: "has_room s kb vb"
      and left: "insert_pos (skey kb) (map fst (entries (mbytes c) b (v_used s))) = 0 \<Longrightarrow>
        left_ok (v_used s)"
      using r by (simp_all add: work_map_def we map_of_eq_None_iff set_ready_def search_returns_def s_def)
    let ?sts = "insert_trace env s b c kb vb"
    have hd: "hd ?sts = (Begin, c)"
      and last: "last ?sts = (Returned (pupa_shm_sync env (snd (last ?sts))), snd (last ?sts))"
      by (simp_all add: insert_trace_def Let_def)
    have ok: "\<forall>st \<in> set ?sts. run_ok (view_of c) c (snd (last ?sts)) st"
      using insert_run_ok [OF w' key val room new refl, of env] by (simp only: s_def)
    have "\<forall>st \<in> set ?sts. exposed (fst st) \<longrightarrow> work_map c (skey kb) = None" using None by blast
    then show ?thesis
      using that [OF insert_run [OF w' key val room env new left] hd last ok] by blast
  next
    case (Some vs)
    then obtain i where i: "i < v_used s" "item_key (mbytes c) (b + 64 * i) = skey kb"
      by (force simp: work_map_def we in_set_conv_nth entry_def dest: map_of_SomeD)
    have room: "v_val_used s + length vb + 1 \<le> 256 * v_keys s"
      using r Some by (simp add: set_ready_def val_room_def s_def)
    let ?sts = "replace_trace env s b c i vb"
    have hd: "hd ?sts = (Begin, c)"
      and last: "last ?sts = (Returned (pupa_shm_sync env (snd (last ?sts))), snd (last ?sts))"
      by (simp_all add: replace_trace_def Let_def)
    have ok: "\<forall>st \<in> set ?sts. run_ok (view_of c) c (snd (last ?sts)) st"
      using replace_run_ok [OF w' key val room i refl, of env] by (simp only: s_def)
    have "\<forall>st \<in> set ?sts. \<not> exposed (fst st)" by (simp add: replace_trace_def Let_def)
    then show ?thesis using that [OF replace_run [OF w' key val room i] hd last ok] by blast
  qed
qed

lemma write_reach:
  assumes w: "writer_ok c" and key: "cstr key kb" and val: "cstr val vb"
    and r: "set_ready c kb vb" and env: "malloc_ok env"
    and st: "write_steps env key val (Begin, c) (pc, c1)"
  obtains c' where "pupa_store_set env c key val = Some (pupa_shm_sync env c', c')"
    "run_ok (view_of c) c c' (pc, c1)"
    "write_steps env key val (pc, c1) (Returned (pupa_shm_sync env c'), c')"
    "exposed pc \<longrightarrow> work_map c (skey kb) = None"
proof -
  obtain sts c' where sts: "write_run env key val sts" "hd sts = (Begin, c)"
    "last sts = (Returned (pupa_shm_sync env c'), c')" "\<forall>st \<in> set sts. run_ok (view_of c) c c' st"
    "\<forall>st \<in> set sts. exposed (fst st) \<longrightarrow> work_map c (skey kb) = None"
    by (rule write_trace [OF w key val r env])
  have "(pc, c1) \<in> set sts" using run_reaches [OF sts(1)] st sts(2) by simp
  then have ok: "run_ok (view_of c) c c' (pc, c1)" "exposed pc \<longrightarrow> work_map c (skey kb) = None"
    using sts(4,5) by force+
  have "write_steps env key val (Begin, c) (Returned (pupa_shm_sync env c'), c')"
    using run_to_last [OF sts(1)] sts(2,3) by simp
  then have set: "pupa_store_set env c key val = Some (pupa_shm_sync env c', c')"
    by (simp add: set_iff_steps)
  then have "resume env key val pc c1 = Some (pupa_shm_sync env c', c')"
    using resume_steps [OF st] by (simp add: resume_Begin del: resume.simps(1))
  then show ?thesis using that set ok steps_resume by blast
qed

text \<open>What the file holds between two steps.\<close>

lemma write_reach_map:
  assumes w: "writer_ok c" and key: "cstr key kb" and val: "cstr val vb"
    and r: "set_ready c kb vb" and env: "malloc_ok env"
    and st: "write_steps env key val (Begin, c) (pc, c1)" and ex: "\<not> exposed pc"
  shows "store_wf c1"
    "store_map c1 =
       (if published pc
        then (work_map c)(skey kb \<mapsto> take 3 (stored vb # versions (work_map c (skey kb))))
        else store_map c)"
proof -
  obtain c' where c': "pupa_store_set env c key val = Some (pupa_shm_sync env c', c')"
    "run_ok (view_of c) c c' (pc, c1)"
    by (rule write_reach [OF w key val r env st])
  obtain c2 where c2: "pupa_store_set env c key val = Some (pupa_shm_sync env c2, c2)" "writer_ok c2"
    "store_map c2 = (work_map c)(skey kb \<mapsto> take 3 (stored vb # versions (work_map c (skey kb))))"
    using set_any_key [OF w key val r env] by blast
  have wv: "wf_view (view_of c) c" using writer_ok_wf [OF w] by (simp add: store_wf_def)
  show "store_wf c1"
    "store_map c1 =
       (if published pc
        then (work_map c)(skey kb \<mapsto> take 3 (stored vb # versions (work_map c (skey kb))))
        else store_map c)"
    using c'(2) ex c2(2,3) c'(1) c2(1) writer_ok_wf quiet_map [OF wv, of c1]
    by (auto simp: run_ok_def split: if_splits)
qed

subsection \<open>Values that were returned\<close>

lemma get_ok_ref:
  assumes wf: "store_wf c" and key: "cstr key kb" and pos: "1 \<le> sint ver"
    and get: "pupa_store_get c key ver = Some (PUPA_OK, Some v, c')"
  obtains w where "v = val_ref w" "val_ok (view_of c) (mbytes c) w"
proof -
  have wv: "wf_view (view_of c) c" using wf by (simp add: store_wf_def)
  have le: "sint ver \<le> 3"
    using get_exceeds [OF wf, of ver key] get by (force simp: return_codes)
  obtain vs where Some: "store_map c (skey kb) = Some vs"
    using get_missing [OF wv key _ le] get by (cases "store_map c (skey kb)") (auto simp: return_codes)
  define r where "r = nat (sint ver)"
  have r: "ver = W32 r" "1 \<le> r" "r \<le> 3"
  proof -
    have "word_of_int (sint ver) = ver" by simp
    then show "ver = W32 r" using pos unfolding W32_def r_def by simp
  qed (use pos le in \<open>auto simp: r_def\<close>)
  obtain s i where si: "wf_view s c" "view_of c = s" "i < v_used s"
    "item_key (mbytes c) (i_base s + 64 * i) = skey kb"
    "length vs = unat (val_cnt (rd_item (mbytes c) (i_base s + 64 * i)))"
    "\<And>r. 1 \<le> r \<Longrightarrow> r \<le> length vs \<Longrightarrow>
       val_ok s (mbytes c) (item_val (mbytes c) (i_base s + 64 * i) (3 - r))"
    by (rule wf_hit [OF wf Some]) blast
  have "16 + 16 * (3 - r) = 64 - 16 * r" using r by simp
  then have iv: "rd_item_val (mbytes c) (i_base s + 64 * i + 64 - 16 * r) =
      item_val (mbytes c) (i_base s + 64 * i) (3 - r)"
    using r by (simp add: item_val_def add.assoc)
  have "r \<le> length vs" "v = val_ref (item_val (mbytes c) (i_base s + 64 * i) (3 - r))"
    using get_hit [OF si(1) key si(3,4) r(3)] get r(1) si(5)
    by (auto simp: Let_def iv val_ref_def return_codes split: if_splits)
  then show ?thesis using that si(2,6) r(2) by blast
qed

lemma ref_stays:
  assumes w: "val_ok s (mbytes c) v" and k: "keeps s (mbytes c) (mbytes c1)"
    and sz: "msize c1 = msize c" and d: "denotes c (val_ref v) bs"
  shows "denotes c1 (val_ref v) bs"
proof -
  have n: "unat (value_len v) = length bs" "bytes_at (mbytes c) (unat (value_offset v)) (length bs) = bs"
    "unat (value_offset v) + length bs \<le> msize c"
    using d by (auto simp: denotes_def val_ref_def cptr_bytes_def ldn_def in_map_def split: if_splits)
  have "bytes_at (mbytes c1) (unat (value_offset v)) (length bs) =
      bytes_at (mbytes c) (unat (value_offset v)) (length bs)"
    by (rule bytes_at_cong) (use w k n(1) in \<open>auto simp: keeps_def visible_def val_ok_def\<close>)
  then show ?thesis
    using n sz by (simp add: denotes_def val_ref_def cptr_bytes_def ldn_def in_map_def)
qed

end
