(* ===== verification/Torn.thy ===== *)
theory Torn
  imports Reach Edges
begin

text \<open>
  A lookup that is not a single event: it reads the fields of the header in several states of a
  write, one after the other, and each byte of the entries, keys and values it looks at in some
  later state of that write, on both sides of the switch.
\<close>

text \<open>
  \<open>pupa_store_get\<close> with its reads of the header apart, in the order of the code: \<open>h 0\<close> is the
  header when \<open>max_ver_num\<close> is compared with the version, \<open>h 1\<close> when the \<open>id\<close> of the item
  section and its offset are taken, \<open>h 2\<close> when \<open>item_len\<close> is computed, \<open>h 3\<close> when \<open>used\<close> is
  passed to \<open>bsearch\<close>, and \<open>h 4\<close> when the record of the version is addressed.
\<close>

definition lookup_reads ::
  "(nat \<Rightarrow> pupa_store_hdr) \<Rightarrow> pupa_ctx \<Rightarrow> pupa_str \<Rightarrow> c_int \<Rightarrow> (int \<times> pupa_str option \<times> pupa_ctx) option"
  where
  "lookup_reads h c key version =
     (if sint (max_ver_num (h 0)) < sint version then Some (PUPA_EXCEED_MAXIMUM_NUM, None, c)
      else
        (let c = c\<lparr>store_items := PUPA_STORE_GET_ADDR (item_section (h 1))\<rparr>
         in do {
           found \<leftarrow> bsearch (pupa_store_item_compare c (probe key)) (store_items c)
                      (sec_used (item_section (h 3))) (item_stride (h 2));
           case found of
             None \<Rightarrow> Some (PUPA_NOT_FOUND, None, c)
           | Some p \<Rightarrow>
               do {
                 it \<leftarrow> load_item c p;
                 if key_len it = 0 then Some (PUPA_ERROR, None, c)
                 else if sint (val_cnt it) < sint version
                 then Some (PUPA_NOT_FOUND_VALUE, None, c)
                 else
                   do {
                     v \<leftarrow> load_item_val c (p + sizeof_item
                            + scast (max_ver_num (h 4)) * sizeof_item_val
                            - scast version * sizeof_item_val);
                     Some (PUPA_OK,
                       Some \<lparr>str_len = value_len v, str_data = Off (0 + value_offset v)\<rparr>, c)
                   }
               }
         }))"

text \<open>With one header for all of them it is \<open>pupa_store_get\<close>.\<close>

lemma get_split:
  "pupa_store_get c key version = do { h \<leftarrow> load_hdr c; lookup_reads (\<lambda>_. h) c key version }"
  by (simp add: pupa_store_get_def lookup_reads_def)

lemma lookup_reads_cong:
  assumes "\<And>i. i < 5 \<Longrightarrow> max_ver_num (h i) = max_ver_num g"
    "PUPA_STORE_GET_ADDR (item_section (h 1)) = PUPA_STORE_GET_ADDR (item_section g)"
    "sec_used (item_section (h 3)) = sec_used (item_section g)"
  shows "lookup_reads h c key version = lookup_reads (\<lambda>_. g) c key version"
proof -
  have st: "item_stride (h 2) = item_stride g"
    using assms(1) [of 2] by (simp add: item_stride_def item_len_def)
  have mv: "max_ver_num (h 0) = max_ver_num g" "max_ver_num (h 4) = max_ver_num g"
    by (rule assms(1), simp)+
  show ?thesis unfolding lookup_reads_def mv st assms(2,3) ..
qed

text \<open>Two contexts that agree behind the header.\<close>

definition same_body :: "pupa_ctx \<Rightarrow> pupa_ctx \<Rightarrow> bool" where
  "same_body c r \<longleftrightarrow> mapped r = mapped c \<and> msize r = msize c \<and> (\<forall>x \<ge> 128. mbytes r x = mbytes c x)"

lemma same_body_entry:
  assumes w: "wf_view s c" and b: "same_body c r" and i: "i < v_used s"
  shows "key_ok s (mbytes r) (i_base s + 64 * i)"
    "rd_item (mbytes r) (i_base s + 64 * i) = rd_item (mbytes c) (i_base s + 64 * i)"
    "item_key (mbytes r) (i_base s + 64 * i) = item_key (mbytes c) (i_base s + 64 * i)"
proof -
  have lo: "128 \<le> i_base s + 64 * i" "128 \<le> k_base s" by (simp_all add: areas)
  show it: "rd_item (mbytes r) (i_base s + 64 * i) = rd_item (mbytes c) (i_base s + 64 * i)"
    using b lo by (intro rd_item_cong) (simp add: same_body_def)
  have ok: "key_ok s (mbytes c) (i_base s + 64 * i)" by (rule item_ok_key_ok [OF wf_view_item [OF w i]])
  then show "key_ok s (mbytes r) (i_base s + 64 * i)" by (simp add: key_ok_def it)
  show "item_key (mbytes r) (i_base s + 64 * i) = item_key (mbytes c) (i_base s + 64 * i)"
    using ok lo b unfolding item_key_def it Let_def key_ok_def same_body_def
    by (intro arg_cong [where f = StoreKey] bytes_at_cong) auto
qed

lemma same_body_search:
  assumes w: "wf_view s c" and b: "same_body c r" and key: "cstr key kb"
  obtains res where
    "bsearch (pupa_store_item_compare c (probe key)) (W64 (i_base s)) (W64 (v_used s)) 64 = Some res"
    "bsearch (pupa_store_item_compare r (probe key)) (W64 (i_base s)) (W64 (v_used s)) 64 = Some res"
    "res = None \<or> (\<exists>i < v_used s. res = Some (W64 (i_base s + 64 * i)))"
proof -
  note sr = wf_searchable [OF w] and e = same_body_entry [OF w b] and d = wf_viewD [OF w]
  have len: "file_len (v_keys s) < 2 ^ 31" using d(3) by (simp add: file_len_def)
  have ks: "map fst (entries (mbytes r) (i_base s) (v_used s)) =
      map fst (entries (mbytes c) (i_base s) (v_used s))"
    using e(3) by (simp add: entries_def entry_def)
  have mr: "msize r = file_len (v_keys s)" using b d(2) by (simp add: same_body_def)
  have kc: "key_ok s (mbytes c) (i_base s + 64 * i)" if "i < v_used s" for i
    by (rule item_ok_key_ok [OF wf_view_item [OF w that]])
  note sc = bsearch_entries [OF kc d(2) len d(7) index_fits [OF sr] key d(9)]
  note sR = bsearch_entries [OF e(1) mr len d(7) index_fits [OF sr] key d(9) [folded ks]]
  show ?thesis
  proof (cases "skey kb \<in> fst ` set (entries (mbytes c) (i_base s) (v_used s))")
    case True
    then obtain i where i: "i < v_used s" "item_key (mbytes c) (i_base s + 64 * i) = skey kb"
      by (auto simp: in_set_conv_nth entry_def)
    then have r: "item_key (mbytes r) (i_base s + 64 * i) = skey kb" using e(3) by simp
    have "bsearch (pupa_store_item_compare c (probe key)) (W64 (i_base s)) (W64 (v_used s)) 64 =
        Some (Some (W64 (i_base s + 64 * i)))"
      by (rule sc(1)) (use i in simp_all)
    moreover have "bsearch (pupa_store_item_compare r (probe key)) (W64 (i_base s)) (W64 (v_used s)) 64 =
        Some (Some (W64 (i_base s + 64 * i)))"
      by (rule sR(1)) (use i r in simp_all)
    ultimately show ?thesis using that i(1) by blast
  next
    case False
    have "bsearch (pupa_store_item_compare c (probe key)) (W64 (i_base s)) (W64 (v_used s)) 64 = Some None"
      by (rule sc(2)) (use False in simp_all)
    moreover have "bsearch (pupa_store_item_compare r (probe key)) (W64 (i_base s)) (W64 (v_used s)) 64 =
        Some None"
      by (rule sR(2)) (use False arg_cong [OF ks, of set] in \<open>simp_all\<close>)
    ultimately show ?thesis using that by blast
  qed
qed

lemma same_body_load:
  assumes w: "wf_view s c" and b: "same_body c r" and i: "i < v_used s" and v: "v \<le> 3" "1 \<le> v"
  shows "load_item r (W64 (i_base s + 64 * i)) = load_item c (W64 (i_base s + 64 * i))"
    "load_item_val r (W64 (i_base s + 64 * i) + 16 + scast (W32 3) * 16 - scast (W32 v) * 16) =
     load_item_val c (W64 (i_base s + 64 * i) + 16 + scast (W32 3) * 16 - scast (W32 v) * 16)"
proof -
  let ?a = "i_base s + 64 * i"
  note sl = slot_in_map [OF wf_searchable [OF w] i]
  have ua: "unat (W64 ?a) = ?a" "unat (W64 (?a + (64 - 16 * v))) = ?a + (64 - 16 * v)"
    using sl(1) [of 0 0] sl(1) [of "64 - 16 * v" 0] by simp_all
  have lo: "128 \<le> ?a" by (simp add: areas)
  have bd: "msize r = msize c" "\<And>x. 128 \<le> x \<Longrightarrow> mbytes r x = mbytes c x"
    using b by (simp_all add: same_body_def)
  have "rd_item (mbytes r) ?a = rd_item (mbytes c) ?a" by (rule same_body_entry(2) [OF w b i])
  then show "load_item r (W64 ?a) = load_item c (W64 ?a)"
    using ua bd by (simp add: load_item_def in_map_def)
  have va: "W64 ?a + 16 + scast (W32 3) * 16 - scast (W32 v) * 16 = W64 (?a + (64 - 16 * v))"
    using v W64_diff [of "v * 16" "?a + 64"]
    by (simp add: scast_32_64 addr_simps) (simp add: algebra_simps)
  have "rd_item_val (mbytes r) (?a + (64 - 16 * v)) = rd_item_val (mbytes c) (?a + (64 - 16 * v))"
    using lo bd(2) by (intro rd_item_val_cong) simp
  then show "load_item_val r (W64 ?a + 16 + scast (W32 3) * 16 - scast (W32 v) * 16) =
     load_item_val c (W64 ?a + 16 + scast (W32 3) * 16 - scast (W32 v) * 16)"
    unfolding va using ua bd by (simp add: load_item_val_def in_map_def)
qed

lemma same_body_lookup:
  assumes w: "wf_view s c" and b: "same_body c r" and key: "cstr key kb" and pos: "1 \<le> sint ver"
    and lc: "lookup_reads (\<lambda>_. view_hdr s) c key ver = Some (ret, v, c')"
  shows "\<exists>r'. lookup_reads (\<lambda>_. view_hdr s) r key ver = Some (ret, v, r')"
proof (cases "3 < sint ver")
  case True
  then show ?thesis using lc by (simp add: lookup_reads_def view_simps sint_W32)
next
  case False
  let ?c = "c\<lparr>store_items := W64 (i_base s)\<rparr>" and ?r = "r\<lparr>store_items := W64 (i_base s)\<rparr>"
  have w': "wf_view s ?c" and b': "same_body ?c ?r" using w b by (simp_all add: same_body_def)
  define n where "n = nat (sint ver)"
  have n: "1 \<le> n" "n \<le> 3" using pos False by (simp_all add: n_def)
  have "word_of_int (sint ver) = ver" by simp
  then have ver: "ver = W32 n" using pos unfolding W32_def n_def by simp
  obtain res where res:
    "bsearch (pupa_store_item_compare ?c (probe key)) (W64 (i_base s)) (W64 (v_used s)) 64 = Some res"
    "bsearch (pupa_store_item_compare ?r (probe key)) (W64 (i_base s)) (W64 (v_used s)) 64 = Some res"
    "res = None \<or> (\<exists>i < v_used s. res = Some (W64 (i_base s + 64 * i)))"
    by (rule same_body_search [OF w' b' key])
  show ?thesis
  proof (cases res)
    case None
    then show ?thesis using lc res False by (simp add: lookup_reads_def view_simps sint_W32)
  next
    case (Some p)
    then obtain i where i: "i < v_used s" "p = W64 (i_base s + 64 * i)" using res(3) by auto
    note ld = same_body_load [OF w' b' i(1) n(2,1)]
    show ?thesis
      using lc res(1,2) Some i(2) ld False
      by (auto simp: lookup_reads_def view_simps sint_W32 ver sizeofs bind_Some_iff Let_def split: if_splits)
  qed
qed

subsection \<open>Bytes from several states of a write\<close>

text \<open>A reader that finds each byte as some state from \<open>st\<close> on has it.\<close>

definition reads_from ::
  "os_env \<Rightarrow> pupa_str \<Rightarrow> pupa_str \<Rightarrow> write_pc \<times> pupa_ctx \<Rightarrow> pupa_ctx \<Rightarrow> bool" where
  "reads_from env key val st r \<longleftrightarrow>
     mapped r \<and> msize r = msize (snd st) \<and>
     (\<forall>x. \<exists>st'. write_steps env key val st st' \<and> mbytes r x = mbytes (snd st') x)"

text \<open>A reader that finds all of them in one state is a special case.\<close>

lemma reads_from_one:
  "write_steps env key val st st' \<Longrightarrow> msize (snd st') = msize (snd st) \<Longrightarrow>
     maps_file r (ctx_file (snd st')) \<Longrightarrow> reads_from env key val st r"
  unfolding reads_from_def maps_file_def ctx_file_def by (cases st') force

lemma published_stays:
  "write_steps env key val st st' \<Longrightarrow> published (fst st) \<Longrightarrow> snd st' = snd st \<and> published (fst st')"
proof (induction rule: rtranclp_induct)
  case (step y z)
  obtain pc c where y: "y = (pc, c)" by (cases y)
  have "pc = Switched \<or> (\<exists>r. pc = Returned r)" using step y by (auto simp: published_def)
  then show ?case using step y by auto
qed simp

text \<open>What a lookup reads of the header, in any state of a write that finds room.\<close>

lemma reach_hdr:
  assumes w: "writer_ok c" and key: "cstr key kb" and val: "cstr val vb"
    and r: "set_ready c kb vb" and env: "malloc_ok env"
    and st: "write_steps env key val (Begin, c) (pc, c1)" and h: "load_hdr c1 = Some h"
  shows "max_ver_num h = W32 3"
    "PUPA_STORE_GET_ADDR (item_section h) =
       W64 (item_area_at (v_keys (view_of c)) (v_item_one (view_of c) \<noteq> published pc))"
    "sec_used (item_section h) =
       W64 (if counted pc \<and> work_map c (skey kb) = None then v_used (view_of c) + 1 else v_used (view_of c))"
proof -
  let ?s = "view_of c"
  obtain c' where c': "pupa_store_set env c key val = Some (pupa_shm_sync env c', c')"
    "run_ok ?s c c' (pc, c1)" "exposed pc \<longrightarrow> work_map c (skey kb) = None"
    by (rule write_reach [OF w key val r env st]) blast
  have rh: "h = rd_hdr (mbytes c1)" using h by (simp add: load_hdr_def split: if_splits)
  obtain s1 where s1: "h = view_hdr s1" "v_keys s1 = v_keys ?s"
    "v_item_one s1 = (v_item_one ?s \<noteq> published pc)"
    "v_used s1 = (if counted pc \<and> work_map c (skey kb) = None then v_used ?s + 1 else v_used ?s)"
  proof (cases "published pc")
    case True
    obtain c2 where c2: "pupa_store_set env c key val = Some (pupa_shm_sync env c2, c2)" "writer_ok c2"
      "view_of c2 = switched (if work_map c (skey kb) = None then insert_view ?s kb vb
         else replace_view ?s vb)"
      using set_any_key [OF w key val r env] by blast
    have "c1 = c2" using c'(1,2) c2(1) True by (simp add: run_ok_def)
    moreover have "wf_view (view_of c2) c2" using writer_ok_wf [OF c2(2)] by (simp add: store_wf_def)
    ultimately have "h = view_hdr (view_of c2)" using wf_viewD(4) rh by blast
    then show ?thesis
      using that c2(3) True by (auto simp: counted_def replace_view_def)
  next
    case False
    then show ?thesis
      using that c'(2,3) rh by (fastforce simp: run_ok_def late_hdr_def quiet_def counted_def split: if_splits)
  qed
  show "max_ver_num h = W32 3" by (simp add: s1(1) view_simps)
  show "PUPA_STORE_GET_ADDR (item_section h) =
       W64 (item_area_at (v_keys ?s) (v_item_one ?s \<noteq> published pc))"
    using s1(2,3) by (simp add: s1(1) view_simps)
  show "sec_used (item_section h) =
       W64 (if counted pc \<and> work_map c (skey kb) = None then v_used ?s + 1 else v_used ?s)"
    using s1(4) by (simp add: s1(1) view_simps)
qed

text \<open>The store a reader of old headers sees: that of \<open>c\<close> in front of its bytes.\<close>

definition headed :: "pupa_ctx \<Rightarrow> pupa_ctx \<Rightarrow> pupa_ctx" where
  "headed c d = d\<lparr>mbytes := \<lambda>x. if x < 128 then mbytes c x else mbytes d x\<rparr>"

lemma headed_sel:
  "mapped (headed c d) = mapped d" "msize (headed c d) = msize d"
  "128 \<le> x \<Longrightarrow> mbytes (headed c d) x = mbytes d x"
  "rd_hdr (mbytes (headed c d)) = rd_hdr (mbytes c)"
  "same_body (headed c d) d"
proof -
  show "rd_hdr (mbytes (headed c d)) = rd_hdr (mbytes c)"
    by (rule rd_hdr_cong) (simp add: headed_def)
qed (simp_all add: headed_def same_body_def)

lemma old_bytes:
  assumes w: "writer_ok c" and key: "cstr key kb" and val: "cstr val vb"
    and r: "set_ready c kb vb" and env: "malloc_ok env"
    and st: "write_steps env key val (Begin, c) st" and rd: "reads_from env key val st d"
  shows "mapped d" "msize d = msize c" "visible (view_of c) x \<Longrightarrow> mbytes d x = mbytes c x"
proof -
  let ?s = "view_of c"
  have reach: "\<exists>c''. run_ok ?s c c'' st'" if "write_steps env key val (Begin, c) st'" for st'
  proof -
    obtain pc2 c2 where p2: "st' = (pc2, c2)" by (cases st')
    have "write_steps env key val (Begin, c) (pc2, c2)" using that p2 by simp
    then obtain c'' where "run_ok ?s c c'' (pc2, c2)" by (rule write_reach [OF w key val r env])
    then show ?thesis using p2 by blast
  qed
  show "mapped d" "msize d = msize c" using rd reach [OF st] by (auto simp: reads_from_def run_ok_def)
  show "mbytes d x = mbytes c x" if x: "visible ?s x"
  proof -
    obtain st' where st': "write_steps env key val st st'" "mbytes d x = mbytes (snd st') x"
      using rd unfolding reads_from_def by blast
    then show ?thesis
      using reach [OF rtranclp_trans [OF st st'(1)]] x by (auto simp: run_ok_def keeps_def)
  qed
qed

lemma old_store:
  assumes w: "writer_ok c" and key: "cstr key kb" and val: "cstr val vb"
    and r: "set_ready c kb vb" and env: "malloc_ok env"
    and st: "write_steps env key val (Begin, c) st" and rd: "reads_from env key val st d"
  shows "store_wf (headed c d)" "store_map (headed c d) = store_map c"
    "load_hdr (headed c d) = Some (view_hdr (view_of c))"
proof -
  let ?s = "view_of c" and ?d = "headed c d"
  have wc: "wf_view ?s c" using writer_ok_wf [OF w] by (simp add: store_wf_def)
  note v = wf_viewD [OF wc] and ob = old_bytes [OF w key val r env st rd]
  have kp: "mbytes ?d x = mbytes c x" if "visible ?s x" for x
    using ob(3) [OF that] visible_body [OF that] by (simp add: headed_sel)
  have "?s = ?s\<lparr>v_key_used := v_key_used ?s, v_val_used := v_val_used ?s\<rparr>" by simp
  then have "quiet ?s c ?d"
    using ob(1,2) kp v(4,7,8) unfolding quiet_def keeps_def headed_sel(1,2,4) by (metis order_refl)
  from quiet_map [OF wc this] show "store_wf ?d" "store_map ?d = store_map c" .
  show "load_hdr ?d = Some (view_hdr ?s)"
    using ob(1,2) v(2,4) load_hdr_wf [OF wc] by (simp add: load_hdr_def headed_sel split: if_splits)
qed

lemma new_store:
  assumes pub: "published (fst st)" and rd: "reads_from env key val st d"
  shows "mbytes d = mbytes (snd st)"
proof
  fix x
  obtain st' where "write_steps env key val st st'" "mbytes d x = mbytes (snd st') x"
    using rd unfolding reads_from_def by blast
  then show "mbytes d x = mbytes (snd st) x" using published_stays pub by metis
qed

lemma lookup_body:
  assumes wf: "store_wf c" and b: "same_body c d" and key: "cstr key kb" and pos: "1 \<le> sint ver"
    and h: "load_hdr c = Some h"
  shows "\<exists>v d'. lookup_reads (\<lambda>_. h) d key ver = Some (fst (get_spec (store_map c (skey kb)) (sint ver)), v, d') \<and>
     result_denotes d v (snd (get_spec (store_map c (skey kb)) (sint ver)))"
proof -
  let ?sp = "get_spec (store_map c (skey kb)) (sint ver)"
  have wv: "wf_view (view_of c) c" using wf by (simp add: store_wf_def)
  have hv: "h = view_hdr (view_of c)" using h load_hdr_wf [OF wv] by simp
  obtain v c' where v: "pupa_store_get c key ver = Some (fst ?sp, v, c')" "result_denotes c v (snd ?sp)"
    using get_refines [OF wf key pos] by blast
  have "lookup_reads (\<lambda>_. view_hdr (view_of c)) c key ver = Some (fst ?sp, v, c')"
    using v(1) load_hdr_wf [OF wv] by (simp add: get_split)
  then obtain d' where d': "lookup_reads (\<lambda>_. h) d key ver = Some (fst ?sp, v, d')"
    using same_body_lookup [OF wv b key pos] by (auto simp: hv)
  have "result_denotes d v (snd ?sp)"
  proof (cases v)
    case None
    then show ?thesis using v(2) by (simp add: result_denotes_def)
  next
    case (Some u)
    then obtain bs where bs: "snd ?sp = Some bs" "denotes c u bs"
      using v(2) by (auto simp: result_denotes_def split: option.splits)
    then have "fst ?sp = PUPA_OK" by (auto simp: get_spec_def split: option.splits if_splits)
    then have g: "pupa_store_get c key ver = Some (PUPA_OK, Some u, c')" using v(1) Some by simp
    obtain q where q: "u = val_ref q" "val_ok (view_of c) (mbytes c) q"
      by (rule get_ok_ref [OF wf key pos g])
    have "keeps (view_of c) (mbytes c) (mbytes d)" "msize d = msize c"
      using b visible_body by (auto simp: keeps_def same_body_def)
    then have "denotes d u bs" using ref_stays [OF q(2)] bs(2) q(1) by blast
    then show ?thesis using bs(1) Some by (simp add: result_denotes_def)
  qed
  then show ?thesis using d' by blast
qed

text \<open>\<open>st i\<close> is the state in which the \<open>i\<close>-th read of the header happens.\<close>

lemma reads_in_turn:
  assumes "\<And>i. i < 4 \<Longrightarrow> write_steps env key val (st i) (st (Suc i))" "i \<le> j" "j \<le> 4"
  shows "write_steps env key val (st i) (st j)"
  using assms(2,3)
proof (induction j)
  case (Suc j)
  then show ?case
    using assms(1) [of j] by (cases "i = Suc j") (auto intro: rtranclp_trans)
qed simp

lemma torn_lookup:
  assumes w: "writer_ok c" and key: "cstr key kb" and val: "cstr val vb"
    and r: "set_ready c kb vb" and env: "malloc_ok env"
    and st: "write_steps env key val (Begin, c) (st 0)"
      "\<And>i. i < 4 \<Longrightarrow> write_steps env key val (st i) (st (Suc i))"
    and h: "\<And>i. i < 5 \<Longrightarrow> load_hdr (snd (st i)) = Some (h i)"
    and rd: "reads_from env key val (st 3) d"
    and late: "work_map c (skey kb) = None \<Longrightarrow> published (fst (st 1)) \<or> \<not> counted (fst (st 3))"
    and key0: "cstr key0 kb0" and pos: "1 \<le> sint ver"
    and m: "m = (if published (fst (st 1))
      then (work_map c)(skey kb \<mapsto> take 3 (stored vb # versions (work_map c (skey kb))))
      else store_map c)"
  shows "\<exists>v d'. lookup_reads h d key0 ver = Some (fst (get_spec (m (skey kb0)) (sint ver)), v, d') \<and>
     result_denotes d v (snd (get_spec (m (skey kb0)) (sint ver)))"
proof -
  note turn = reads_in_turn [where st = st, OF st(2)]
  have from0: "write_steps env key val (Begin, c) (st i)" if "i \<le> 4" for i
    using st(1) turn [of 0 i] that by (auto intro: rtranclp_trans)
  have rh: "max_ver_num (h i) = W32 3"
    "PUPA_STORE_GET_ADDR (item_section (h i)) =
       W64 (item_area_at (v_keys (view_of c)) (v_item_one (view_of c) \<noteq> published (fst (st i))))"
    "sec_used (item_section (h i)) = W64 (if counted (fst (st i)) \<and> work_map c (skey kb) = None
       then v_used (view_of c) + 1 else v_used (view_of c))" if "i < 5" for i
    using reach_hdr [OF w key val r env, of "fst (st i)" "snd (st i)"] from0 [of i] h [OF that] that
    by simp_all
  show ?thesis
  proof (cases "published (fst (st 1))")
    case True
    have same: "snd (st 3) = snd (st 1)" "published (fst (st 3))"
      using published_stays [OF turn [of 1 3] True] by simp_all
    have eq: "mbytes d = mbytes (snd (st 1))" using new_store [OF same(2) rd] same(1) by simp
    obtain pc c1 where c1: "st 1 = (pc, c1)" by (cases "st 1")
    have p: "published pc" "\<not> exposed pc" using True c1 by (auto simp: published_def exposed_def)
    have "write_steps env key val (Begin, c) (pc, c1)" using from0 [of 1] c1 by simp
    note wm = write_reach_map [OF w key val r env this p(2)]
    have "same_body c1 d" using rd eq c1 same(1) wm(1)
      by (simp add: same_body_def reads_from_def store_wf_def wf_view_def)
    note lb = lookup_body [OF wm(1) this key0 pos, of "h 1"]
    have "h 3 = h 1" using h [of 1] h [of 3] same(1) by simp
    then have "lookup_reads h d key0 ver = lookup_reads (\<lambda>_. h 1) d key0 ver"
      using rh(1) by (intro lookup_reads_cong) simp_all
    then show ?thesis using lb h [of 1] c1 wm(2) m p(1) by simp
  next
    case False
    note os = old_store [OF w key val r env from0 [of 3, simplified] rd]
    note lb = lookup_body [OF os(1) headed_sel(5) key0 pos os(3)]
    have "lookup_reads h d key0 ver = lookup_reads (\<lambda>_. view_hdr (view_of c)) d key0 ver"
    proof (rule lookup_reads_cong)
      show "max_ver_num (h i) = max_ver_num (view_hdr (view_of c))" if "i < 5" for i
        using rh(1) [OF that] by (simp add: view_simps)
      show "PUPA_STORE_GET_ADDR (item_section (h 1)) = PUPA_STORE_GET_ADDR (item_section (view_hdr (view_of c)))"
        using rh(2) [of 1] False by (simp add: view_simps)
      show "sec_used (item_section (h 3)) = sec_used (item_section (view_hdr (view_of c)))"
        using rh(3) [of 3] late False by (auto simp: view_simps)
    qed
    then show ?thesis using lb os(2) m False by simp
  qed
qed

subsection \<open>The old index with the new count\<close>

text \<open>A reader of any state of a write finds the bytes of the old store where they were.\<close>

lemma late_lookup:
  assumes w: "writer_ok c" and key: "cstr key kb" and val: "cstr val vb"
    and r: "set_ready c kb vb" and env: "malloc_ok env" and new: "work_map c (skey kb) = None"
    and st: "write_steps env key val (Begin, c) (st 0)"
      "\<And>i. i < 4 \<Longrightarrow> write_steps env key val (st i) (st (Suc i))"
    and h: "\<And>i. i < 5 \<Longrightarrow> load_hdr (snd (st i)) = Some (h i)"
    and rd: "reads_from env key val (st 3) d"
    and late: "\<not> published (fst (st 1))" "counted (fst (st 3))"
    and one: "v_used (view_of c) = 1"
    and slot: "key_len (rd_item (mbytes c) (i_base (view_of c) + 64)) = 0"
    and key0: "cstr key0 kb0" and ver: "sint ver \<le> 3"
  shows "\<exists>d'. lookup_reads h d key0 ver = Some (PUPA_NOT_FOUND, None, d')"
proof -
  let ?s = "view_of c" and ?d = "d\<lparr>store_items := W64 (i_base (view_of c))\<rparr>"
  note turn = reads_in_turn [where st = st, OF st(2)]
  have from0: "write_steps env key val (Begin, c) (st i)" if "i \<le> 4" for i
    using st(1) turn [of 0 i] that by (auto intro: rtranclp_trans)
  have rh: "max_ver_num (h i) = W32 3"
    "PUPA_STORE_GET_ADDR (item_section (h i)) =
       W64 (item_area_at (v_keys ?s) (v_item_one ?s \<noteq> published (fst (st i))))"
    "sec_used (item_section (h i)) = W64 (if counted (fst (st i)) \<and> work_map c (skey kb) = None
       then v_used ?s + 1 else v_used ?s)" if "i < 5" for i
    using reach_hdr [OF w key val r env, of "fst (st i)" "snd (st i)"] from0 [of i] h [OF that] that
    by simp_all
  note os = old_bytes [OF w key val r env from0 [of 3, simplified] rd]
  have wc: "wf_view ?s c" using writer_ok_wf [OF w] by (simp add: store_wf_def)
  have room: "64 * (v_used ?s + 1) \<le> 16 * v_keys ?s + 48"
    using r new by (simp add: set_ready_def has_room_def)
  have sz: "i_base ?s + 76 \<le> msize ?d" "msize ?d < 2 ^ 31"
    using os(2) wf_viewD(2,3) [OF wc] room one by (auto simp: areas)
  have "rd32 (mbytes ?d) (i_base ?s + 72) = rd32 (mbytes c) (i_base ?s + 72)"
    unfolding rd32_def
    by (intro arg_cong [where f = word_of_nat] arg_cong [where f = le_val] bytes_at_cong)
      (use os(3) room one in \<open>simp add: visible_def\<close>)
  then have "rd32 (mbytes ?d) (i_base ?s + 72) = 0" using slot by (simp add: rd_item_def add.commute)
  note es = empty_slot_search [OF sz this key0]
  have stride: "item_stride (h 2) = 64"
    using rh(1) [of 2] by (simp add: item_stride_def item_len_def sizeofs scast_32_64 ucast_64_32 addr_simps)
      (simp add: W64_numeral)
  have "sint (W32 3) = 3" by (simp add: sint_W32)
  then show ?thesis
    using es rh(1) [of 0] rh(2) [of 1] rh(3) [of 3] late new one ver stride
    by (simp add: lookup_reads_def Let_def numeral_2_eq_2)
qed

end
