(* ===== verification/Cli.thy ===== *)
theory Cli
  imports Edges
begin

text \<open>
  The command line of \<open>pupa_tool.c\<close>: \<open>parse_cmd\<close>, \<open>usage\<close> and \<open>main\<close>. The words are strings
  without the zero that ends them; the first is the name of the program. \<open>getopt\<close> is that of
  the C library: with \<open>permute\<close> it passes over words that are not options, as glibc does,
  without it stops at the first, as POSIX has it. Its own messages on \<open>stderr\<close> are left out.
\<close>

subsection \<open>The C library\<close>

definition is_space :: "char \<Rightarrow> bool" where
  "is_space ch \<longleftrightarrow> of_char ch \<in> {9, 10, 11, 12, 13, 32 :: nat}"

text \<open>\<open>atoi\<close> is \<open>(int) strtol(s, NULL, 10)\<close>.\<close>

definition atoi :: "string \<Rightarrow> c_int" where
  "atoi s =
     (let s = dropWhile is_space s;
          neg = (s \<noteq> [] \<and> hd s = CHR ''-'');
          s = (if s \<noteq> [] \<and> hd s \<in> {CHR ''-'', CHR ''+''} then tl s else s);
          n = int (read_nat (takeWhile is_digit s))
      in word_of_int (max (- (2 ^ 63)) (min (2 ^ 63 - 1) (if neg then - n else n))))"

text \<open>
  Where \<open>getopt\<close> is: the rest of the word it is in, and the words behind that. It returns the
  option and its argument; \<open>None\<close> is the end of the options.
\<close>

type_synonym opt_state = "string \<times> string list"

fun next_word :: "bool \<Rightarrow> string list \<Rightarrow> opt_state option" where
  "next_word permute [] = None"
| "next_word permute (a # rest) =
     (if a = ''--'' then None
      else if 2 \<le> length a \<and> hd a = CHR ''-'' then Some (tl a, rest)
      else if permute then next_word permute rest
      else None)"

definition getopt :: "bool \<Rightarrow> string \<Rightarrow> opt_state \<Rightarrow> ((char \<times> string) \<times> opt_state) option" where
  "getopt permute opts st =
     (case if fst st = [] then next_word permute (snd st) else Some st of
        None \<Rightarrow> None
      | Some ([], rest) \<Rightarrow> None
      | Some (ch # word, rest) \<Rightarrow>
          if ch \<notin> set opts then Some ((CHR ''?'', []), (word, rest))
          else if word \<noteq> [] then Some ((ch, word), ([], rest))
          else
            case rest of
              [] \<Rightarrow> Some ((CHR ''?'', []), ([], []))
            | a # rest \<Rightarrow> Some ((ch, a), ([], rest)))"

fun opt_size :: "opt_state \<Rightarrow> nat" where
  "opt_size (word, rest) = length word + sum_list (map (\<lambda>a. length a + 1) rest)"

lemma next_word_size: "next_word permute rest = Some st \<Longrightarrow> opt_size st < opt_size ([], rest)"
  by (induction permute rest rule: next_word.induct) (auto split: if_splits)

lemma getopt_size:
  assumes "getopt permute opts st = Some (x, st')"
  shows "opt_size st' < opt_size st"
proof -
  obtain ch word rest where w: "(if fst st = [] then next_word permute (snd st) else Some st) =
      Some (ch # word, rest)" "opt_size st' < opt_size (ch # word, rest)"
    using assms by (auto simp: getopt_def split: option.splits list.splits if_splits)
  then have "opt_size (ch # word, rest) \<le> opt_size st"
    using next_word_size [of permute "snd st" "(ch # word, rest)"]
    by (cases st) (auto split: if_splits)
  then show ?thesis using w(2) by simp
qed

subsection \<open>The command line\<close>

definition DEFAULT_CACHE_FILE :: string where
  "DEFAULT_CACHE_FILE = ''./pupa.store''"

definition DEFAULT_KEY_COUNT :: c_int where
  "DEFAULT_KEY_COUNT = 1000"

text \<open>The variables of \<open>main\<close> that \<open>parse_cmd\<close> sets; \<open>key\<close> and \<open>value\<close> have no value at first.\<close>

record cli =
  cli_cmd :: string
  cli_key :: "pupa_str option"
  cli_value :: "pupa_str option"
  cli_filename :: string
  cli_key_count :: c_int
  cli_kv_ver :: c_int

definition cli_0 :: cli where
  "cli_0 = \<lparr>cli_cmd = [], cli_key = None, cli_value = None, cli_filename = DEFAULT_CACHE_FILE,
     cli_key_count = DEFAULT_KEY_COUNT, cli_kv_ver = 1\<rparr>"

text \<open>\<open>s[0] == '-'\<close>; \<open>s->data = arg, s->len = strlen(arg)\<close>\<close>

definition dashed :: "string \<Rightarrow> bool" where
  "dashed s \<longleftrightarrow> s \<noteq> [] \<and> hd s = CHR ''-''"

definition arg_str :: "string \<Rightarrow> pupa_str" where
  "arg_str s = mk_str (ascii s)"

text \<open>
  The command and its operands, and how many operands there are. \<open>None\<close>: \<open>parse_cmd\<close> returns -1.
\<close>

definition parse_operands :: "string list \<Rightarrow> cli \<Rightarrow> (nat \<times> cli) option" where
  "parse_operands argv a =
     (let command = argv ! 1; unparsed_arg_num = length argv - 2; a' = a\<lparr>cli_cmd := command\<rparr> in
      if command = ''set'' then
        if unparsed_arg_num < 2 then None
        else if dashed (argv ! 2) \<or> dashed (argv ! 3) then None
        else Some (2, a'\<lparr>cli_key := Some (arg_str (argv ! 2)), cli_value := Some (arg_str (argv ! 3))\<rparr>)
      else if command = ''get'' then
        if unparsed_arg_num < 1 then None
        else if dashed (argv ! 2) then None
        else Some (1, a'\<lparr>cli_key := Some (arg_str (argv ! 2))\<rparr>)
      else if command = ''del'' then
        if unparsed_arg_num < 1 then None
        else if dashed (argv ! 2) then None
        else Some (1, a'\<lparr>cli_key := Some (arg_str (argv ! 2))\<rparr>)
      else if command = ''stat'' then Some (0, a')
      else None)"

definition option_error :: "string \<Rightarrow> byte list" where
  "option_error opt = ascii (''Option '' @ quot opt @ '' must be an positive integer.'' @ nl @ nl)"

text \<open>The loop over the options; \<open>Inl\<close> is the return of -1, with what was printed.\<close>

function parse_options :: "bool \<Rightarrow> opt_state \<Rightarrow> cli \<Rightarrow> byte list + cli" where
  "parse_options permute st a =
     (case getopt permute ''fvn'' st of
        None \<Rightarrow> Inr a
      | Some ((c, optarg), st) \<Rightarrow>
          if c = CHR ''n'' then
            if atoi optarg = -1 then Inl (option_error ''n'')
            else parse_options permute st (a\<lparr>cli_key_count := atoi optarg\<rparr>)
          else if c = CHR ''v'' then
            if atoi optarg = -1 then Inl (option_error ''v'')
            else parse_options permute st (a\<lparr>cli_kv_ver := atoi optarg\<rparr>)
          else if c = CHR ''f'' then parse_options permute st (a\<lparr>cli_filename := optarg\<rparr>)
          else parse_options permute st a)"
  by pat_completeness auto
termination
  by (relation "measure (\<lambda>(_, st, _). opt_size st)") (auto dest: getopt_size)

declare parse_options.simps [simp del]

definition parse_cmd :: "bool \<Rightarrow> string list \<Rightarrow> byte list + cli" where
  "parse_cmd permute argv =
     (if length argv < 2 then Inl []
      else
        case parse_operands argv cli_0 of
          None \<Rightarrow> Inl []
        | Some (cmd_arg_num, a) \<Rightarrow> parse_options permute ([], drop (cmd_arg_num + 2) argv) a)"

subsection \<open>usage and main\<close>

definition usage :: "string \<Rightarrow> byte list" where
  "usage prog =
     ascii (concat (map (\<lambda>l. l @ nl)
      [''About: PUPA Debug Tool'', '''',
       ''Usage: '' @ prog @ '' [option] command'', '''',
       ''Commands:'',
       ''    set     Set key to the string value.'',
       ''            For example: set key value'',
       ''    get     Get the value of the key.'',
       ''            For example: get key'',
       ''                       : get key -v 3'',
       ''    del     Delete the specified key.'',
       ''            For example: del key'',
       ''    stat    Statistics and Information about the pupa store.'', '''',
       ''Options:'',
       ''    -f      Specify the store file of the PUPA. If not specified, '',
       ''            pupa.store file will be used in the current directory.'',
       ''    -v      Specify the key-value version. If not specified, '',
       ''            the latest one returned. 0 for all versions.'',
       ''    -n      Specify the number of the key. If not specified,'',
       ''            default is 1000.'']))"

definition show_int :: "int \<Rightarrow> string" where
  "show_int i = (if i < 0 then ''-'' @ show_nat (nat (- i)) else show_nat (nat i))"

text \<open>What a run of the tool leaves: its status, its output on both streams, the files.\<close>

record run =
  status :: int
  stdout :: "byte list"
  stderr :: "byte list"
  files :: disk

definition print_usage :: "string list \<Rightarrow> byte list \<Rightarrow> disk \<Rightarrow> run option" where
  "print_usage argv out d =
     (case argv of
        [] \<Rightarrow> None
      | prog # _ \<Rightarrow> Some \<lparr>status = 0, stdout = out, stderr = usage prog, files = d\<rparr>)"

text \<open>The end of \<open>main\<close>.\<close>

definition report :: "int \<times> byte list \<times> disk \<Rightarrow> run" where
  "report r =
     (case r of (ret, out, d) \<Rightarrow>
        if ret \<noteq> PUPA_OK then
          \<lparr>status = ret, stdout = out @ ascii (''Error: '' @ show_int ret @ nl), stderr = [], files = d\<rparr>
        else \<lparr>status = 0, stdout = out, stderr = [], files = d\<rparr>)"

definition tool_main ::
  "os_env \<Rightarrow> pupa_store_hdr \<Rightarrow> bool \<Rightarrow> disk \<Rightarrow> string list \<Rightarrow> run option" where
  "tool_main env junk permute d argv =
     (case parse_cmd permute argv of
        Inl out \<Rightarrow> print_usage argv out d
      | Inr a \<Rightarrow>
          if cli_cmd a = ''set'' then
            do {
              key \<leftarrow> cli_key a;
              value \<leftarrow> cli_value a;
              r \<leftarrow> pt_set env junk d (cli_filename a) (cli_key_count a) key value;
              Some (report r)
            }
          else if cli_cmd a = ''get'' then
            do {
              key \<leftarrow> cli_key a;
              r \<leftarrow> pt_get env junk d (cli_filename a) key (cli_kv_ver a);
              Some (report r)
            }
          else if cli_cmd a = ''del'' then
            do {
              key \<leftarrow> cli_key a;
              r \<leftarrow> pt_del env junk d (cli_filename a) key;
              Some (report r)
            }
          else if cli_cmd a = ''stat'' then
            do { r \<leftarrow> pt_stat env junk d (cli_filename a); Some (report r) }
          else print_usage argv [] d)"

subsection \<open>Parsing well-formed command lines\<close>

lemma getopt_option [simp]:
  "ch \<in> set opts \<Longrightarrow> ch \<noteq> CHR ''-'' \<Longrightarrow>
     getopt permute opts ([], [CHR ''-'', ch] # x # rest) = Some ((ch, x), ([], rest))"
  by (simp add: getopt_def)

lemma parse_options_end [simp]: "parse_options permute ([], []) a = Inr a"
  by (subst parse_options.simps) (simp add: getopt_def)

lemma parse_options_step:
  "parse_options permute ([], ''-f'' # x # rest) a = parse_options permute ([], rest) (a\<lparr>cli_filename := x\<rparr>)"
  "parse_options permute ([], ''-n'' # x # rest) a =
     (if atoi x = -1 then Inl (option_error ''n'')
      else parse_options permute ([], rest) (a\<lparr>cli_key_count := atoi x\<rparr>))"
  "parse_options permute ([], ''-v'' # x # rest) a =
     (if atoi x = -1 then Inl (option_error ''v'')
      else parse_options permute ([], rest) (a\<lparr>cli_kv_ver := atoi x\<rparr>))"
  by (subst parse_options.simps, simp)+

lemma show_numbers:
  "show_nat 0 = ''0''" "show_nat 1 = ''1''" "show_nat (Suc 0) = ''1''" "show_nat 2 = ''2''" "show_nat 4 = ''4''"
  "show_nat 16 = ''16''" "show_nat 1000 = ''1000''"
  by code_simp+

lemma show_nat_head: "\<exists>ch s. show_nat n = ch # s \<and> is_digit ch"
  using show_nat_digits [of n] by (cases "show_nat n") auto

lemma atoi_show_nat:
  assumes "n < 2 ^ 63"
  shows "atoi (show_nat n) = W32 n"
proof -
  obtain ch s where cs: "show_nat n = ch # s" "is_digit ch" using show_nat_head by blast
  have ns: "\<not> is_space ch" using cs(2) by (auto simp: is_digit_def is_space_def)
  have d: "ch \<noteq> CHR ''-''" "ch \<noteq> CHR ''+''" using cs(2) by (auto simp: is_digit_def)
  have "takeWhile is_digit (ch # s) = ch # s"
    using show_nat_digits(2) [of n] cs(1) by (simp add: takeWhile_eq_all_conv)
  then have "atoi (show_nat n) = word_of_int (max (- (2 ^ 63)) (min (2 ^ 63 - 1) (int n)))"
    using ns d cs(1) read_show_nat [of n] by (simp add: atoi_def)
  also have "max (- (2 ^ 63)) (min (2 ^ 63 - 1) (int n)) = int n" using assms by simp
  finally show ?thesis by (simp add: W32_def)
qed

lemma W32_not_minus_one: "n < 2 ^ 31 \<Longrightarrow> W32 n \<noteq> -1"
  using sint_W32 [of n] by (auto dest: arg_cong [of _ _ sint])

text \<open>The two commands with their options, as runs of \<open>pt_set\<close> and \<open>pt_get\<close>.\<close>

definition plain_arg :: "string \<Rightarrow> bool" where
  "plain_arg s \<longleftrightarrow> \<not> dashed s \<and> CHR 0x00 \<notin> set s"

lemma ascii_no_zero: "CHR 0x00 \<notin> set s \<Longrightarrow> 0 \<notin> set (ascii s)"
proof
  assume "CHR 0x00 \<notin> set s" "0 \<in> set (ascii s)"
  then obtain ch where ch: "ch \<in> set s" "(of_char ch :: byte) = 0" by (auto simp: ascii_def)
  have "(of_char ch :: nat) = unat (of_char ch :: byte)"
    by (simp add: of_char_def unsigned_of_nat take_bit_eq_mod)
  then have "(of_char ch :: nat) = of_char (CHR 0x00)" using ch(2) by simp
  then have "ch = CHR 0x00" by (simp only: of_char_eq_iff)
  then show False using ch(1) \<open>CHR 0x00 \<notin> set s\<close> by simp
qed

lemma c_text_ascii: "plain_arg s \<Longrightarrow> c_text (ascii s) = ascii s"
  using ascii_no_zero [of s] by (auto simp: plain_arg_def c_text_def)

lemma main_set:
  assumes "\<not> dashed k" "\<not> dashed v" "n < 2 ^ 31"
  shows "tool_main env junk permute d [prog, ''set'', k, v, ''-n'', show_nat n, ''-f'', path] =
     do {
       r \<leftarrow> pt_set env junk d path (W32 n) (arg_str k) (arg_str v);
       Some (report r)
     }"
  using assms W32_not_minus_one [of n]
  by (simp add: tool_main_def parse_cmd_def parse_operands_def parse_options_step atoi_show_nat)

lemma main_get:
  assumes "\<not> dashed k" "n < 2 ^ 31"
  shows "tool_main env junk permute d [prog, ''get'', k, ''-v'', show_nat n, ''-f'', path] =
     do { r \<leftarrow> pt_get env junk d path (arg_str k) (W32 n); Some (report r) }"
    "tool_main env junk permute d [prog, ''get'', k, ''-f'', path] =
     do { r \<leftarrow> pt_get env junk d path (arg_str k) 1; Some (report r) }"
  using assms W32_not_minus_one [of n]
  by (simp_all add: tool_main_def parse_cmd_def parse_operands_def parse_options_step atoi_show_nat
      cli_0_def)

subsection \<open>A file for no keys\<close>

lemma opened_no_keys:
  assumes o: "opened c f path True" and ok: "file_ok f" and n: "v_keys (file_view f) = 0"
    and key: "cstr key kb"
  shows "\<exists>c'. pupa_set env (c, d) key val = Some (PUPA_OVERFLOW, c', d(path \<mapsto> f))"
proof -
  note wo = opened_writer [OF o ok] and w = opened_wf [OF o ok]
  let ?s = "view_of c" and ?b = "unat (store_items c)"
  have wr: "writer ?s c ?b" using wo by (simp add: writer_ok_def)
  have u: "v_used ?s = 0" "v_keys ?s = 0"
    using view_okD(3) [OF writerD(5) [OF wr]] n w(3) by simp_all
  let ?c' = "start_ctx ?s c ?b"
  have "pupa_store_set env c key val = Some (PUPA_OVERFLOW, ?c')"
    by (rule set_full [OF wr key]) (simp_all add: u entries_def)
  moreover have "snap_bytes ?s ?b (mbytes c) = mbytes c"
    by (rule ext) (auto simp: snap_bytes_def u put_bytes_def)
  then have "ctx_file ?c' = f"
    using o by (intro disk_file.equality) (simp_all add: ctx_file_def opened_def maps_file_def start_ctx_def)
  then have "write_back ?c' d = d(path \<mapsto> f)"
    using o by (simp add: write_back_def start_ctx_def opened_def maps_file_def)
  ultimately show ?thesis by (simp add: pupa_set_def)
qed

lemma pt_set_no_keys:
  assumes f: "d path = Some f" "file_ok f" "v_keys (file_view f) = 0" and env: "calls_ok env"
    and key: "cstr key kb"
  shows "pt_set env junk d path n key val = Some (PUPA_OVERFLOW, set_failed, d)"
proof -
  have c0: "ctx_init pupa_ctx_0 = 0" by (simp add: pupa_ctx_0_def)
  obtain c where c: "pupa_init env junk d pupa_ctx_0 path n PUPA_OP_TYPE_RW = Some (PUPA_OK, c, d)"
    "opened c f path True"
    using init_existing [where d = d and path = path and f = f and env = env and c = pupa_ctx_0
        and op = PUPA_OP_TYPE_RW and junk = junk and n = n] f env c0 by auto
  have "d(path \<mapsto> f) = d" using f(1) by (simp add: fun_upd_idem)
  then show ?thesis
    using opened_no_keys [OF c(2) f(2,3) key, of env d val] c(1)
    by (auto simp: pt_set_def return_codes)
qed

lemma pt_set_fresh_no_keys:
  assumes new: "empty_path d path" and env: "calls_ok env" and key: "cstr key kb"
  shows "\<exists>f. pt_set env junk d path 0 key val = Some (PUPA_OVERFLOW, set_failed, d(path \<mapsto> f)) \<and>
     file_ok f \<and> v_keys (file_view f) = 0"
proof -
  have n: "file_len 0 < 2 ^ 31" and c0: "ctx_init pupa_ctx_0 = 0"
    by (simp_all add: file_len_def pupa_ctx_0_def)
  obtain c m where c: "pupa_init env junk d pupa_ctx_0 path (W32 0) PUPA_OP_TYPE_RW =
      Some (PUPA_OK, c, d(path \<mapsto> fresh_file 0 m))" "opened c (fresh_file 0 m) path True"
    using init_fresh [OF new n env c0] by blast
  note ok = fresh_file_ok [OF n, of m]
  have z: "v_keys (file_view (fresh_file 0 m)) = 0" by (simp add: ok(2)) (simp add: fresh_view_def)
  show ?thesis
    using opened_no_keys [OF c(2) ok(1) z key, of env "d(path \<mapsto> fresh_file 0 m)" val] c(1) ok(1) z
    by (intro exI [of _ "fresh_file 0 m"]) (auto simp: pt_set_def return_codes W32_zero)
qed

end
