(* ===== verification/Bindings.thy ===== *)
theory Bindings
  imports Edges
begin

text \<open>
  The C bindings under \<open>src/sdk\<close>: the functions of the Lua module (\<open>lua/pupa_lua.c\<close>), the
  native methods of the Java class (\<open>java/pupa_java.c\<close>) and the functions of the PHP extension
  (\<open>php/pupa_php.c\<close>). They take their arguments from the host language, call \<open>pupa.c\<close> and
  return a value of the host language.

  What the host's own interface does with the arguments is a parameter: a Lua function gets the
  results of its calls of \<open>luaL_checkstring\<close> and \<open>luaL_checknumber\<close>, which may be an error; a
  Java method those of \<open>GetStringUTFChars\<close>, which may be \<open>NULL\<close>; a PHP function that of
  \<open>zend_parse_parameters\<close>, which may be \<open>FAILURE\<close>. Strings are the bytes without the zero the
  host puts behind them. Those of Lua and PHP may contain zeros themselves; \<open>GetStringUTFChars\<close>
  gives modified UTF-8, where no byte is zero (U+0000 is the two bytes C0 80): \<open>utf_chars\<close>. A returned string is what is
  handed to the function of the host that makes a value of it, \<open>None\<close> a fault, as everywhere.
\<close>

subsection \<open>Strings of the host\<close>

text \<open>\<open>s.data = p; s.len = strlen(s.data)\<close>, for the bytes at \<open>p\<close>\<close>

definition strlen_str :: "byte list \<Rightarrow> pupa_str" where
  "strlen_str bs = \<lparr>str_len = W32 (length (c_text bs)), str_data = Ext (bs @ [0])\<rparr>"

text \<open>The string a pointer leads to: the bytes up to the first zero.\<close>

definition c_string :: "'a cmem_scheme \<Rightarrow> cptr \<Rightarrow> byte list option" where
  "c_string c p =
     (let bs = (case p of Ext bs \<Rightarrow> bs
                | Off a \<Rightarrow> bytes_at (mbytes c) (unat a) (msize c - unat a))
      in if 0 \<in> set bs then Some (takeWhile (\<lambda>b. b \<noteq> 0) bs) else None)"

definition path_string :: "byte list \<Rightarrow> string" where
  "path_string bs = map (\<lambda>b. char_of (unat b)) (c_text bs)"

text \<open>The state of the process: \<open>pupa.c\<close>'s context, and the files.\<close>

type_synonym host_state = "pupa_ctx \<times> disk"

subsection \<open>Lua\<close>

text \<open>Errors leave the function through \<open>luaL_error\<close>; \<open>Nil\<close> and \<open>Str\<close> are the pushed values.\<close>

datatype lua_value = Lua_nil | Lua_str "byte list"

datatype lua_result = Lua_error "byte list" | Lua_return "lua_value list"

text \<open>A checked argument: the message of the error, or the value.\<close>

type_synonym 'a checked = "byte list + 'a"

definition lua_init ::
  "os_env \<Rightarrow> pupa_store_hdr \<Rightarrow> byte list checked \<Rightarrow> c_int checked \<Rightarrow> c_int checked \<Rightarrow> host_state \<Rightarrow>
     (lua_result \<times> host_state) option" where
  "lua_init env junk arg1 arg2 arg3 st =
     (case arg1 of
        Inl e \<Rightarrow> Some (Lua_error e, st)
      | Inr filename \<Rightarrow>
     (case arg2 of
        Inl e \<Rightarrow> Some (Lua_error e, st)
      | Inr key_count \<Rightarrow>
     (case arg3 of
        Inl e \<Rightarrow> Some (Lua_error e, st)
      | Inr op_type \<Rightarrow>
          do {
            (ret, c, d) \<leftarrow>
              pupa_init env junk (snd st) (fst st) (path_string filename) key_count (sint op_type);
            if ret \<noteq> PUPA_OK then Some (Lua_error (ascii ''Failed to initialize pupa.''), c, d)
            else Some (Lua_return [Lua_nil], c, d)
          })))"

definition lua_fini :: "os_env \<Rightarrow> host_state \<Rightarrow> (lua_result \<times> host_state) option" where
  "lua_fini env st =
     (let (ret, c) = pupa_fini env (fst st) in
      if ret \<noteq> PUPA_OK then Some (Lua_error (ascii ''Failed to end the pupa.''), c, snd st)
      else Some (Lua_return [Lua_nil], c, snd st))"

definition lua_get :: "byte list checked \<Rightarrow> host_state \<Rightarrow> (lua_result \<times> host_state) option" where
  "lua_get arg1 st =
     (case arg1 of
        Inl e \<Rightarrow> Some (Lua_error e, st)
      | Inr k \<Rightarrow>
          do {
            (ret, v, c) \<leftarrow> pupa_get (fst st) (strlen_str k);
            if ret \<noteq> PUPA_OK then
              Some (Lua_error (ascii ''Failed to get '' @ c_text k @ ascii ''.''), c, snd st)
            else
              do {
                v \<leftarrow> v;
                bs \<leftarrow> c_string c (str_data v);
                Some (Lua_return [Lua_str bs, Lua_nil], c, snd st)
              }
          })"

definition lua_set ::
  "os_env \<Rightarrow> byte list checked \<Rightarrow> byte list checked \<Rightarrow> host_state \<Rightarrow> (lua_result \<times> host_state) option"
  where
  "lua_set env arg1 arg2 st =
     (case arg1 of
        Inl e \<Rightarrow> Some (Lua_error e, st)
      | Inr k \<Rightarrow>
     (case arg2 of
        Inl e \<Rightarrow> Some (Lua_error e, st)
      | Inr v \<Rightarrow>
          do {
            (ret, st) \<leftarrow> pupa_set env st (strlen_str k) (strlen_str v);
            if ret \<noteq> PUPA_OK then Some (Lua_error (ascii ''Failed to perform pupa_set.''), st)
            else Some (Lua_return [Lua_nil], st)
          }))"

definition lua_delete ::
  "os_env \<Rightarrow> byte list checked \<Rightarrow> host_state \<Rightarrow> (lua_result \<times> host_state) option" where
  "lua_delete env arg1 st =
     (case arg1 of
        Inl e \<Rightarrow> Some (Lua_error e, st)
      | Inr k \<Rightarrow>
          do {
            (ret, st) \<leftarrow> pupa_del env st (strlen_str k);
            if ret \<noteq> PUPA_OK then
              Some (Lua_error (ascii ''Failed to delete '' @ c_text k @ ascii ''.''), st)
            else Some (Lua_return [Lua_nil], st)
          })"

definition lua_stats :: "host_state \<Rightarrow> (lua_result \<times> host_state) option" where
  "lua_stats st =
     do {
       (ret, s) \<leftarrow> pupa_stats (fst st);
       if ret \<noteq> PUPA_OK then Some (Lua_error (ascii ''Failed to perform pupa_stats.''), st)
       else Some (Lua_return [Lua_str (c_text (ascii s)), Lua_nil], st)
     }"

text \<open>
  \<open>pupa_lua\<close>, the table of the module, with the checks each function makes: \<open>str i\<close> and
  \<open>num i\<close> are what \<open>luaL_checkstring(L, i)\<close> and \<open>(int) luaL_checknumber(L, i)\<close> give.
\<close>

definition pupa_lua ::
  "os_env \<Rightarrow> pupa_store_hdr \<Rightarrow> (nat \<Rightarrow> byte list checked) \<Rightarrow> (nat \<Rightarrow> c_int checked) \<Rightarrow>
     (string \<times> (host_state \<Rightarrow> (lua_result \<times> host_state) option)) list" where
  "pupa_lua env junk str num =
     [(''get'', lua_get (str 1)),
      (''set'', lua_set env (str 1) (str 2)),
      (''delete'', lua_delete env (str 1)),
      (''stats'', lua_stats),
      (''init'', lua_init env junk (str 1) (num 2) (num 3)),
      (''fini'', lua_fini env)]"

subsection \<open>Java\<close>

definition JAVA_TRUE :: int where "JAVA_TRUE = 1"
definition JAVA_FALSE :: int where "JAVA_FALSE = 0"

text \<open>What \<open>GetStringUTFChars\<close> promises of the bytes it returns.\<close>

definition utf_chars :: "byte list \<Rightarrow> bool" where
  "utf_chars bs \<longleftrightarrow> 0 \<notin> set bs"

text \<open>
  A \<open>NULL\<close> of \<open>GetStringUTFChars\<close> (no memory) is passed to \<open>strlen\<close>, a fault, or to
  \<open>pupa_init\<close>, which looks at it if the context is not open.
\<close>

definition java_init ::
  "os_env \<Rightarrow> pupa_store_hdr \<Rightarrow> byte list option \<Rightarrow> c_int \<Rightarrow> c_int \<Rightarrow> host_state \<Rightarrow>
     (int \<times> host_state) option" where
  "java_init env junk str key_count op_type st =
     (case str of
        None \<Rightarrow> if ctx_init (fst st) \<noteq> 0 then Some (JAVA_FALSE, st) else None
      | Some path \<Rightarrow>
          do {
            (ret, st) \<leftarrow>
              pupa_init env junk (snd st) (fst st) (path_string path) key_count (sint op_type);
            if ret \<noteq> PUPA_OK then Some (JAVA_FALSE, st) else Some (JAVA_TRUE, st)
          })"

definition java_fini :: "os_env \<Rightarrow> host_state \<Rightarrow> (int \<times> host_state) option" where
  "java_fini env st =
     (let (ret, c) = pupa_fini env (fst st) in
      if ret \<noteq> PUPA_OK then Some (JAVA_FALSE, c, snd st) else Some (JAVA_TRUE, c, snd st))"

definition java_set ::
  "os_env \<Rightarrow> byte list option \<Rightarrow> byte list option \<Rightarrow> host_state \<Rightarrow> (int \<times> host_state) option" where
  "java_set env key_str value_str st =
     do {
       k \<leftarrow> key_str;
       v \<leftarrow> value_str;
       (ret, st) \<leftarrow> pupa_set env st (strlen_str k) (strlen_str v);
       if ret \<noteq> PUPA_OK then Some (JAVA_FALSE, st) else Some (JAVA_TRUE, st)
     }"

definition java_delete :: "os_env \<Rightarrow> byte list option \<Rightarrow> host_state \<Rightarrow> (int \<times> host_state) option" where
  "java_delete env key_str st =
     do {
       k \<leftarrow> key_str;
       (ret, st) \<leftarrow> pupa_del env st (strlen_str k);
       if ret \<noteq> PUPA_OK then Some (JAVA_FALSE, st) else Some (JAVA_TRUE, st)
     }"

definition java_get :: "byte list option \<Rightarrow> host_state \<Rightarrow> (byte list \<times> host_state) option" where
  "java_get key_str st =
     do {
       k \<leftarrow> key_str;
       (ret, v, c) \<leftarrow> pupa_get (fst st) (strlen_str k);
       if ret \<noteq> PUPA_OK then Some ([], c, snd st)
       else do { v \<leftarrow> v; bs \<leftarrow> c_string c (str_data v); Some (bs, c, snd st) }
     }"

definition java_stats :: "host_state \<Rightarrow> (byte list \<times> host_state) option" where
  "java_stats st =
     do {
       (ret, s) \<leftarrow> pupa_stats (fst st);
       if ret \<noteq> PUPA_OK then Some ([], st) else Some (c_text (ascii s), st)
     }"

subsection \<open>PHP\<close>

datatype php_value = Php_null | Php_bool bool | Php_string "byte list"

text \<open>
  \<open>PHP_MINIT_FUNCTION\<close> registers two constants. The lengths come from the arguments, not from
  \<open>strlen\<close>; they and the numbers are narrowed to \<open>int\<close>.
\<close>

definition php_constants :: "(string \<times> int) list" where
  "php_constants = [(''PUPA_RO'', 1), (''PUPA_RW'', 2)]"

definition php_init ::
  "os_env \<Rightarrow> pupa_store_hdr \<Rightarrow> (byte list \<times> 64 word \<times> 64 word) option \<Rightarrow> host_state \<Rightarrow>
     (php_value \<times> host_state) option" where
  "php_init env junk args st =
     (case args of
        None \<Rightarrow> Some (Php_bool False, st)
      | Some (fileName, key_count, op_type) \<Rightarrow>
          do {
            (ret, c, d) \<leftarrow> pupa_init env junk (snd st) (fst st) (path_string fileName)
                             (ucast key_count) (sint (ucast op_type :: c_int));
            if ret \<noteq> PUPA_OK then Some (Php_bool False, c, d) else Some (Php_bool True, c, d)
          })"

definition php_fini :: "os_env \<Rightarrow> host_state \<Rightarrow> (php_value \<times> host_state) option" where
  "php_fini env st =
     (let (ret, c) = pupa_fini env (fst st) in
      if ret \<noteq> PUPA_OK then Some (Php_bool False, c, snd st) else Some (Php_bool True, c, snd st))"

definition php_get :: "byte list option \<Rightarrow> host_state \<Rightarrow> (php_value \<times> host_state) option" where
  "php_get args st =
     (case args of
        None \<Rightarrow> Some (Php_null, st)
      | Some p_key \<Rightarrow>
          do {
            (ret, v, c) \<leftarrow> pupa_get (fst st) (mk_str p_key);
            if ret \<noteq> PUPA_OK then Some (Php_null, c, snd st)
            else
              do { v \<leftarrow> v; bs \<leftarrow> c_string c (str_data v); Some (Php_string bs, c, snd st) }
          })"

definition php_set ::
  "os_env \<Rightarrow> (byte list \<times> byte list) option \<Rightarrow> host_state \<Rightarrow> (php_value \<times> host_state) option" where
  "php_set env args st =
     (case args of
        None \<Rightarrow> Some (Php_null, st)
      | Some (p_key, p_val) \<Rightarrow>
          do {
            (ret, st) \<leftarrow> pupa_set env st (mk_str p_key) (mk_str p_val);
            if ret \<noteq> PUPA_OK then Some (Php_bool False, st) else Some (Php_bool True, st)
          })"

definition php_del ::
  "os_env \<Rightarrow> byte list option \<Rightarrow> host_state \<Rightarrow> (php_value \<times> host_state) option" where
  "php_del env args st =
     (case args of
        None \<Rightarrow> Some (Php_null, st)
      | Some p_key \<Rightarrow>
          do {
            (ret, st) \<leftarrow> pupa_del env st (mk_str p_key);
            if ret \<noteq> PUPA_OK then Some (Php_bool False, st) else Some (Php_bool True, st)
          })"

definition php_stats :: "host_state \<Rightarrow> (php_value \<times> host_state) option" where
  "php_stats st =
     do {
       (ret, s) \<leftarrow> pupa_stats (fst st);
       if ret \<noteq> PUPA_OK then Some (Php_null, st) else Some (Php_string (c_text (ascii s)), st)
     }"

text \<open>
  \<open>pupa_functions\<close>, the table of the extension: \<open>s\<close>, \<open>ss\<close> and \<open>sll\<close> are what
  \<open>zend_parse_parameters\<close> gives for these formats.
\<close>

definition pupa_functions ::
  "os_env \<Rightarrow> pupa_store_hdr \<Rightarrow> byte list option \<Rightarrow> (byte list \<times> byte list) option \<Rightarrow>
     (byte list \<times> 64 word \<times> 64 word) option \<Rightarrow>
     (string \<times> (host_state \<Rightarrow> (php_value \<times> host_state) option)) list" where
  "pupa_functions env junk s ss sll =
     [(''pupa_init'', php_init env junk sll),
      (''pupa_fini'', php_fini env),
      (''pupa_get'', php_get s),
      (''pupa_set'', php_set env ss),
      (''pupa_del'', php_del env s),
      (''pupa_stats'', php_stats)]"

subsection \<open>Arguments and results\<close>

lemma c_text_at: "length (c_text bs) < length bs \<Longrightarrow> bs ! length (c_text bs) = 0"
  using nth_length_takeWhile [of "\<lambda>b. b \<noteq> 0" bs] by (simp add: c_text_def)

lemma c_text_length: "length (c_text bs) \<le> length bs"
  by (simp add: c_text_def length_takeWhile_le)

lemma cstr_strlen:
  assumes "length (c_text bs) + 1 < 2 ^ 31"
  shows "cstr (strlen_str bs) (c_text bs)"
proof -
  have t: "take (length (c_text bs)) bs = c_text bs"
    by (simp add: c_text_def takeWhile_eq_take [symmetric])
  have "(bs @ [0]) ! length (c_text bs) = 0"
    using c_text_at [of bs] c_text_length [of bs]
    by (cases "length (c_text bs) = length bs") (simp_all add: nth_append)
  then have "take (length (c_text bs) + 1) (bs @ [0]) = c_text bs @ [0]"
    using c_text_length [of bs] t take_Suc_conv_app_nth [of "length (c_text bs)" "bs @ [0]"]
    by (simp del: take_append) simp
  then show ?thesis
    using assms c_text_length [of bs] by (simp add: cstr_def strlen_str_def)
qed

lemma takeWhile_prefix:
  "\<exists>x \<in> set xs. \<not> P x \<Longrightarrow> takeWhile P (xs @ ys) = takeWhile P xs"
  by (induction xs) auto

lemma c_string_denotes:
  assumes d: "denotes c v bs" and z: "0 \<in> set bs"
  shows "c_string c (str_data v) = Some (c_text bs)"
proof -
  let ?n = "length bs"
  have b: "cptr_bytes c (str_data v) ?n = Some bs" using d by (simp add: denotes_def)
  obtain all where all: "bs = take ?n all"
    "c_string c (str_data v) = (if 0 \<in> set all then Some (c_text all) else None)"
  proof (cases "str_data v")
    case (Ext buf)
    then have "bs = take ?n buf" using b by (auto simp: cptr_bytes_def split: if_splits)
    then show ?thesis using that Ext by (simp add: c_string_def c_text_def)
  next
    case (Off a)
    then have "bs = bytes_at (mbytes c) (unat a) ?n" and l: "unat a + ?n \<le> msize c"
      using b by (auto simp: cptr_bytes_def ldn_def in_map_def split: if_splits)
    then have "bs = take ?n (bytes_at (mbytes c) (unat a) (msize c - unat a))"
      by (simp add: bytes_at_def take_map)
    then show ?thesis using that Off by (simp add: c_string_def c_text_def)
  qed
  have sp: "all = bs @ drop ?n all" using all(1) by (metis append_take_drop_id)
  have "c_text all = c_text bs"
    unfolding c_text_def by (subst sp, rule takeWhile_prefix) (use z in auto)
  moreover have "0 \<in> set all" using z sp by (metis UnCI set_append)
  ultimately show ?thesis by (simp add: all(2))
qed

text \<open>What the three \<open>get\<close> functions make of the string \<open>pupa_get\<close> returns.\<close>

lemma get_functions:
  assumes g: "\<And>key. cstr key kb \<Longrightarrow> \<exists>v. pupa_get c key = Some (PUPA_OK, Some v, c') \<and> denotes c' v bs"
    and kb: "0 \<notin> set kb" "length kb + 1 < 2 ^ 31" and z: "0 \<in> set bs"
  shows "lua_get (Inr kb) (c, d) = Some (Lua_return [Lua_str (c_text bs), Lua_nil], c', d)"
    "java_get (Some kb) (c, d) = Some (c_text bs, c', d)"
    "php_get (Some kb) (c, d) = Some (Php_string (c_text bs), c', d)"
proof -
  have t: "c_text kb = kb" using kb(1) by (auto simp: c_text_def)
  have key: "cstr (strlen_str kb) kb" "cstr (mk_str kb) kb"
    using cstr_strlen [of kb] kb(2) by (simp_all add: t cstr_mk_str)
  show "lua_get (Inr kb) (c, d) = Some (Lua_return [Lua_str (c_text bs), Lua_nil], c', d)"
    "java_get (Some kb) (c, d) = Some (c_text bs, c', d)"
    using g [OF key(1)] c_string_denotes z
    by (auto simp: lua_get_def java_get_def return_codes)
  show "php_get (Some kb) (c, d) = Some (Php_string (c_text bs), c', d)"
    using g [OF key(2)] c_string_denotes z by (auto simp: php_get_def return_codes)
qed

end
