(* ===== verification/Spec2Isabelle.thy ===== *)
theory Spec2Isabelle
  imports Wrap Live Demo Torn Cli Bindings
begin

text \<open>
  PUPA keeps a small key-value store in a file that a writer and any number of reader
  processes map into memory. This development models the library (\<open>src/src/pupa.c\<close>,
  \<open>pupa_store.c\<close>, \<open>pupa_shm.c\<close> and their headers), its command line tool
  (\<open>src/src/tools/pupa_tool.c\<close>) and the C bindings for Lua, Java and PHP under \<open>src/sdk\<close>, and
  proves what they do to a store.

  \<^bold>\<open>The program.\<close> The file starts with a header of three sections: the index, the keys and
  the values. Each section has two areas and an \<open>id\<close> that says which of them readers use. An
  index entry is an item (offset and length of the key, number of values) followed by
  \<open>max_ver_num\<close> value records, the newest last; \<open>pupa_init\<close> always asks for three. The index
  is sorted, shorter keys first, and is searched with \<open>bsearch\<close>. A write copies the index into
  the area readers do not use (the snapshot), changes the copy, and switches the \<open>id\<close>.
  \<open>pupa.c\<close> holds the one context of a process and calls \<open>pupa_store.c\<close>, which calls
  \<open>pupa_shm.c\<close> for the mapping.

  \<^bold>\<open>The model.\<close> The mapped file is a map from offsets to bytes with a size and a
  writability flag; every pointer into it is a 64-bit offset from \<open>store_hdr\<close>. All fields are
  read and written at their addresses and widths, so aliasing, overlapping areas, wrap-around
  and pointer scaling are those of the code. An operation returns its C result code and the new
  context; an access outside the mapping, a write to a read-only one, and a recursion that does
  not end have no result (\<open>None\<close>).

  \<^item> \<open>Prelude\<close>: types, addresses as images of natural numbers, collections of rewrite rules.
  \<^item> \<open>CMem\<close>: byte maps, loads and stores, \<open>memcpy\<close>, \<open>memmove\<close>, \<open>memcmp\<close>.
  \<^item> \<open>Layout\<close>: constants, structures and section macros of \<open>pupa_store.h\<close>, \<open>pupa_shm.h\<close>,
    \<open>pupa_config.h\<close>; \<open>pupa_store_init\<close> and its closed form.
  \<^item> \<open>Compare\<close>: \<open>_pupa_store_item_compare\<close> and \<open>pupa_store_item_compare\<close>; the order of keys
    they decide, an instance of the class \<open>linorder\<close>.
  \<^item> \<open>Search\<close>: the C library's \<open>bsearch\<close> against the interface \<open>index_search\<close>, and
    \<open>pupa_bsearch\<close>. \<open>Sort\<close>: \<open>pupa_sort\<close>.
  \<^item> \<open>Shm\<close>: \<open>pupa_shm_init\<close>, \<open>pupa_shm_sync\<close>, \<open>pupa_shm_fini\<close> over a disk (a map from paths
    to files) and an environment that says which system calls succeed.
  \<^item> \<open>Store\<close>: the operations of \<open>pupa_store.c\<close>, one definition each, with the parts of the long
    ones named. \<open>Stats\<close>: \<open>pupa_store_stats\<close> and \<open>pupa_store_dump\<close>.
  \<^item> \<open>Pupa\<close>: \<open>pupa.c\<close>. \<open>Tool\<close>: \<open>pt_set\<close>, \<open>pt_get\<close>, \<open>pt_del\<close>, \<open>pt_stat\<close>, with what they
    print. \<open>Cli\<close>: \<open>parse_cmd\<close>, \<open>usage\<close> and \<open>main\<close>, over the C library's \<open>getopt\<close> and \<open>atoi\<close>.
  \<^item> \<open>Bindings\<close>: \<open>pupa_lua.c\<close>, \<open>pupa_java.c\<close> and \<open>pupa_php.c\<close>; the results of the hosts' own
    interfaces are arguments of the definitions.
  \<^item> \<open>Inv\<close>: the invariant \<open>store_wf\<close> and the abstract store: \<open>store_entries\<close> (the index as a
    list) and \<open>store_map\<close> (key to versions, newest first). \<open>Writer\<close> adds what the next write
    starts from: \<open>ctx->store_items\<close> (\<open>work_entries\<close>, \<open>work_map\<close>), which need not be what
    readers see; \<open>synced\<close> says that it is.
  \<^item> \<open>Lookup\<close>: lookups refine \<open>get_spec\<close>. \<open>SetSteps\<close>, \<open>ReplaceStep\<close>, \<open>SetCorrect\<close>: what each
    step of a write does to the bytes, and the writes on entries. \<open>Del\<close>: deletion.
    \<open>Edges\<close>: full, empty, read-only and half-written stores.
    \<open>Wrap\<close>: stores whose layout does not fit into an \<open>int\<close>.
  \<^item> \<open>Steps\<close>: \<open>pupa_store_set\<close> as a step relation on a program point and a context, for what
    other processes see while it runs; \<open>set_iff_steps\<close> says that its steps are those of the
    operation. \<open>Reach\<close>: the states it reaches when there is room. \<open>Torn\<close>: lookups that run while
    it does, with each field of the header and each byte behind it from a state of its own.
  \<^item> \<open>Compact\<close>: the compaction of the value section of a store with one entry.
  \<^item> \<open>Contract\<close>: the locale \<open>versioned_store\<close>, an interface with a write and a history, and what
    follows from its law for sequences of writes. It is interpreted by the tool's \<open>set\<close> command,
    one process per write (\<open>Tool\<close>), and by a process that looks a key up before it writes it
    (\<open>Live\<close>).
  \<^item> \<open>Demo\<close>: concrete stores, built by running the model, for the witnesses here.

  \<^bold>\<open>The properties.\<close> C1 and C2: the effect of \<open>pupa_store_set\<close> on the abstract store. C3 to
  C5: lookups refine the abstract lookup, and return what was set. C6 to C10: the tool, from the
  words of the command line to its output, and what it does with wrong ones. C11: a careful
  process keeps the last three values of every key. C12 and C13: a process that does not look up
  between writes loses values. C14: the insertion sort. C15 and C16: where it fails. C17 to C20:
  deletion, where it works and where it does not. C21: a reader in the middle of a write that it
  is not protected from. C22 to C25: a write as steps, that it completes (C22), what readers are
  protected from (C23, C25), and the one case where they are not (C24). C26: compaction. C27 to
  C31: opening and closing. C32, C33: layout and search order. C34 to C36: edges of lookups and
  writes. C37 and C38: statistics. C39 and C40: the bindings.

  \<^bold>\<open>Bounds.\<close> The invariant asks for the layout \<open>pupa_init\<close> creates for \<open>n\<close> keys and three
  versions, \<open>224 + 672 * n\<close> bytes and less than \<open>2 ^ 31\<close>, so that the offsets computed in
  \<open>int\<close> are exact (C31 is about what happens beyond that bound); and
  \<open>64 * used <= 16 * n + 48\<close>, the entries the index areas have space for, which is less than the
  \<open>n\<close> entries the code admits (C32): on a well-formed store the check for the capacity in
  \<open>pupa_store_item_add\<close> can fail for \<open>n <= 1\<close> only (C36). Keys and values are shorter than \<open>2 ^ 31 - 1\<close>. No definition has fuel: the loops have measures, and
  \<open>pupa_bsearch\<close>, which need not return, is a partial function with the value \<open>None\<close> then;
  \<open>search_returns\<close> in C1 says when it does.

  The steps of a write are bounded by \<open>steps_left\<close>, ten from the beginning. C26 asks for 30
  keys, so that the slots the compaction looks at lie in the unused part of the index areas.

  \<^bold>\<open>Not modelled.\<close> \<open>DEBUG_LOG\<close>, empty unless compiled in; what \<open>getopt\<close> itself prints;
  \<open>src/src/benchmark\<close>, which times calls of the library in threads; what the Java and PHP
  bindings register besides their functions, and the Go binding. Descriptors are not tracked:
  \<open>close\<close> has no effect. Undefined behaviour of \<open>memcpy\<close> on overlapping areas is resolved as in
  \<open>CMem\<close>. The status of \<open>main\<close> is the \<open>int\<close> it returns, of which a parent process sees the low
  8 bits. More than 100 values for the array of \<open>pt_get\<close> are a fault.

  \<open>pupa_init\<close> makes a private mapping a copy of the file at that time; C21 to C25 are about
  readers that see the stores of the writer, as through a shared mapping (or, on Linux, a private
  one that is not written to). Such a lookup reads each byte once; that it may read one twice
  makes no difference, as the bytes it looks at do not change during the write (\<open>visible\<close>).

  The theorems on writes to any store cover those that find room; for the compactions, which are
  modelled in full, there is C26.
\<close>

section \<open>Writing\<close>

text \<open>
  C1: Setting a key that the writer's index does not have inserts it with the value as its
  only version, in the place its order demands, and leaves a well-formed, synchronised
  store; this holds whatever \<open>msync\<close> returns, and its failure is what the call reports.
\<close>

theorem set_inserts_key:
  assumes "writer_ok c" "cstr key kb" "cstr val vb" "work_map c (skey kb) = None"
    "has_room (view_of c) kb vb" "malloc_ok env" "search_returns c kb"
  shows "\<exists>c'. pupa_store_set env c key val = Some (if msync_ok env then PUPA_OK else PUPA_ERROR, c') \<and>
     writer_ok c' \<and> synced c' \<and> store_map c' = (work_map c)(skey kb \<mapsto> [stored vb]) \<and>
     store_entries c' = insert_entry (work_entries c) (skey kb) [stored vb] \<and>
     sorted_wrt (<) (map fst (store_entries c'))"
proof -
  obtain c' where c': "pupa_store_set env c key val = Some (pupa_shm_sync env c', c')"
    "writer_ok c'" "synced c'" "store_map c' = (work_map c)(skey kb \<mapsto> [stored vb])"
    "work_entries c' = insert_entry (work_entries c) (skey kb) [stored vb]"
    using set_new_key [OF assms] by blast
  have wv: "wf_view (view_of c') c'" using writer_ok_wf [OF c'(2)] by (simp add: store_wf_def)
  have "store_entries c' = work_entries c'" by (rule synced_work_entries [OF c'(2,3), symmetric])
  then show ?thesis
    using c' wf_viewD(9) [OF wv] store_entries_view [OF wv]
    by (intro exI [of _ c']) (simp add: pupa_shm_sync_def)
qed

theorem set_inserts_key_witness:
  "\<exists>c'. pupa_store_set env_good demo1 (mk_str key_c) (mk_str [50]) = Some (PUPA_OK, c') \<and>
     map fst (store_entries c') = [skey key_b, skey key_c]"
proof -
  have pos: "insert_pos (skey key_c) [skey key_b] = 1"
    using key_order(1) by (simp add: insert_pos_def)
  have ne: "skey key_c \<noteq> skey key_b" using key_order(1) by auto
  have a: "cstr (mk_str key_c) key_c" "cstr (mk_str [50]) [50]" "work_map demo1 (skey key_c) = None"
    "has_room (view_of demo1) key_c [50]" "search_returns demo1 key_c"
    using ne pos by (simp_all add: demo1_facts has_room_def search_returns_def)
      (simp_all add: demo_keys)
  show ?thesis
    using set_inserts_key [OF demo1_facts(1) a(1-4) demo_sync(2) a(5)] pos
    by (auto simp: env_good_def demo1_facts insert_entry_def)
qed

text \<open>
  C2: Setting a key that the writer's index has makes the value version 1, moves the older
  versions up and keeps three of them; the other keys are those of the writer's index.
\<close>

theorem set_replaces_value:
  assumes "writer_ok c" "cstr key kb" "cstr val vb" "work_map c (skey kb) = Some vs"
    "val_room (view_of c) vb"
  shows "\<exists>c'. pupa_store_set env c key val = Some (if msync_ok env then PUPA_OK else PUPA_ERROR, c') \<and>
     writer_ok c' \<and> store_map c' = (work_map c)(skey kb \<mapsto> take 3 (stored vb # vs)) \<and>
     (synced c' \<longleftrightarrow> \<not> synced c)"
  using set_present_key [OF assms, of env] by (auto simp: pupa_shm_sync_def)

theorem set_replaces_value_witness:
  "\<exists>c'. pupa_store_set env_good demo2 (mk_str key_b) (mk_str [51]) = Some (PUPA_OK, c') \<and>
     store_map c' (skey key_b) = Some [stored [51], stored [49]]"
proof -
  have a: "cstr (mk_str key_b) key_b" "cstr (mk_str [51]) [51]"
    "work_map demo2 (skey key_b) = Some [stored [49]]" "val_room (view_of demo2) [51]"
    using key_order(1) by (auto simp: demo2_facts val_room_def) (simp_all add: demo_keys)
  show ?thesis
    using set_replaces_value [OF demo2_facts(1) a, of env_good] by (auto simp: env_good_def)
qed

section \<open>Reading\<close>

text \<open>
  C3: \<open>pupa_store_get\<close> refines the abstract lookup: for every key and every version from 1 on
  it returns the result code and the bytes \<open>get_spec\<close> gives for the abstract map, on each of
  its branches.
\<close>

theorem get_refines_spec:
  assumes "store_wf c" "cstr key kb" "1 \<le> sint ver"
  shows "\<exists>v. pupa_store_get c key ver =
       Some (fst (get_spec (store_map c (skey kb)) (sint ver)), v,
             if 3 < sint ver then c else refresh c) \<and>
     result_denotes c v (snd (get_spec (store_map c (skey kb)) (sint ver)))"
  by (rule get_refines [OF assms])

theorem get_refines_spec_witness:
  "\<exists>v. pupa_store_get demo2' (mk_str key_b) 2 = Some (PUPA_OK, v, refresh demo2') \<and>
     result_denotes demo2' v (Some (stored [49]))"
proof -
  have "cstr (mk_str key_b) key_b" "1 \<le> sint (2 :: c_int)" by (simp_all add: demo_keys)
  from get_refines_spec [OF demo2'_facts(3) this]
  show ?thesis by (simp add: demo2'_facts get_spec_def)
qed

text \<open>
  C4: \<open>pupa_store_get_values\<close> returns all versions of a key, the newest first, and reports a
  key that is not there.
\<close>

theorem get_all_versions:
  assumes "store_wf c" "cstr key kb"
  shows "\<exists>vs. pupa_get_all_ver c key =
       Some (if store_map c (skey kb) = None then PUPA_NOT_FOUND else PUPA_OK, vs, refresh c) \<and>
     list_all2 (denotes c) vs (versions (store_map c (skey kb)))"
  using get_values_refines [OF assms] by (simp add: pupa_get_all_ver_def versions_def)

theorem get_all_versions_witness:
  "\<exists>vs. pupa_get_all_ver demo2' (mk_str key_b) = Some (PUPA_OK, vs, refresh demo2') \<and>
     list_all2 (denotes demo2') vs [stored [51], stored [49]]"
proof -
  have "cstr (mk_str key_b) key_b" by (simp add: demo_keys)
  from get_all_versions [OF demo2'_facts(3) this] show ?thesis by (simp add: demo2'_facts)
qed

text \<open>
  C5: A value that was set is what a lookup of version 1 by the same process returns, with its
  terminating zero; the version before it is version 2.
\<close>

theorem set_then_get:
  assumes "writer_ok c" "cstr key kb" "cstr val vb" "set_ready c kb vb" "malloc_ok env"
  shows "\<exists>r c' v. pupa_store_set env c key val = Some (r, c') \<and>
     pupa_get_by_ver c' key 1 = Some (PUPA_OK, Some v, refresh c') \<and> denotes c' v (stored vb) \<and>
     (\<forall>old. versions (work_map c (skey kb)) \<noteq> [] \<and> old = hd (versions (work_map c (skey kb))) \<longrightarrow>
        (\<exists>w. pupa_get_by_ver c' key 2 = Some (PUPA_OK, Some w, refresh c') \<and> denotes c' w old))"
proof -
  let ?h = "stored vb # versions (work_map c (skey kb))"
  obtain c' where c': "pupa_store_set env c key val = Some (pupa_shm_sync env c', c')" "writer_ok c'"
    "store_map c' = (work_map c)(skey kb \<mapsto> take 3 ?h)"
    using set_any_key [OF assms] by blast
  note wf = writer_ok_wf [OF c'(2)]
  have get: "\<exists>v. pupa_get_by_ver c' key (W32 r) = Some (PUPA_OK, Some v, refresh c') \<and>
      denotes c' v (?h ! (r - 1))" if r: "1 \<le> r" "r \<le> 2" "r \<le> length ?h" for r
  proof -
    have sm: "store_map c' (skey kb) = Some (take 3 ?h)" using c'(3) by simp
    have l: "r \<le> length (take 3 ?h)" using r by simp
    have n: "take 3 ?h ! (r - 1) = ?h ! (r - 1)" using r by (intro nth_take) simp
    show ?thesis
      using get_present [OF wf assms(2) sm r(1) l] by (simp only: n pupa_get_by_ver_def)
  qed
  have "W32 1 = 1" "W32 2 = 2" by (simp_all add: W32_def)
  then show ?thesis
    using c'(1) get [of 1] get [of 2]
    by (intro exI [of _ "pupa_shm_sync env c'"] exI [of _ c'])
      (auto simp: hd_conv_nth Suc_le_eq)
qed

theorem set_then_get_witness:
  "\<exists>r c' v. pupa_store_set env_good demo0 (mk_str key_b) (mk_str [49]) = Some (r, c') \<and>
     pupa_get_by_ver c' (mk_str key_b) 1 = Some (PUPA_OK, Some v, refresh c') \<and>
     denotes c' v (stored [49])"
proof -
  have a: "cstr (mk_str key_b) key_b" "cstr (mk_str [49]) [49]" "set_ready demo0 key_b [49]"
    by (simp_all add: set_ready_def demo0_facts(6) demo0_room demo0_returns demo_keys)
  show ?thesis using set_then_get [OF demo0_facts(1) a demo_sync(2)] by blast
qed

section \<open>The command line tool\<close>

text \<open>
  C6: After a sequence of \<open>pupa_tool set\<close> commands that found room, each a process of its own,
  the file holds for every key the last three values set for it, the newest first, before the
  older ones it had.
\<close>

theorem tool_sets_keep_three:
  assumes "path_ok d path" "commands_ready junk path n d kvs"
  shows "\<exists>d'. set_commands junk path n d kvs = Some d' \<and>
     (\<forall>kb. tool_versions path d' kb =
        take 3 (rev (values_set kb kvs) @ tool_versions path d kb))"
proof -
  have r: "tool.all_ready junk path n d kvs" using assms(2) by (simp add: commands_ready_all)
  obtain d' where d': "set_commands junk path n d kvs = Some d'"
    using tool.puts_total [OF r] by (auto simp: set_commands_puts)
  have "tool_versions path d' kb = take 3 (rev (values_set kb kvs) @ tool_versions path d kb)" for kb
    using tool.history_puts [OF r d' [unfolded set_commands_puts], of kb]
      path_ok_versions [OF set_commands_ok [OF assms d'], of kb]
    by (simp add: values_set_written)
  then show ?thesis using d' by blast
qed

theorem tool_sets_keep_three_witness:
  "\<exists>d'. set_commands zero_hdr ''f'' 16 Map.empty demo_commands = Some d' \<and>
     tool_versions ''f'' d' key_b = [[50], [49]]"
proof -
  have v: "values_set key_b demo_commands = [[49], [50]]"
    "tool_versions ''f'' Map.empty key_b = []"
    by (simp_all add: values_set_def demo_commands_def tool_versions_def tool_history_def
        empty_path_def)
  show ?thesis
    using tool_sets_keep_three [OF demo_commands_ready, of zero_hdr] v by fastforce
qed

text \<open>
  C7: What a \<open>set\<close> command line stored, a \<open>get\<close> command line of another process prints,
  whether the file existed before or not.
\<close>

theorem main_set_then_get:
  assumes "tool_ready path n d (ascii k) (ascii v)" "n < 2 ^ 31" "plain_arg k" "plain_arg v"
    "calls_ok env"
  shows "\<exists>d'. tool_main env_good junk p d [prog, ''set'', k, v, ''-n'', show_nat n, ''-f'', path] =
       Some \<lparr>status = 0, stdout = ascii (''set successfully.'' @ nl), stderr = [], files = d'\<rparr> \<and>
     tool_main env junk' p' d' [prog', ''get'', k, ''-f'', path] =
       Some \<lparr>status = 0, stdout = ascii (nl @ ''Got '' @ k @ '' : '' @ v @ nl), stderr = [],
         files = d'\<rparr>"
proof -
  have nd: "\<not> dashed k" "\<not> dashed v" using assms(3,4) by (simp_all add: plain_arg_def)
  obtain f' where f': "tool_put junk path n d (ascii k) (ascii v) = Some (d(path \<mapsto> f'))" "file_ok f'"
    "file_history f' (ascii k) = take 3 (stored (ascii v) # tool_history path d (ascii k))"
    using tool_put_eq [OF assms(1), of junk] by auto
  let ?d = "d(path \<mapsto> f')"
  have key: "cstr (mk_str (ascii k)) (ascii k)"
    using assms(1) by (auto simp: tool_ready_def file_ready_def cstr_mk_str split: if_splits)
  have set: "pt_set env_good junk d path (W32 n) (arg_str k) (arg_str v) = Some (PUPA_OK, set_done, ?d)"
    using f'(1) pt_set_done [of env_good junk d path "W32 n" "arg_str k" "arg_str v"]
    by (fastforce simp: tool_put_def arg_str_def bind_eq_Some_conv split: if_splits)
  have fh: "get_spec (file_map f' (skey (ascii k))) 1 = (PUPA_OK, Some (stored (ascii v)))"
    using f'(3) by (cases "file_map f' (skey (ascii k))") (auto simp: get_spec_def file_history_def versions_def)
  have dp: "?d path = Some f'" by simp
  have "pt_get env junk' ?d path (arg_str k) 1 = Some (0, got_one (ascii k) (ascii v), ?d)"
    using pt_get_spec [where d = ?d and path = path, OF dp f'(2) assms(5) key, of 1 junk'] fh
      c_text_ascii [OF assms(3)] c_text_stored [OF ascii_no_zero, of v] assms(4)
    by (simp add: arg_str_def get_report_def plain_arg_def del: fun_upd_apply)
  then show ?thesis
    using main_set [OF nd assms(2), of env_good junk p d prog path] set
      main_get(2) [OF nd(1) assms(2), of env junk' p' ?d prog' path]
    by (intro exI [of _ ?d]) (simp add: report_def set_done_def got_one_def ascii_def PUPA_OK_def
        del: fun_upd_apply)
qed

theorem main_set_then_get_witness:
  "\<exists>d'. tool_main env_good zero_hdr True Map.empty
       [''pupa_tool'', ''set'', ''b'', ''1'', ''-n'', ''16'', ''-f'', ''f''] =
     Some \<lparr>status = 0, stdout = ascii (''set successfully.'' @ nl), stderr = [], files = d'\<rparr> \<and>
     tool_main env_good zero_hdr False d' [''pupa_tool'', ''get'', ''b'', ''-f'', ''f''] =
       Some \<lparr>status = 0, stdout = ascii (nl @ ''Got b : 1'' @ nl), stderr = [], files = d'\<rparr>"
proof -
  have "ascii ''b'' = key_b" "ascii ''1'' = [49]" by (simp_all add: ascii_def demo_keys)
  then have "tool_ready ''f'' 16 Map.empty (ascii ''b'') (ascii ''1'')"
    using demo_commands_ready(2) [of zero_hdr] by (simp add: demo_commands_def)
  then show ?thesis
    using main_set_then_get [OF _ _ _ _ env_good_ok(1), where k = "''b''" and v = "''1''" and n = 16
        and path = "''f''" and p = True and p' = False and prog = "''pupa_tool''"
        and prog' = "''pupa_tool''" and junk = zero_hdr and junk' = zero_hdr]
    by (simp add: plain_arg_def dashed_def show_numbers)
qed

text \<open>
  C8: A \<open>get\<close> command line reports exactly what the file holds: all versions, the newest
  first, for \<open>-v 0\<close>, else the version asked for, or the error \<open>get_spec\<close> gives. It changes no
  file.
\<close>

theorem main_get_reports:
  assumes "d path = Some f" "file_ok f" "calls_ok env" "plain_arg k" "length k + 1 < 2 ^ 31"
    "n < 2 ^ 31"
  shows "tool_main env junk p d [prog, ''get'', k, ''-v'', show_nat n, ''-f'', path] =
     (let m = file_map f (skey (ascii k));
          (ret, out) =
            (if n \<noteq> 0 then get_report (ascii k) (get_spec m (int n))
             else if m = None then (PUPA_NOT_FOUND, get_failed (ascii k))
             else (0, got_all (ascii k) (value_lines 0 (map c_text (versions m)))))
      in Some (report (ret, out, d)))"
proof -
  have nd: "\<not> dashed k" and t: "c_text (ascii k) = ascii k"
    using assms(4) c_text_ascii by (simp_all add: plain_arg_def)
  have key: "cstr (arg_str k) (ascii k)" using assms(5) by (simp add: arg_str_def cstr_mk_str ascii_def)
  have pg: "tool_main env junk p d [prog, ''get'', k, ''-v'', show_nat n, ''-f'', path] =
      do { r \<leftarrow> pt_get env junk d path (arg_str k) (W32 n); Some (report r) }"
    by (rule main_get(1) [OF nd assms(6)])
  show ?thesis
  proof (cases "n = 0")
    case True
    then show ?thesis
      using pg pt_get_all [where d = d and path = path, OF assms(1-3) key, of junk] t
      by (simp add: W32_zero [symmetric] file_history_def Let_def)
  next
    case False
    have sn: "sint (W32 n) = int n" using assms(6) by (simp add: sint_W32)
    show ?thesis
      using pg pt_get_spec [where d = d and path = path, OF assms(1-3) key, of "W32 n" junk] t False sn
      by (simp add: split_beta Let_def)
  qed
qed

theorem main_get_reports_witness:
  "\<exists>d. tool_main env_good zero_hdr True d [''pupa_tool'', ''get'', ''b'', ''-v'', ''0'', ''-f'', ''s''] =
       Some \<lparr>status = 0, stdout = ascii (nl @ ''Got b :'' @ nl @ ''     v1 - 1 '' @ nl), stderr = [],
         files = d\<rparr> \<and>
     tool_main env_good zero_hdr True d [''pupa_tool'', ''get'', ''b'', ''-v'', ''2'', ''-f'', ''s''] =
       Some \<lparr>status = -4, stdout = ascii (''Failed to get (b).'' @ nl @ ''Error: -4'' @ nl),
         stderr = [], files = d\<rparr>"
proof -
  obtain f where f: "file_ok f" "file_map f = [skey key_b \<mapsto> [stored [49]]]"
    using demo_tool by blast
  let ?d = "[''s'' \<mapsto> f]"
  have b: "ascii ''b'' = key_b" by (simp add: ascii_def demo_keys)
  note g = main_get_reports [where d = ?d and path = "''s''" and k = "''b''" and p = True
      and prog = "''pupa_tool''" and junk = zero_hdr, OF _ f(1) env_good_ok(1)]
  show ?thesis
    using g [of 0] g [of 2]
    by (intro exI [of _ ?d]) (simp add: plain_arg_def dashed_def show_numbers f(2) b get_spec_def get_report_def
        report_def return_codes got_all_def get_failed_def value_line_def c_text_stored show_int_def
        versions_def ascii_def demo_keys)
qed

text \<open>
  C9: A command line without one of the four commands, without the operands the command needs,
  or with one that begins with a dash prints the usage text on \<open>stderr\<close>, leaves all files as
  they are and, like a successful run, has status 0.
\<close>

theorem main_bad_command:
  assumes "length rest < 1 \<or> rest ! 0 \<notin> {''set'', ''get'', ''del'', ''stat''} \<or>
       rest ! 0 = ''set'' \<and> (length rest < 3 \<or> dashed (rest ! 1) \<or> dashed (rest ! 2)) \<or>
       rest ! 0 \<in> {''get'', ''del''} \<and> (length rest < 2 \<or> dashed (rest ! 1))"
  shows "tool_main env junk p d (prog # rest) =
     Some \<lparr>status = 0, stdout = [], stderr = usage prog, files = d\<rparr>"
proof (cases "rest = []")
  case True
  then show ?thesis by (simp add: tool_main_def parse_cmd_def print_usage_def)
next
  case False
  have "parse_operands (prog # rest) cli_0 = None"
    using assms False by (auto simp: parse_operands_def Suc_le_eq numeral_eq_Suc)
  then show ?thesis by (simp add: tool_main_def parse_cmd_def print_usage_def)
qed

theorem main_bad_command_witness:
  "tool_main env_good zero_hdr True Map.empty [''pupa_tool'', ''set'', ''k'', ''-1''] =
     Some \<lparr>status = 0, stdout = [], stderr = usage ''pupa_tool'', files = Map.empty\<rparr>"
  by (rule main_bad_command) (simp add: dashed_def)

text \<open>
  C10: The value of \<open>-n\<close> is refused only if \<open>atoi\<close> makes it -1. A word that is no number counts
  as 0: on a missing file \<open>set\<close> then creates a store without room for any key and fails, and so
  does every later \<open>set\<close> on that file, whatever its \<open>-n\<close>.
\<close>

theorem main_accepts_no_keys:
  assumes "empty_path d path" "calls_ok env" "atoi num = 0" "\<not> dashed k" "\<not> dashed v"
    "length k + 1 < 2 ^ 31" "calls_ok env'" "\<not> dashed k'" "\<not> dashed v'" "length k' + 1 < 2 ^ 31"
    "n < 2 ^ 31"
  shows "\<exists>f. tool_main env junk p d [prog, ''set'', k, v, ''-n'', num, ''-f'', path] =
       Some (report (PUPA_OVERFLOW, set_failed, d(path \<mapsto> f))) \<and> file_ok f \<and>
     tool_main env' junk' p' (d(path \<mapsto> f)) [prog, ''set'', k', v', ''-n'', show_nat n, ''-f'', path] =
       Some (report (PUPA_OVERFLOW, set_failed, d(path \<mapsto> f)))"
proof -
  have key: "cstr (arg_str k) (ascii k)" "cstr (arg_str k') (ascii k')"
    using assms(6,10) by (simp_all add: arg_str_def cstr_mk_str ascii_def)
  obtain f where f: "pt_set env junk d path 0 (arg_str k) (arg_str v) =
      Some (PUPA_OVERFLOW, set_failed, d(path \<mapsto> f))" "file_ok f" "v_keys (file_view f) = 0"
    using pt_set_fresh_no_keys [OF assms(1,2) key(1)] by blast
  have "pt_set env' junk' (d(path \<mapsto> f)) path (W32 n) (arg_str k') (arg_str v') =
      Some (PUPA_OVERFLOW, set_failed, d(path \<mapsto> f))"
    by (rule pt_set_no_keys [where f = f, OF _ f(2,3) assms(7) key(2)]) simp
  then show ?thesis
    using f(1,2) main_set [OF assms(8,9,11), of env' junk' p' "d(path \<mapsto> f)" prog path] assms(3-5)
    by (intro exI [of _ f]) (simp add: tool_main_def parse_cmd_def parse_operands_def parse_options_step
        del: fun_upd_apply)
qed

theorem main_accepts_no_keys_witness:
  "\<exists>f r. tool_main env_good zero_hdr True Map.empty
       [''pupa_tool'', ''set'', ''k'', ''v'', ''-n'', ''abc'', ''-f'', ''s''] = Some r \<and>
     status r = -2 \<and> files r = [''s'' \<mapsto> f] \<and> file_ok f \<and>
     tool_main env_good zero_hdr True [''s'' \<mapsto> f]
       [''pupa_tool'', ''set'', ''k'', ''v'', ''-n'', ''1000'', ''-f'', ''s''] = Some r"
proof -
  have "atoi ''abc'' = 0" by (simp add: atoi_def is_space_def is_digit_def read_nat_def)
  then show ?thesis
    using main_accepts_no_keys [where d = Map.empty and path = "''s''" and num = "''abc''"
        and k = "''k''" and v = "''v''" and k' = "''k''" and v' = "''v''" and n = 1000
        and prog = "''pupa_tool''" and p = True and p' = True and junk = zero_hdr and junk' = zero_hdr,
        OF _ env_good_ok(1) _ _ _ _ env_good_ok(1)]
    by (fastforce simp: empty_path_def dashed_def show_numbers report_def return_codes)
qed

section \<open>A process that writes more than once\<close>

text \<open>
  C11: A process that looks a key up before it sets it keeps the last three values of every key,
  over any sequence of such writes.
\<close>

theorem live_sets_keep_three:
  assumes "store_wf c" "live_sets_ready c kvs"
  shows "\<exists>c'. live_sets c kvs = Some c' \<and>
     (\<forall>kb. live_versions c' kb = take 3 (rev (map snd (filter (\<lambda>kv. fst kv = kb) kvs)) @
        live_versions c kb))"
proof -
  have r: "live.all_ready c kvs" using assms(2) by (simp add: live_sets_all_ready)
  obtain c' where c': "live_sets c kvs = Some c'"
    using live.puts_total [OF r] by (auto simp: live_sets_puts)
  have "length (live_versions c' kb) \<le> 3" for kb
    by (rule live_versions_length [OF live_sets_wf [OF assms c']])
  then show ?thesis
    using live.history_puts [OF r c' [unfolded live_sets_puts]] c' by (simp add: live.written_def)
qed

theorem live_sets_keep_three_witness:
  "\<exists>c'. live_sets demo2' [(key_b, [52])] = Some c' \<and> live_versions c' key_b = [[52], [51], [49]]"
proof -
  have m: "mwritable demo2'"
    using demo2'_facts(1) by (simp add: writer_ok_def writer_def)
  have r: "live_ready demo2' key_b [52]"
    using refresh_writer(4) [OF demo2'_facts(3) m] demo2'_facts(3) m
    by (simp add: live_ready_def set_ready_def demo2'_facts val_room_def refresh_def)
      (simp add: demo_keys)
  have "live_sets_ready demo2' [(key_b, [52])]"
    using r live_put_eq [OF r] by auto
  from live_sets_keep_three [OF demo2'_facts(3) this] show ?thesis
    by (fastforce simp: live_versions_def demo2'_facts stored_def)
qed

text \<open>
  C12: A replacement is lost when the same process then inserts another key without a lookup
  in between: \<open>ctx->store_items\<close> still leads to the index before the replacement. Both calls
  report success.
\<close>

theorem update_lost:
  assumes "writer_ok c" "synced c" "malloc_ok env" "msync_ok env"
    and k1: "cstr key kb" "cstr val vb" "store_map c (skey kb) = Some vs" "val_room (view_of c) vb"
    and k2: "cstr key2 kb2" "cstr val2 vb2" "store_map c (skey kb2) = None"
      "has_room (replace_view (view_of c) vb) kb2 vb2" "search_returns c kb2"
  shows "\<exists>c1 c2. pupa_store_set env c key val = Some (PUPA_OK, c1) \<and>
     store_map c1 (skey kb) = Some (take 3 (stored vb # vs)) \<and>
     pupa_store_set env c1 key2 val2 = Some (PUPA_OK, c2) \<and> store_map c2 (skey kb) = Some vs"
proof -
  have wm: "work_map c = store_map c" by (rule synced_work_map [OF writer_ok_wf [OF assms(1)] assms(2)])
  obtain c1 where c1: "pupa_store_set env c key val = Some (PUPA_OK, c1)" "writer_ok c1"
    "store_map c1 = (store_map c)(skey kb \<mapsto> take 3 (stored vb # vs))" "work_map c1 = store_map c"
    "work_entries c1 = work_entries c" "view_of c1 = switched (replace_view (view_of c) vb)"
    using set_present_key [OF assms(1) k1(1,2), of vs env] k1(3,4) wm assms(2,4)
    by (auto simp: pupa_shm_sync_def)
  have "has_room (view_of c1) kb2 vb2" "search_returns c1 kb2" "work_map c1 (skey kb2) = None"
    using k2(3-5) c1(4-6)
    by (simp_all add: has_room_def search_returns_def replace_view_def)
  then obtain c2 where c2: "pupa_store_set env c1 key2 val2 = Some (PUPA_OK, c2)"
    "store_map c2 = (store_map c)(skey kb2 \<mapsto> [stored vb2])"
    using set_new_key [OF c1(2) k2(1,2) _ _ assms(3)] c1(4) assms(4)
    by (auto simp: pupa_shm_sync_def)
  have "kb \<noteq> kb2" using k1(3) k2(3) by auto
  then have "store_map c2 (skey kb) = Some vs" using c2(2) k1(3) by (simp add: stored_def)
  then show ?thesis using c1(1,3) c2(1) by (intro exI [of _ c1] exI [of _ c2]) simp
qed

theorem update_lost_witness:
  "\<exists>c1 c2. pupa_store_set env_good demo1 (mk_str key_b) (mk_str [51]) = Some (PUPA_OK, c1) \<and>
     store_map c1 (skey key_b) = Some [stored [51], stored [49]] \<and>
     pupa_store_set env_good c1 (mk_str key_c) (mk_str [50]) = Some (PUPA_OK, c2) \<and>
     store_map c2 (skey key_b) = Some [stored [49]]"
proof -
  have pos: "insert_pos (skey key_c) [skey key_b] = 1"
    using key_order(1) by (simp add: insert_pos_def)
  have ne: "skey key_c \<noteq> skey key_b" using key_order(1) by auto
  have a: "cstr (mk_str key_b) key_b" "cstr (mk_str [51]) [51]"
    "store_map demo1 (skey key_b) = Some [stored [49]]" "val_room (view_of demo1) [51]"
    "cstr (mk_str key_c) key_c" "cstr (mk_str [50]) [50]" "store_map demo1 (skey key_c) = None"
    "has_room (replace_view (view_of demo1) [51]) key_c [50]" "search_returns demo1 key_c"
    using ne pos
    by (simp_all add: demo1_facts has_room_def val_room_def search_returns_def replace_view_def)
      (simp_all add: demo_keys)
  show ?thesis
    using update_lost [OF demo1_facts(1,2) demo_sync(2) env_good_ok(2) a] by simp
qed

text \<open>
  C13: Three values set for one key by one process in a row: the second is lost from the
  history, because the third write starts from the index before the second.
\<close>

theorem version_lost:
  assumes "writer_ok c" "synced c" "msync_ok env" "cstr key kb"
    and "cstr val1 v1" "cstr val2 v2" "store_map c (skey kb) = Some vs"
    and "val_room (replace_view (view_of c) v1) v2"
  shows "\<exists>c1 c2. pupa_store_set env c key val1 = Some (PUPA_OK, c1) \<and>
     store_map c1 (skey kb) = Some (take 3 (stored v1 # vs)) \<and>
     pupa_store_set env c1 key val2 = Some (PUPA_OK, c2) \<and>
     store_map c2 (skey kb) = Some (take 3 (stored v2 # vs))"
proof -
  have wm: "work_map c = store_map c" by (rule synced_work_map [OF writer_ok_wf [OF assms(1)] assms(2)])
  have room: "val_room (view_of c) v1"
    using assms(8) by (simp add: val_room_def replace_view_def)
  obtain c1 where c1: "pupa_store_set env c key val1 = Some (PUPA_OK, c1)" "writer_ok c1"
    "store_map c1 = (store_map c)(skey kb \<mapsto> take 3 (stored v1 # vs))" "work_map c1 = store_map c"
    "view_of c1 = switched (replace_view (view_of c) v1)"
    using set_present_key [OF assms(1,4,5), of vs env] assms(2,3,7) wm room
    by (auto simp: pupa_shm_sync_def)
  have "val_room (view_of c1) v2" using assms(8) c1(5) by (simp add: val_room_def replace_view_def)
  then obtain c2 where "pupa_store_set env c1 key val2 = Some (PUPA_OK, c2)"
    "store_map c2 = (store_map c)(skey kb \<mapsto> take 3 (stored v2 # vs))"
    using set_present_key [OF c1(2) assms(4,6), of vs env] c1(4) assms(3,7)
    by (auto simp: pupa_shm_sync_def)
  then show ?thesis using c1(1,3) by (intro exI [of _ c1] exI [of _ c2]) simp
qed

theorem version_lost_witness:
  "\<exists>c1 c2. pupa_store_set env_good demo1 (mk_str key_b) (mk_str [51]) = Some (PUPA_OK, c1) \<and>
     store_map c1 (skey key_b) = Some [stored [51], stored [49]] \<and>
     pupa_store_set env_good c1 (mk_str key_b) (mk_str [52]) = Some (PUPA_OK, c2) \<and>
     store_map c2 (skey key_b) = Some [stored [52], stored [49]]"
proof -
  have a: "cstr (mk_str key_b) key_b" "cstr (mk_str [51]) [51]" "cstr (mk_str [52]) [52]"
    "store_map demo1 (skey key_b) = Some [stored [49]]"
    "val_room (replace_view (view_of demo1) [51]) [52]"
    by (simp_all add: demo1_facts val_room_def replace_view_def) (simp add: demo_keys)
  show ?thesis
    using version_lost [OF demo1_facts(1,2) env_good_ok(2) a] by simp
qed

section \<open>The insertion search\<close>

text \<open>
  C14: \<open>pupa_sort\<close>, called with a new entry behind sorted ones, returns and moves it to the place
  its key has in the order, provided a key smaller than all comes at a count the search can
  handle: the index is the old one with the entry inserted, and strictly sorted.
\<close>

theorem sort_inserts:
  assumes "hdr_ok s c" "v_key_used s \<le> 64 * v_keys s" "b + 64 * (u + 1) \<le> file_len (v_keys s)"
    "128 \<le> b" "b + 64 * (u + 1) \<le> k_base s" "b + 64 * (u + 1) \<le> v_base s"
    "\<forall>i < u + 1. item_ok s (mbytes c) (b + 64 * i)"
    "entries (mbytes c) b (u + 1) = es @ [(skey kb, vs)]"
    "sorted_wrt (<) (map fst es)" "skey kb \<notin> fst ` set es" "length kb + 1 < 2 ^ 31"
    "insert_pos (skey kb) (map fst es) = 0 \<longrightarrow> left_ok u" "w_key w = Off 0"
  shows "\<exists>c'. pupa_sort True c (W64 b) (W64 (u + 1)) 64 w = Some c' \<and>
     entries (mbytes c') b (u + 1) = insert_entry es (skey kb) vs \<and>
     sorted_wrt (<) (map fst (insert_entry es (skey kb) vs)) \<and> rd_hdr (mbytes c') = rd_hdr (mbytes c)"
proof -
  let ?p = "insert_pos (skey kb) (map fst es)"
  have u: "length es = u" using arg_cong [OF assms(8), of length] by simp
  have p: "?p \<le> u" using insert_pos_le [of "skey kb" "map fst es"] u by simp
  have "entries (insert_slot (mbytes c) b ?p u) b (u + 1) = insert_entry es (skey kb) vs"
    using inserted_index(2) [OF assms(7,8) p assms(5,6) _ assms(4), where s' = s]
    by (simp add: insert_entry_def Let_def)
  moreover have "rd_hdr (insert_slot (mbytes c) b ?p u) = rd_hdr (mbytes c)"
    using assms(4) by (intro rd_hdr_cong) (simp add: insert_slot_outside)
  ultimately show ?thesis
    using sort_appended [OF assms(1-3,7-11) _ assms(13)] assms(12)
      sorted_insert_entry [OF assms(9,10)] by simp
qed

theorem sort_inserts_witness:
  "\<exists>c c'. pupa_sort True c (W64 128) (W64 2) 64 ((probe (mk_str key_c))\<lparr>w_key := Off 0\<rparr>) = Some c' \<and>
     map fst (entries (mbytes c') 128 2) = [skey key_b, skey key_c]"
proof -
  have pos: "insert_pos (skey key_c) [skey key_b] = 1"
    using key_order(1) by (simp add: insert_pos_def)
  have ne: "skey key_c \<notin> fst ` set [(skey key_b, [stored [49]])]" using key_order(1) by auto
  let ?s = "view_of demo1"
  let ?s3 = "insert_view ?s key_c [50]"
  have w: "writer ?s demo1 (unat (store_items demo1))"
    using demo1_facts(1) by (simp add: writer_ok_def)
  have room: "has_room ?s key_c [50]" "cstr (mk_str key_c) key_c"
    by (simp_all add: demo1_facts has_room_def demo_keys)
  have bases: "i_snap ?s = 128" "v_used ?s = 1" "k_base ?s3 = 736" "v_base ?s3 = 2784"
    by (simp_all add: demo1_facts areas)
  have we: "entries (mbytes demo1) (unat (store_items demo1)) 1 = [(skey key_b, [stored [49]])]"
    using writer_work [OF w] by (simp add: demo1_facts)
  let ?c3 = "(start_ctx ?s demo1 (unat (store_items demo1)))
      \<lparr>mbytes := appended_bytes ?s (unat (store_items demo1)) key_c [50] (mbytes demo1)\<rparr>"
  note rc = set_resort_call [OF w room(2,1) refl refl, unfolded bases]
  have "\<exists>c'. pupa_sort True ?c3 (W64 128) (W64 (1 + 1)) 64 ((probe (mk_str key_c))\<lparr>w_key := Off 0\<rparr>) =
        Some c' \<and>
      entries (mbytes c') 128 (1 + 1) =
        insert_entry [(skey key_b, [stored [49]])] (skey key_c) [stored [50]] \<and>
      sorted_wrt (<) (map fst
        (insert_entry [(skey key_b, [stored [49]])] (skey key_c) [stored [50]])) \<and>
      rd_hdr (mbytes c') = rd_hdr (mbytes ?c3)"
    by (rule sort_inserts [OF rc(2,6) _ _ _ _ rc(3) rc(4) [unfolded we]])
      (use pos ne bases rc(5) in \<open>simp_all add: demo_keys [symmetric] we, simp_all add: demo_keys\<close>)
  then obtain c' where "pupa_sort True ?c3 (W64 128) (W64 2) 64
        ((probe (mk_str key_c))\<lparr>w_key := Off 0\<rparr>) = Some c'"
      "map fst (entries (mbytes c') 128 2) = [skey key_b, skey key_c]"
    using pos by (auto simp: insert_entry_def numeral_2_eq_2)
  then show ?thesis by (intro exI conjI)
qed

text \<open>
  C15: A new key smaller than all present ones makes \<open>pupa_store_set\<close> recurse for ever (or until
  it faults) when the number of entries is not one that halves down to \<open>[0, 0]\<close>: 1, 4, 5, 10
  and so on. Stated for writes to the first index area, every other one.
\<close>

theorem set_never_returns:
  assumes "writer_ok c" "cstr key kb" "cstr val vb" "work_map c (skey kb) = None"
    "has_room (view_of c) kb vb" "malloc_ok env"
    "\<forall>k \<in> fst ` set (work_entries c). skey kb < k" "\<not> left_ok (v_used (view_of c))"
    "\<not> v_item_one (view_of c)" "length kb + 1 \<noteq> 224 + 32 * v_keys (view_of c)"
  shows "pupa_store_set env c key val = None"
proof -
  have w: "writer (view_of c) c (unat (store_items c))" using assms(1) by (simp add: writer_ok_def)
  note we = writer_work [OF w]
  have new: "skey kb \<notin> fst ` set (work_entries c)"
    using assms(4) by (simp add: work_map_def map_of_eq_None_iff)
  have "insert_pos (skey kb) (map fst (work_entries c)) = 0"
  proof (cases "work_entries c")
    case (Cons e es)
    then have "skey kb < fst e" using assms(7) by simp
    then show ?thesis by (simp add: insert_pos_def Cons order_less_not_sym)
  qed (simp add: insert_pos_def)
  then show ?thesis
    using set_stuck [OF w assms(2,3,5,6)] new assms(8-10) by (simp add: we)
qed

theorem set_never_returns_witness:
  "pupa_store_set env_good demo1 (mk_str key_a) (mk_str [50]) = None"
proof -
  have lt: "skey key_a < skey key_b" by (rule key_order(2))
  then have ne: "skey key_a \<noteq> skey key_b" by auto
  have a: "cstr (mk_str key_a) key_a" "cstr (mk_str [50]) [50]" "work_map demo1 (skey key_a) = None"
    "has_room (view_of demo1) key_a [50]"
    "\<forall>k \<in> fst ` set (work_entries demo1). skey key_a < k" "\<not> left_ok (v_used (view_of demo1))"
    "\<not> v_item_one (view_of demo1)" "length key_a + 1 \<noteq> 224 + 32 * v_keys (view_of demo1)"
    using ne lt by (simp_all add: demo1_facts has_room_def left_ok.simps) (simp_all add: demo_keys)
  show ?thesis by (rule set_never_returns [OF demo1_facts(1) a(1-4) demo_sync(2) a(5-8)])
qed

text \<open>
  C16: When \<open>malloc\<close> fails in \<open>pupa_sort\<close>, the call still reports success, and the new entry
  stays behind the others; if its key is not the largest, the index is no longer sorted.
\<close>

theorem set_unsorted_without_memory:
  assumes "writer_ok c" "cstr key kb" "cstr val vb" "work_map c (skey kb) = None"
    "has_room (view_of c) kb vb" "\<not> malloc_ok env" "msync_ok env"
  shows "\<exists>c'. pupa_store_set env c key val = Some (PUPA_OK, c') \<and>
     store_entries c' = work_entries c @ [(skey kb, [stored vb])] \<and>
     ((\<exists>k \<in> fst ` set (work_entries c). skey kb < k) \<longrightarrow> \<not> store_wf c')"
proof -
  have w: "writer (view_of c) c (unat (store_items c))" using assms(1) by (simp add: writer_ok_def)
  note we = writer_work [OF w] and v = view_okD [OF writerD(5) [OF w]]
  have new: "skey kb \<notin> fst ` set (work_entries c)"
    using assms(4) by (simp add: work_map_def map_of_eq_None_iff)
  let ?s' = "switched (insert_view (view_of c) kb vb)"
  obtain c' where c': "pupa_store_set env c key val = Some (PUPA_OK, c')"
    "rd_hdr (mbytes c') = view_hdr ?s'"
    "entries (mbytes c') (i_base ?s') (v_used ?s') = work_entries c @ [(skey kb, [stored vb])]"
    using set_unsorted [OF w assms(2,3,5,6) _ refl] new assms(7)
    by (auto simp: we pupa_shm_sync_def)
  have "view_of c' = ?s'"
    using v assms(5) by (intro view_of_hdr [OF c'(2)]) (auto simp: has_room_def)
  then have es: "store_entries c' = work_entries c @ [(skey kb, [stored vb])]"
    using c'(3) by (simp add: store_entries_def)
  have "\<not> store_wf c'" if "\<exists>k \<in> fst ` set (work_entries c). skey kb < k"
  proof
    assume "store_wf c'"
    then have wv: "wf_view (view_of c') c'" by (simp add: store_wf_def)
    have "sorted_wrt (<) (map fst (store_entries c'))"
      using wf_viewD(9) [OF wv] by (simp add: store_entries_view [OF wv])
    then show False using that by (auto simp: es sorted_wrt_append dest: order_less_asym)
  qed
  then show ?thesis using c'(1) es by blast
qed

theorem set_unsorted_without_memory_witness:
  "\<exists>c'. pupa_store_set (env_good\<lparr>malloc_ok := False\<rparr>) demo1 (mk_str key_a) (mk_str [50]) =
       Some (PUPA_OK, c') \<and> \<not> store_wf c'"
proof -
  have lt: "skey key_a < skey key_b" by (rule key_order(2))
  then have ne: "skey key_a \<noteq> skey key_b" by auto
  have a: "cstr (mk_str key_a) key_a" "cstr (mk_str [50]) [50]" "work_map demo1 (skey key_a) = None"
    "has_room (view_of demo1) key_a [50]" "\<not> malloc_ok (env_good\<lparr>malloc_ok := False\<rparr>)"
    "msync_ok (env_good\<lparr>malloc_ok := False\<rparr>)"
    using ne by (simp_all add: demo1_facts has_room_def env_good_def) (simp_all add: demo_keys)
  have "\<exists>k \<in> fst ` set (work_entries demo1). skey key_a < k" using lt by (simp add: demo1_facts)
  then show ?thesis
    using set_unsorted_without_memory [OF demo1_facts(1) a] by blast
qed

section \<open>Deleting\<close>

text \<open>C17: Deleting a key that is not there reports it and changes nothing a lookup can see.\<close>

theorem del_absent_key:
  assumes "writer_ok c" "cstr key kb" "work_map c (skey kb) = None"
  shows "\<exists>c'. pupa_store_del env c key = Some (PUPA_NOT_FOUND, c') \<and> store_wf c' \<and>
     store_map c' = store_map c \<and> view_of c' = view_of c"
proof -
  have w: "writer (view_of c) c (unat (store_items c))" using assms(1) by (simp add: writer_ok_def)
  have new: "skey kb \<notin> fst ` set (entries (mbytes c) (unat (store_items c)) (v_used (view_of c)))"
    using assms(3) by (simp add: work_map_def writer_work [OF w] map_of_eq_None_iff)
  note s = start_ctx_wf [OF w]
  show ?thesis
    using del_absent [OF w assms(2) new] wf_view_wf [OF s(1)] s(2) wf_view_view [OF s(1)] by blast
qed

theorem del_absent_key_witness:
  "\<exists>c'. pupa_store_del env_good demo2 (mk_str key_a) = Some (PUPA_NOT_FOUND, c') \<and>
     store_map c' = [skey key_b \<mapsto> [stored [49]], skey key_c \<mapsto> [stored [50]]]"
proof -
  have "cstr (mk_str key_a) key_a" "work_map demo2 (skey key_a) = None"
    by (simp_all add: demo2_facts) (simp_all add: demo_keys stored_def)
  from del_absent_key [OF demo2_facts(1) this, of env_good] show ?thesis
    by (auto simp: demo2_facts)
qed

text \<open>C18: Deleting the largest key removes it and keeps the others.\<close>

theorem del_last_key:
  assumes "writer_ok c" "cstr key kb" "work_entries c = es @ [(skey kb, vs)]"
  shows "\<exists>c'. pupa_store_del env c key = Some (if msync_ok env then PUPA_OK else PUPA_ERROR, c') \<and>
     writer_ok c' \<and> store_entries c' = es \<and> store_map c' = (work_map c)(skey kb := None)"
proof -
  have w: "writer (view_of c) c (unat (store_items c))" using assms(1) by (simp add: writer_ok_def)
  note we = writer_work [OF w]
  have u: "v_used (view_of c) = Suc (length es)"
    using arg_cong [OF assms(3), of length] by (simp add: we)
  have "work_entries c ! length es = (skey kb, vs)" by (simp add: assms(3))
  then have i: "item_key (mbytes c) (unat (store_items c) + 64 * length es) = skey kb"
    using u by (simp add: we entry_def)
  obtain c' where c': "pupa_store_del env c key = Some (pupa_shm_sync env c', c')"
    "writer (drop_view (view_of c)) c' (unat (store_items c))"
    "store_entries c' = butlast (work_entries c)"
    using del_drops_last [OF w assms(2) _ i, of env] u by (auto simp: we)
  have "sorted_wrt (<) (map fst (work_entries c))"
    using index_okD(2) [OF writerD(4) [OF w]] by (simp add: we)
  then have "skey kb \<notin> fst ` set es"
    by (auto simp: assms(3) sorted_wrt_append)
  then have "map_of es (skey kb) = None" by (simp add: map_of_eq_None_iff)
  then have "map_of es = (work_map c)(skey kb := None)"
    by (auto simp: work_map_def assms(3) fun_eq_iff map_add_def split: option.splits)
  then show ?thesis
    using c' writer_writer_ok [OF c'(2)]
    by (intro exI [of _ c']) (simp add: pupa_shm_sync_def store_map_def assms(3))
qed

theorem del_last_key_witness:
  "\<exists>c'. pupa_store_del env_good demo2 (mk_str key_c) = Some (PUPA_OK, c') \<and>
     store_entries c' = [(skey key_b, [stored [49]])]"
proof -
  have "cstr (mk_str key_c) key_c"
    "work_entries demo2 = [(skey key_b, [stored [49]])] @ [(skey key_c, [stored [50]])]"
    by (simp_all add: demo2_facts) (simp add: demo_keys)
  from del_last_key [OF demo2_facts(1) this, of env_good] show ?thesis
    by (auto simp: env_good_def)
qed

text \<open>
  C19: Deleting a key from the last three quarters of the index that is not the largest reports
  success, keeps the key and drops the largest one instead.
\<close>

theorem del_drops_wrong_key:
  assumes "writer_ok c" "cstr key kb" "i + 1 < length (work_entries c)"
    "fst (work_entries c ! i) = skey kb" "length (work_entries c) \<le> 4 * i + 1" "msync_ok env"
  shows "\<exists>c'. pupa_store_del env c key = Some (PUPA_OK, c') \<and> store_wf c' \<and>
     store_map c' (skey kb) = work_map c (skey kb) \<and> store_map c' (skey kb) \<noteq> None \<and>
     store_map c' (fst (last (work_entries c))) = None"
proof -
  have w: "writer (view_of c) c (unat (store_items c))" using assms(1) by (simp add: writer_ok_def)
  note we = writer_work [OF w]
  have u: "v_used (view_of c) = length (work_entries c)" by (simp add: we)
  have i: "i < v_used (view_of c)" "item_key (mbytes c) (unat (store_items c) + 64 * i) = skey kb"
    using assms(3,4) by (simp_all add: we entry_def)
  obtain c' where c': "pupa_store_del env c key = Some (PUPA_OK, c')"
    "writer (drop_view (view_of c)) c' (unat (store_items c))"
    "store_entries c' = butlast (work_entries c)"
    using del_drops_last [OF w assms(2) i, of env] assms(5,6) by (auto simp: we pupa_shm_sync_def)
  let ?es = "work_entries c"
  have ne: "?es \<noteq> []" using assms(3) by auto
  have "sorted_wrt (<) (map fst ?es)" using index_okD(2) [OF writerD(4) [OF w]] by (simp add: we)
  then have dst: "distinct (map fst ?es)" by (simp add: strict_sorted_iff)
  have split: "?es = butlast ?es @ [last ?es]" using ne by simp
  have bi: "butlast ?es ! i = ?es ! i" "i < length (butlast ?es)"
    using assms(3) by (simp_all add: nth_butlast)
  have "distinct (map fst (butlast ?es) @ [fst (last ?es)])"
    using dst by (subst (asm) split) simp
  then have d: "distinct (map fst (butlast ?es))" "fst (last ?es) \<notin> fst ` set (butlast ?es)"
    by simp_all
  have "(skey kb, snd (?es ! i)) \<in> set (butlast ?es)"
    using nth_mem [OF bi(2)] bi(1) assms(4) by (metis prod.collapse)
  then have "map_of (butlast ?es) (skey kb) = Some (snd (?es ! i))" using d(1) by simp
  moreover have "map_of ?es (skey kb) = Some (snd (?es ! i))"
    using dst nth_mem [of i ?es] assms(3,4) by (metis add_lessD1 map_of_eq_Some_iff prod.collapse)
  moreover have "map_of (butlast ?es) (fst (last ?es)) = None"
    using d(2) by (simp add: map_of_eq_None_iff)
  ultimately show ?thesis
    using c' writer_ok_wf [OF writer_writer_ok [OF c'(2)]]
    by (intro exI [of _ c']) (simp add: store_map_def work_map_def)
qed

theorem del_drops_wrong_key_witness:
  "\<exists>c'. pupa_store_del env_good demo5 (mk_str key_c) = Some (PUPA_OK, c') \<and>
     store_map c' (skey key_c) \<noteq> None \<and> store_map c' (skey key_d) = None"
proof -
  have a: "cstr (mk_str key_c) key_c" "1 + 1 < length (work_entries demo5)"
    "fst (work_entries demo5 ! 1) = skey key_c" "length (work_entries demo5) \<le> 4 * 1 + 1"
    by (simp_all add: demo5_facts) (simp add: demo_keys)
  show ?thesis
    using del_drops_wrong_key [OF demo5_facts(1) a env_good_ok(2)] by (auto simp: demo5_facts)
qed

text \<open>
  C20: Deleting a key with three versions from the first quarter of the index reports success
  and leaves a store that is not well formed: the bytes behind the entry move by one item
  header, not by one entry, and a value record is read as a key.
\<close>

theorem del_breaks_index:
  assumes "writer_ok c" "cstr key kb" "4 * i + 1 < length (work_entries c)"
    "fst (work_entries c ! i) = skey kb" "length (snd (work_entries c ! i)) = 3" "msync_ok env"
  shows "\<exists>c'. pupa_store_del env c key = Some (PUPA_OK, c') \<and> \<not> store_wf c'"
proof -
  have w: "writer (view_of c) c (unat (store_items c))" using assms(1) by (simp add: writer_ok_def)
  note we = writer_work [OF w]
  have i: "i < v_used (view_of c)" "item_key (mbytes c) (unat (store_items c) + 64 * i) = skey kb"
    "4 * i + 1 < v_used (view_of c)"
    "unat (val_cnt (rd_item (mbytes c) (unat (store_items c) + 64 * i))) = 3"
    using assms(3-5) by (simp_all add: we entry_def)
  show ?thesis
    using del_breaks [OF w assms(2) i(1-3), of env] i(4) assms(6) by (auto simp: pupa_shm_sync_def)
qed

theorem del_breaks_index_witness:
  "\<exists>c'. pupa_store_del env_good demo4 (mk_str key_b) = Some (PUPA_OK, c') \<and> \<not> store_wf c'"
proof -
  have a: "cstr (mk_str key_b) key_b" "4 * 0 + 1 < length (work_entries demo4)"
    "fst (work_entries demo4 ! 0) = skey key_b" "length (snd (work_entries demo4 ! 0)) = 3"
    by (simp_all add: demo4_facts) (simp add: demo_keys)
  show ?thesis by (rule del_breaks_index [OF demo4_facts(1) a env_good_ok(2)])
qed

section \<open>Readers\<close>

lemma demo1_write:
  "cstr (mk_str key_c) key_c" "cstr (mk_str [50]) [50]" "set_ready demo1 key_c [50]"
  "work_map demo1 (skey key_c) = None"
proof -
  have "insert_pos (skey key_c) [skey key_b] = 1" "skey key_c \<noteq> skey key_b"
    using key_order(1) by (auto simp: insert_pos_def)
  then show "cstr (mk_str key_c) key_c" "cstr (mk_str [50]) [50]" "set_ready demo1 key_c [50]"
    "work_map demo1 (skey key_c) = None"
    by (simp_all add: set_ready_def demo1_facts has_room_def search_returns_def)
      (simp_all add: demo_keys)
qed

lemma demo1_rewrite:
  "cstr (mk_str key_b) key_b" "cstr (mk_str [51]) [51]" "set_ready demo1 key_b [51]"
  "work_map demo1 (skey key_b) = Some [stored [49]]"
proof -
  show w: "work_map demo1 (skey key_b) = Some [stored [49]]" by (simp add: demo1_facts)
  then show "set_ready demo1 key_b [51]" by (simp add: set_ready_def val_room_def demo1_facts)
qed (simp_all add: demo_keys)

text \<open>
  C21: Readers are not protected while a key is inserted: the new count is in the header before
  the section is switched. In a store with one key (its second slot never used), a reader in
  another process then finds none of the keys, the present one included.
\<close>

theorem reader_misses_key:
  assumes "writer_ok c" "cstr key kb" "cstr val vb" "has_room (view_of c) kb vb"
    "v_used (view_of c) = 1" "key_len (rd_item (mbytes c) (i_base (view_of c) + 64)) = 0"
    "set_counted c key val = Some c2" "maps_file r (ctx_file c2)"
    "cstr key0 kb0" "sint ver \<le> 3"
  shows "\<exists>r'. pupa_store_get r key0 ver = Some (PUPA_NOT_FOUND, None, r')"
proof -
  have w: "writer (view_of c) c (unat (store_items c))" using assms(1) by (simp add: writer_ok_def)
  have r: "mapped r" "mbytes r = mbytes c2" "msize r = msize c2"
    using assms(8) by (simp_all add: maps_file_def ctx_file_def)
  show ?thesis by (rule reader_misses [OF w assms(2-7) r assms(9,10)])
qed

theorem reader_misses_key_witness:
  "\<exists>c2 r r'. set_counted demo1 (mk_str key_c) (mk_str [50]) = Some c2 \<and>
     maps_file r (ctx_file c2) \<and> store_map demo1 (skey key_b) \<noteq> None \<and>
     pupa_store_get r (mk_str key_b) 1 = Some (PUPA_NOT_FOUND, None, r')"
proof -
  have w: "writer (view_of demo1) demo1 (unat (store_items demo1))"
    using demo1_facts(1) by (simp add: writer_ok_def)
  have a: "cstr (mk_str key_c) key_c" "cstr (mk_str [50]) [50]" "has_room (view_of demo1) key_c [50]"
    "v_used (view_of demo1) = 1" "cstr (mk_str key_b) key_b" "sint (1 :: c_int) \<le> 3"
    by (simp_all add: demo1_facts has_room_def) (simp_all add: demo_keys)
  have new: "skey key_c \<notin> fst ` set (entries (mbytes demo1) (unat (store_items demo1)) (v_used (view_of demo1)))"
    using demo1_write(4) by (simp add: work_map_def writer_work [OF w] map_of_eq_None_iff)
  obtain c2 where c2: "set_counted demo1 (mk_str key_c) (mk_str [50]) = Some c2"
    "mapped c2"
    using set_counted_eq [OF w a(1-3) new] by (auto simp: hdr_ok_def)
  have "\<exists>r'. pupa_store_get c2 (mk_str key_b) 1 = Some (PUPA_NOT_FOUND, None, r')"
    by (rule reader_misses_key [OF demo1_facts(1) a(1-4) demo1_slot c2(1) maps_ctx_file [OF c2(2)]
        a(5,6)])
  then show ?thesis
    using c2 maps_ctx_file [OF c2(2)] by (fastforce simp: demo1_facts)
qed

section \<open>The steps of a write\<close>

lemma demo1_snapped:
  obtains c1 where
    "write_steps env_good (mk_str key_c) (mk_str [50]) (Begin, demo1) (Snapped, c1)" "mapped c1"
proof -
  have w: "writer (view_of demo1) demo1 (unat (store_items demo1))"
    using demo1_facts(1) by (simp add: writer_ok_def)
  note st = write_start [OF w demo1_write(1)]
  show ?thesis
    by (rule that [OF r_into_rtranclp [where r = "write_step _ _ _", OF write_step.snapshot [OF st(1)]] hdr_okD(1) [OF st(2)]])
qed

text \<open>
  C22: A write that finds room completes from every state its steps reach, with no choice and no
  state without a next step on the way: at most ten steps in all, \<open>steps_left\<close> from there. It
  reports success or the failure of \<open>msync\<close>, and the store is the old one with the new value.
\<close>

theorem write_completes:
  assumes "writer_ok c" "cstr key kb" "cstr val vb" "set_ready c kb vb" "malloc_ok env"
    "write_steps env key val (Begin, c) st"
  shows "\<exists>n c'. n \<le> steps_left (fst st) \<and>
     (write_step env key val ^^ n) st
       (Returned (if msync_ok env then PUPA_OK else PUPA_ERROR), c') \<and>
     writer_ok c' \<and> 
     store_map c' = (work_map c)(skey kb \<mapsto> take 3 (stored vb # versions (work_map c (skey kb))))"
proof -
  obtain pc c1 where st: "st = (pc, c1)" by (cases st)
  obtain c' where c': "pupa_store_set env c key val = Some (pupa_shm_sync env c', c')"
    "write_steps env key val (pc, c1) (Returned (pupa_shm_sync env c'), c')"
    by (rule write_reach [OF assms(1-5) assms(6) [unfolded st]])
  obtain n where n: "n \<le> steps_left pc"
    "(write_step env key val ^^ n) (pc, c1) (Returned (pupa_shm_sync env c'), c')"
    by (rule steps_bounded [OF c'(2)]) simp
  have "writer_ok c'"
    "store_map c' = (work_map c)(skey kb \<mapsto> take 3 (stored vb # versions (work_map c (skey kb))))"
    using set_any_key [OF assms(1-5)] c'(1) by auto
  then show ?thesis
    using n st by (intro exI [of _ n] exI [of _ c']) (simp add: pupa_shm_sync_def)
qed

theorem write_completes_witness:
  "\<exists>c1 n c'. write_steps env_good (mk_str key_c) (mk_str [50]) (Begin, demo1) (Snapped, c1) \<and>
     n \<le> 9 \<and> (write_step env_good (mk_str key_c) (mk_str [50]) ^^ n) (Snapped, c1)
       (Returned PUPA_OK, c') \<and>
     store_map c' = [skey key_b \<mapsto> [stored [49]], skey key_c \<mapsto> [stored [50]]]"
proof -
  obtain c1 where c1:
    "write_steps env_good (mk_str key_c) (mk_str [50]) (Begin, demo1) (Snapped, c1)"
    by (rule demo1_snapped)
  show ?thesis
    using c1 write_completes [OF demo1_facts(1) demo1_write(1-3) demo_sync(2) c1] demo1_write(4)
    by (fastforce simp: demo1_facts env_good_def versions_def)
qed

text \<open>A reader of \<open>demo1\<close> that takes the \<open>id\<close> before a write and the rest after it.\<close>

lemma demo1_torn:
  assumes key: "cstr key kb" and val: "cstr val vb" and r: "set_ready demo1 kb vb"
  obtains st h c' where
    "write_steps env_good key val (Begin, demo1) (st 0)"
    "\<forall>i < 4. write_steps env_good key val (st i) (st (Suc i))"
    "\<forall>i < 5. load_hdr (snd (st i)) = Some (h i)"
    "\<not> published (fst (st 1))" "published (fst (st 3))"
    "pupa_store_set env_good demo1 key val = Some (PUPA_OK, c')" "st 3 = (Returned PUPA_OK, c')"
    "reads_from env_good key val (st 3) c'" "writer_ok c'"
proof -
  have w: "writer (view_of demo1) demo1 (unat (store_items demo1))"
    using demo1_facts(1) by (simp add: writer_ok_def)
  note st = write_start [OF w key]
  let ?c1 = "start_ctx (view_of demo1) demo1 (unat (store_items demo1))"
  have s1: "write_steps env_good key val (Begin, demo1) (Snapped, ?c1)"
    by (intro r_into_rtranclp write_step.snapshot st(1))
  obtain c' where c': "pupa_store_set env_good demo1 key val = Some (PUPA_OK, c')"
    "write_steps env_good key val (Snapped, ?c1) (Returned PUPA_OK, c')"
    by (rule write_reach [OF demo1_facts(1) key val r demo_sync(2) s1]) (simp only: demo_sync(1))
  have wc: "writer_ok c'"
    using set_any_key [OF demo1_facts(1) key val r demo_sync(2)] c'(1) by auto
  then have wf: "wf_view (view_of c') c'" using writer_ok_wf by (simp add: store_wf_def)
  define st where "st i = (if i \<le> (1::nat) then (Snapped, ?c1) else (Returned PUPA_OK, c'))" for i
  define h where "h i = (if i \<le> (1::nat) then view_hdr (view_of demo1) else view_hdr (view_of c'))" for i
  show ?thesis
  proof (rule that [of st h c'])
    show "\<forall>i < 4. write_steps env_good key val (st i) (st (Suc i))" using c'(2) by (simp add: st_def)
    show "\<forall>i < 5. load_hdr (snd (st i)) = Some (h i)"
      using hdr_okD(6) [OF st(2)] load_hdr_wf [OF wf] by (simp add: st_def h_def)
    show "reads_from env_good key val (st 3) c'"
      using wf by (auto simp: st_def reads_from_def wf_view_def)
  qed (use s1 c'(1) wc in \<open>simp_all add: st_def\<close>)
qed

text \<open>
  C23: A lookup of another process that runs while a write that finds room is under way. It reads
  the fields of the header one after the other, each in a state of the write of its own
  (\<open>st 1\<close>: the \<open>id\<close> of the index, \<open>st 3\<close>: the count), and every byte behind the header in any
  later state, before or behind the switch. It gets what the store held before the write if it
  took the \<open>id\<close> before the switch, and what the store holds after it otherwise, never a mixture;
  except when the write adds a key and the lookup takes the \<open>id\<close> before the switch but the count
  after it was increased.
\<close>

theorem readers_see_old_or_new:
  assumes "writer_ok c" "cstr key kb" "cstr val vb" "set_ready c kb vb" "malloc_ok env"
    "write_steps env key val (Begin, c) (st 0)"
    "\<forall>i < 4. write_steps env key val (st i) (st (Suc i))"
    "\<forall>i < 5. load_hdr (snd (st i)) = Some (h i)"
    "reads_from env key val (st 3) r"
    "work_map c (skey kb) = None \<longrightarrow> published (fst (st 1)) \<or> \<not> counted (fst (st 3))"
    "cstr key0 kb0" "1 \<le> sint ver"
    "m = (if published (fst (st 1))
      then (work_map c)(skey kb \<mapsto> take 3 (stored vb # versions (work_map c (skey kb))))
      else store_map c)"
  shows "\<exists>v r'. lookup_reads h r key0 ver = Some (fst (get_spec (m (skey kb0)) (sint ver)), v, r') \<and>
     result_denotes r v (snd (get_spec (m (skey kb0)) (sint ver)))"
proof (rule torn_lookup [OF assms(1-6) _ _ assms(9) _ assms(11-13)])
  show "work_map c (skey kb) = None \<Longrightarrow> published (fst (st 1)) \<or> \<not> counted (fst (st 3))"
    using assms(10) by blast
qed (use assms(7,8) in blast)+

theorem readers_see_old_or_new_witness:
  "\<exists>h c' v r'. pupa_store_set env_good demo1 (mk_str key_b) (mk_str [51]) = Some (PUPA_OK, c') \<and>
     store_map c' (skey key_b) = Some [stored [51], stored [49]] \<and>
     lookup_reads h c' (mk_str key_b) 1 = Some (PUPA_OK, v, r') \<and>
     result_denotes c' v (Some (stored [49]))"
proof -
  obtain st h c' where t:
    "write_steps env_good (mk_str key_b) (mk_str [51]) (Begin, demo1) (st 0)"
    "\<forall>i < 4. write_steps env_good (mk_str key_b) (mk_str [51]) (st i) (st (Suc i))"
    "\<forall>i < 5. load_hdr (snd (st i)) = Some (h i)"
    "\<not> published (fst (st 1))" "published (fst (st 3))"
    "pupa_store_set env_good demo1 (mk_str key_b) (mk_str [51]) = Some (PUPA_OK, c')"
    "st 3 = (Returned PUPA_OK, c')"
    "reads_from env_good (mk_str key_b) (mk_str [51]) (st 3) c'" "writer_ok c'"
    by (rule demo1_torn [OF demo1_rewrite(1-3)])
  have "store_map c' (skey key_b) = Some [stored [51], stored [49]]"
    using set_any_key [OF demo1_facts(1) demo1_rewrite(1-3) demo_sync(2)] t(6) demo1_rewrite(4) by auto
  moreover have "\<exists>v r'. lookup_reads h c' (mk_str key_b) 1 = Some (PUPA_OK, v, r') \<and>
     result_denotes c' v (Some (stored [49]))"
    using readers_see_old_or_new [OF demo1_facts(1) demo1_rewrite(1-3) demo_sync(2) t(1-3,8) _
        demo1_rewrite(1) _ refl, of 1] demo1_rewrite(4) t(4) by (simp add: demo1_facts get_spec_def)
  ultimately show ?thesis using t(6) by blast
qed

text \<open>
  C24: The exception of the claim before is real, also for a lookup that starts before the write
  and reads on after it: with the \<open>id\<close> of the old index and the count of the new one it searches
  one entry too many. In a store with one key (its second slot never used) it then finds no key at
  all, though that key is in the store before, during and after the write.
\<close>

theorem late_count_hides_keys:
  assumes "writer_ok c" "cstr key kb" "cstr val vb" "set_ready c kb vb" "malloc_ok env"
    "work_map c (skey kb) = None"
    "write_steps env key val (Begin, c) (st 0)"
    "\<forall>i < 4. write_steps env key val (st i) (st (Suc i))"
    "\<forall>i < 5. load_hdr (snd (st i)) = Some (h i)"
    "reads_from env key val (st 3) r"
    "\<not> published (fst (st 1))" "counted (fst (st 3))"
    "v_used (view_of c) = 1" "key_len (rd_item (mbytes c) (i_base (view_of c) + 64)) = 0"
    "cstr key0 kb0" "sint ver \<le> 3"
  shows "\<exists>r'. lookup_reads h r key0 ver = Some (PUPA_NOT_FOUND, None, r')"
  by (rule late_lookup [OF assms(1-7) _ _ assms(10-16)]) (use assms(8,9) in blast)+

theorem late_count_hides_keys_witness:
  "\<exists>h c' r'. store_map demo1 (skey key_b) = Some [stored [49]] \<and>
     pupa_store_set env_good demo1 (mk_str key_c) (mk_str [50]) = Some (PUPA_OK, c') \<and>
     store_map c' (skey key_b) = Some [stored [49]] \<and>
     lookup_reads h c' (mk_str key_b) 1 = Some (PUPA_NOT_FOUND, None, r')"
proof -
  obtain st h c' where t:
    "write_steps env_good (mk_str key_c) (mk_str [50]) (Begin, demo1) (st 0)"
    "\<forall>i < 4. write_steps env_good (mk_str key_c) (mk_str [50]) (st i) (st (Suc i))"
    "\<forall>i < 5. load_hdr (snd (st i)) = Some (h i)"
    "\<not> published (fst (st 1))" "published (fst (st 3))"
    "pupa_store_set env_good demo1 (mk_str key_c) (mk_str [50]) = Some (PUPA_OK, c')"
    "st 3 = (Returned PUPA_OK, c')"
    "reads_from env_good (mk_str key_c) (mk_str [50]) (st 3) c'" "writer_ok c'"
    by (rule demo1_torn [OF demo1_write(1-3)])
  have "skey key_c \<noteq> skey key_b" using key_order(1) by auto
  then have "store_map c' (skey key_b) = Some [stored [49]]"
    using set_any_key [OF demo1_facts(1) demo1_write(1-3) demo_sync(2)] t(6)
    by (auto simp: demo1_facts)
  moreover have "v_used (view_of demo1) = 1" "sint (1 :: c_int) \<le> 3" "counted (fst (st 3))"
    using t(5) by (simp_all add: demo1_facts counted_def)
  then have "\<exists>r'. lookup_reads h c' (mk_str key_b) 1 = Some (PUPA_NOT_FOUND, None, r')"
    using late_count_hides_keys [OF demo1_facts(1) demo1_write(1-3) demo_sync(2) demo1_write(4)
        t(1-3,8,4) _ _ demo1_slot demo1_rewrite(1)] by blast
  ultimately show ?thesis using t(6) by (auto simp: demo1_facts)
qed

text \<open>
  C25: What a lookup returned before a write that finds room stays valid while the write is under
  way and after it: in every state the steps reach, the offset and length lead to the same bytes.
\<close>

theorem returned_values_stay:
  assumes "writer_ok c" "cstr key kb" "cstr val vb" "set_ready c kb vb" "malloc_ok env"
    "maps_file r (ctx_file c)" "cstr key0 kb0" "1 \<le> sint ver"
    "pupa_store_get r key0 ver = Some (PUPA_OK, Some v, r1)" "denotes r v bs"
    "write_steps env key val (Begin, c) (pc, c1)" "maps_file r2 (ctx_file c1)"
  shows "denotes r2 v bs"
proof -
  obtain c' where ok: "run_ok (view_of c) c c' (pc, c1)"
    by (rule write_reach [OF assms(1-5,11)])
  have wf: "store_wf c" by (rule writer_ok_wf [OF assms(1)])
  then have mc: "mapped c" by (simp add: store_wf_def wf_view_def)
  note f = maps_fileD [OF assms(6)] maps_fileD [OF maps_ctx_file [OF mc]]
  have r: "store_wf r" "view_of r = view_of c" "mbytes r = mbytes c" "msize r = msize c"
    using f wf assms(6) by (simp_all add: maps_file_def ctx_file_def)
  obtain w where w: "v = val_ref w" "val_ok (view_of r) (mbytes r) w"
    by (rule get_ok_ref [OF r(1) assms(7,8,9)])
  have "keeps (view_of r) (mbytes r) (mbytes r2)" "msize r2 = msize r"
    using ok assms(12) r by (simp_all add: run_ok_def maps_file_def ctx_file_def)
  then show ?thesis using ref_stays [OF w(2)] assms(10) w(1) by blast
qed

theorem returned_values_stay_witness:
  "\<exists>r1 v c'. pupa_store_get demo1 (mk_str key_b) 1 = Some (PUPA_OK, Some v, r1) \<and>
     pupa_store_set env_good demo1 (mk_str key_c) (mk_str [50]) = Some (PUPA_OK, c') \<and>
     denotes c' v (stored [49])"
proof -
  have k: "cstr (mk_str key_b) key_b" "store_map demo1 (skey key_b) = Some [stored [49]]"
    by (simp_all add: demo_keys demo1_facts)
  have W: "W32 (Suc 0) = 1" by (simp add: W32_def)
  obtain v where v: "pupa_store_get demo1 (mk_str key_b) 1 = Some (PUPA_OK, Some v, refresh demo1)"
    "denotes demo1 v (stored [49])"
    using get_present [OF demo1_facts(5) k, of 1] by (auto simp: W)
  obtain c' where c': "pupa_store_set env_good demo1 (mk_str key_c) (mk_str [50]) = Some (PUPA_OK, c')"
    "writer_ok c'"
    using set_any_key [OF demo1_facts(1) demo1_write(1-3) demo_sync(2)] by auto
  have m: "mapped demo1" "mapped c'" 
    using demo1_facts(5) writer_ok_wf [OF c'(2)] by (simp_all add: store_wf_def wf_view_def)
  have "denotes c' v (stored [49])"
    by (rule returned_values_stay [OF demo1_facts(1) demo1_write(1-3) demo_sync(2)
          maps_ctx_file [OF m(1)] k(1) _ v c'(1) [unfolded set_iff_steps] maps_ctx_file [OF m(2)]])
      simp
  then show ?thesis using v(1) c'(1) by blast
qed

section \<open>Compaction\<close>

text \<open>
  C26: The compaction of the value section does not copy the values: it looks for the records of
  an entry 256 bytes behind it. In a store with one key and one value, two writes of values that
  do not fit succeed, the second one over the first value: version 3 of the key is then, with
  \<open>PUPA_OK\<close>, the beginning of the newest value. The store has at least 30 keys, and the slots
  behind the entry were never used.
\<close>

theorem compaction_overwrites_value:
  assumes "writer_ok c" "synced c" "n = v_keys (view_of c)" "store_entries c = [(skey kb, [stored v0])]"
    "v_val_used (view_of c) = length v0 + 1" "30 \<le> n"
    "\<forall>one. \<forall>j < 2. idle_slot n (mbytes c) (slot (item_area_at n one) j)"
    "cstr key kb" "cstr x va" "cstr y vb" "length va + 1 \<le> 256 * n" "length vb + 1 \<le> 256 * n"
    "256 * n < length v0 + length va + 2" "256 * n < length va + length vb + 2"
    "length v0 \<le> length vb" "msync_ok env"
  shows "\<exists>c1 c2 u1 u2 u3. pupa_store_set env c key x = Some (PUPA_OK, c1) \<and>
     pupa_get_by_ver c1 key 1 = Some (PUPA_OK, Some u1, refresh c1) \<and> denotes c1 u1 (stored va) \<and>
     pupa_store_set env (refresh c1) key y = Some (PUPA_OK, c2) \<and>
     pupa_get_by_ver c2 key 2 = Some (PUPA_OK, Some u2, refresh c2) \<and> denotes c2 u2 (stored va) \<and>
     pupa_get_by_ver c2 key 3 = Some (PUPA_OK, Some u3, refresh c2) \<and>
     denotes c2 u3 (take (length v0 + 1) (stored vb))"
proof -
  have l: "lone (view_of c) c (skey kb) [first_record (view_of c) v0]"
    by (rule one_value_lone [OF assms(1,4,5)]) (use assms(3,6,7) in auto)
  have it: "store_items c = W64 (i_base (view_of c))" using assms(2) by (simp add: synced_def)
  have room: "256 * v_keys (view_of c) < v_val_used (view_of c) + length va + 1"
    "256 * v_keys (view_of c) < length va + length vb + 2"
    "length va + 1 \<le> 256 * v_keys (view_of c)" "length vb + 1 \<le> 256 * v_keys (view_of c)"
    using assms(3,5,11-14) by simp_all
  have W: "W32 1 = 1" "W32 2 = 2" "W32 3 = 3" by (simp_all add: W32_def)
  have sync: "pupa_shm_sync env c' = PUPA_OK" for c' using assms(16) by (simp add: pupa_shm_sync_def)
  show ?thesis
    by (rule compact_twice [OF l it assms(8-10) room assms(15), where env = env],
        unfold pupa_get_by_ver_def W sync) blast
qed

theorem compaction_overwrites_value_witness:
  "\<exists>c1 c2 u. pupa_store_set env_good demo_wide (mk_str key_b) (mk_str (replicate 7679 65)) =
       Some (PUPA_OK, c1) \<and>
     pupa_store_set env_good (refresh c1) (mk_str key_b) (mk_str (replicate 7679 66)) =
       Some (PUPA_OK, c2) \<and>
     pupa_get_by_ver c2 (mk_str key_b) 3 = Some (PUPA_OK, Some u, refresh c2) \<and> denotes c2 u [66, 66]"
proof -
  have a: "cstr (mk_str key_b) key_b" "cstr (mk_str (replicate 7679 65)) (replicate 7679 65)"
    "cstr (mk_str (replicate 7679 66)) (replicate 7679 66)" "msync_ok env_good"
    by (simp_all add: cstr_mk_str env_good_def) (simp add: demo_keys)
  have t: "take (length [49 :: byte] + 1) (stored (replicate 7679 66)) = [66, 66]"
    by (simp add: stored_def numeral_eq_Suc)
  show ?thesis
    using compaction_overwrites_value [OF demo_wide_facts(1,2) refl demo_wide_facts(3), where x = "mk_str (replicate 7679 65)"
        and y = "mk_str (replicate 7679 66)" and va = "replicate 7679 65" and vb = "replicate 7679 66"
        and key = "mk_str key_b" and env = env_good] a t
    by (simp add: demo_wide_facts) blast
qed

section \<open>Opening and closing\<close>

text \<open>
  C27: Opening a missing or empty file for writing creates a well-formed, empty store for the
  number of keys asked for, in the context and in the file.
\<close>

theorem init_creates_store:
  assumes "empty_path d path" "file_len n < 2 ^ 31" "calls_ok env" "ctx_init c = 0"
  shows "\<exists>c' f. pupa_init env junk d c path (W32 n) PUPA_OP_TYPE_RW = Some (PUPA_OK, c', d(path \<mapsto> f)) \<and>
     maps_file c' f \<and> writer_ok c' \<and> synced c' \<and> store_map c' = Map.empty \<and>
     view_of c' = fresh_view n \<and> ctx_init c' = 1"
proof -
  obtain c' m where c': "pupa_init env junk d c path (W32 n) PUPA_OP_TYPE_RW =
      Some (PUPA_OK, c', d(path \<mapsto> fresh_file n m))" "opened c' (fresh_file n m) path True"
    using init_fresh [OF assms] by blast
  note o = opened_wf [OF c'(2) fresh_file_ok(1) [OF assms(2)]]
    and wr = opened_writer [OF c'(2) fresh_file_ok(1) [OF assms(2)]]
  show ?thesis
    using c' o wr fresh_file_ok [OF assms(2), of m]
    by (intro exI [of _ c'] exI [of _ "fresh_file n m"]) (simp add: opened_def)
qed

theorem init_creates_store_witness:
  "\<exists>c' f. pupa_init env_good zero_hdr Map.empty pupa_ctx_0 ''f'' (W32 1000) PUPA_OP_TYPE_RW =
     Some (PUPA_OK, c', [''f'' \<mapsto> f]) \<and> store_map c' = Map.empty"
proof -
  have "empty_path Map.empty ''f''" "file_len 1000 < 2 ^ 31" "ctx_init pupa_ctx_0 = 0"
    by (simp_all add: empty_path_def file_len_def pupa_ctx_0_def)
  from init_creates_store [OF this(1,2) env_good_ok(1) this(3), of zero_hdr] show ?thesis by auto
qed

text \<open>
  C28: Opening an existing store, to read or to write and whatever number of keys is given,
  shows exactly what the file holds and does not change it.
\<close>

theorem init_opens_store:
  assumes "d path = Some f" "file_ok f" "calls_ok env" "ctx_init c = 0"
    "op = PUPA_OP_TYPE_RO \<or> op = PUPA_OP_TYPE_RW"
  shows "\<exists>c'. pupa_init env junk d c path n op = Some (PUPA_OK, c', d) \<and>
     maps_file c' f \<and> store_wf c' \<and> synced c' \<and> store_map c' = file_map f \<and>
     (mwritable c' \<longleftrightarrow> op = PUPA_OP_TYPE_RW)"
proof -
  obtain c' where c': "pupa_init env junk d c path n op = Some (PUPA_OK, c', d)"
    "opened c' f path (op = PUPA_OP_TYPE_RW)"
    using init_existing [where d = d and path = path, OF assms(1-5)] by blast
  then show ?thesis
    using opened_wf [OF c'(2) assms(2)] by (intro exI [of _ c']) (simp add: opened_def)
qed

theorem init_opens_store_witness:
  "\<exists>f c'. pupa_init env_good zero_hdr [''f'' \<mapsto> f] pupa_ctx_0 ''f'' 0 PUPA_OP_TYPE_RO =
     Some (PUPA_OK, c', [''f'' \<mapsto> f]) \<and> store_map c' = [skey key_b \<mapsto> [stored [49]]]"
proof -
  obtain f where f: "file_ok f" "file_map f = [skey key_b \<mapsto> [stored [49]]]"
    using demo_tool by blast
  have c0: "ctx_init pupa_ctx_0 = 0" by (simp add: pupa_ctx_0_def)
  have "[''f'' \<mapsto> f] ''f'' = Some f" by simp
  from init_opens_store [where d = "[''f'' \<mapsto> f]" and path = "''f''", OF this f(1) env_good_ok(1) c0,
        where op = PUPA_OP_TYPE_RO and junk = zero_hdr and n = 0] f(2)
  show ?thesis by metis
qed

text \<open>
  C29: If \<open>mmap\<close> fails while a new file is set up, the file is left behind with its full size and
  a header of zeros. Every later \<open>pupa_init\<close> takes it for a store and succeeds, and every
  \<open>pupa_store_set\<close> then reports an overflow.
\<close>

theorem failed_init_leaves_full_store:
  assumes "d path = None" "file_len n < 2 ^ 31"
    "malloc_ok env" "open_ok env" "fstat_ok env" "ftruncate_ok env" "\<not> mmap_ok env" "calls_ok env2"
  shows "\<exists>c1 d1 c2. pupa_init env junk d pupa_ctx_0 path (W32 n) PUPA_OP_TYPE_RW = Some (PUPA_ERROR, c1, d1) \<and>
     pupa_init env2 junk d1 pupa_ctx_0 path (W32 n) PUPA_OP_TYPE_RW = Some (PUPA_OK, c2, d1) \<and>
     (\<forall>env3 key val. \<exists>c3. pupa_store_set env3 c2 key val = Some (PUPA_OVERFLOW, c3))"
proof -
  have c0: "ctx_init pupa_ctx_0 = 0" by (simp add: pupa_ctx_0_def)
  let ?f = "\<lparr>file_size = file_len n, file_bytes = (\<lambda>_. 0)\<rparr>"
  let ?d1 = "d(path \<mapsto> ?f)"
  obtain c1 where c1: "pupa_init env junk d pupa_ctx_0 path (W32 n) PUPA_OP_TYPE_RW =
      Some (PUPA_ERROR, c1, ?d1)"
    using init_mmap_fails [where d = d and path = path, OF assms(1,2) c0 assms(3-7)] by blast
  have f: "?d1 path = Some ?f" "file_bytes ?f = (\<lambda>_. 0)" "sizeof_hdr \<le> file_size ?f" "file_size ?f < 2 ^ 63"
    using assms(2) by (simp_all add: sizeof_hdr_def file_len_def)
  obtain c2 where c2: "pupa_init env2 junk ?d1 pupa_ctx_0 path (W32 n) PUPA_OP_TYPE_RW =
      Some (PUPA_OK, c2, ?d1)" "mapped c2" "mbytes c2 = (\<lambda>_. 0)" "msize c2 = file_len n"
    using open_zero_file [where d = ?d1 and path = path, OF f assms(8) c0] by auto
  have "sizeof_hdr \<le> msize c2" using f(3) c2(4) by simp
  then show ?thesis
    using c1 c2 zero_file_set [OF c2(2,3)] by (intro exI [of _ c1] exI [of _ ?d1] exI [of _ c2]) blast
qed

theorem failed_init_leaves_full_store_witness:
  "\<exists>c1 d1 c2. pupa_init (env_good\<lparr>mmap_ok := False\<rparr>) zero_hdr Map.empty pupa_ctx_0 ''f'' (W32 1000)
       PUPA_OP_TYPE_RW = Some (PUPA_ERROR, c1, d1) \<and>
     pupa_init env_good zero_hdr d1 pupa_ctx_0 ''f'' (W32 1000) PUPA_OP_TYPE_RW = Some (PUPA_OK, c2, d1) \<and>
     (\<exists>c3. pupa_store_set env_good c2 (mk_str key_b) (mk_str [49]) = Some (PUPA_OVERFLOW, c3))"
proof -
  have "Map.empty ''f'' = (None :: disk_file option)" "file_len 1000 < 2 ^ 31"
    by (simp_all add: file_len_def)
  moreover have "malloc_ok (env_good\<lparr>mmap_ok := False\<rparr>)" "open_ok (env_good\<lparr>mmap_ok := False\<rparr>)"
    "fstat_ok (env_good\<lparr>mmap_ok := False\<rparr>)" "ftruncate_ok (env_good\<lparr>mmap_ok := False\<rparr>)"
    "\<not> mmap_ok (env_good\<lparr>mmap_ok := False\<rparr>)"
    by (simp_all add: env_good_def)
  ultimately show ?thesis
    using failed_init_leaves_full_store [where d = Map.empty and path = "''f''" and n = 1000
        and env = "env_good\<lparr>mmap_ok := False\<rparr>", OF _ _ _ _ _ _ _ env_good_ok(1), of zero_hdr]
    by blast
qed

text \<open>
  C30: Closing and opening again in one process. While the context is open, \<open>pupa_init\<close> is
  refused. \<open>pupa_fini\<close> lets go of the mapping: closing again is harmless, every other operation
  but \<open>pupa_init\<close> faults, and no string that a lookup returned can be read any more. \<open>pupa_init\<close>
  then finds in the file what was written before, the last write included.
\<close>

theorem fini_then_reopen:
  assumes "writer_ok c" "ctx_init c \<noteq> 0" "cstr key kb" "cstr val vb" "set_ready c kb vb" "malloc_ok env"
    "munmap_ok env" "calls_ok env2" "op = PUPA_OP_TYPE_RO \<or> op = PUPA_OP_TYPE_RW"
  shows "\<exists>c1 d1 c2 c3.
     pupa_set env (c, d) key val = Some (if msync_ok env then PUPA_OK else PUPA_ERROR, c1, d1) \<and>
     pupa_init env2 junk d1 c1 (shm_path (shm c)) n op = Some (PUPA_ERROR, c1, d1) \<and>
     pupa_fini env c1 = (PUPA_OK, c2) \<and> pupa_fini env2 c2 = (PUPA_OK, c2) \<and>
     pupa_get c2 key0 = None \<and> pupa_get_by_ver c2 key0 ver = None \<and> pupa_get_all_ver c2 key0 = None \<and>
     pupa_set env2 (c2, d1) key0 val0 = None \<and> pupa_del env2 (c2, d1) key0 = None \<and>
     pupa_stats c2 = None \<and> (\<forall>a bs. cptr_bytes c2 (Off a) (length bs) = Some bs \<longrightarrow> bs = []) \<and>
     pupa_init env2 junk d1 c2 (shm_path (shm c)) n op = Some (PUPA_OK, c3, d1) \<and>
     store_wf c3 \<and> synced c3 \<and>
     store_map c3 = (work_map c)(skey kb \<mapsto> take 3 (stored vb # versions (work_map c (skey kb))))"
proof -
  obtain c1 where c1: "pupa_store_set env c key val = Some (pupa_shm_sync env c1, c1)"
    "shm c1 = shm c" "ctx_init c1 = ctx_init c" "writer_ok c1"
    "store_map c1 = (work_map c)(skey kb \<mapsto> take 3 (stored vb # versions (work_map c (skey kb))))"
    using set_any_key [OF assms(1,3-6)] by blast
  let ?d1 = "write_back c1 d" and ?c2 = "c1\<lparr>mapped := False, msize := 0, ctx_init := 0\<rparr>"
  have wf: "store_wf c1" "mapped c1" "mwritable c1"
    using writer_ok_wf [OF c1(4)] c1(4) by (auto simp: store_wf_def wf_view_def writer_ok_def writer_def)
  note mf = maps_fileD [OF maps_ctx_file [OF wf(2)]]
  have f: "?d1 (shm_path (shm c)) = Some (ctx_file c1)" "file_ok (ctx_file c1)"
    using wf mf by (simp_all add: write_back_def c1(2))
  have c20: "ctx_init ?c2 = 0" by simp
  obtain c3 where c3: "pupa_init env2 junk ?d1 ?c2 (shm_path (shm c)) n op = Some (PUPA_OK, c3, ?d1)"
    "opened c3 (ctx_file c1) (shm_path (shm c)) (op = PUPA_OP_TYPE_RW)"
    using init_existing [where d = ?d1 and path = "shm_path (shm c)", OF f assms(8) c20 assms(9)] by blast
  note o = opened_wf [OF c3(2) f(2)]
  have "pupa_init env2 junk ?d1 c1 (shm_path (shm c)) n op = Some (PUPA_ERROR, c1, ?d1)"
    using assms(2) c1(3) by (simp add: pupa_init_def)
  moreover have "pupa_fini env c1 = (PUPA_OK, ?c2)" "pupa_fini env2 ?c2 = (PUPA_OK, ?c2)"
    using assms(2,7) c1(3) by (simp_all add: pupa_fini_def pupa_store_fini_def pupa_shm_fini_def)
  moreover have "pupa_get ?c2 key0 = None" "pupa_get_by_ver ?c2 key0 ver = None"
    "pupa_get_all_ver ?c2 key0 = None" "pupa_set env2 (?c2, ?d1) key0 val0 = None"
    "pupa_del env2 (?c2, ?d1) key0 = None" "pupa_stats ?c2 = None"
    using unmapped_faults [of ?c2]
    by (simp_all add: pupa_get_def pupa_get_by_ver_def pupa_get_all_ver_def pupa_set_def pupa_del_def
        pupa_stats_def)
  moreover have "\<forall>a bs. cptr_bytes ?c2 (Off a) (length bs) = Some bs \<longrightarrow> bs = []"
    by (simp add: cptr_bytes_def ldn_def in_map_def)
  moreover have "store_map c3 = store_map c1" using o(2) mf(2) by simp
  ultimately show ?thesis
    using c1(1,5) c3(1) o(1,4)
    by (intro exI [of _ c1] exI [of _ ?d1] exI [of _ ?c2] exI [of _ c3])
      (simp add: pupa_set_def pupa_shm_sync_def)
qed


theorem fini_then_reopen_witness:
  "\<exists>c1 d1 c2 c3. pupa_set env_good (demo1\<lparr>ctx_init := 1\<rparr>, Map.empty) (mk_str key_b) (mk_str [51]) =
       Some (PUPA_OK, c1, d1) \<and>
     pupa_fini env_good c1 = (PUPA_OK, c2) \<and> pupa_get_by_ver c2 (mk_str key_b) 1 = None \<and>
     pupa_init env_good zero_hdr d1 c2 (shm_path (shm demo1)) 0 PUPA_OP_TYPE_RO = Some (PUPA_OK, c3, d1) \<and>
     store_map c3 = [skey key_b \<mapsto> [stored [51], stored [49]]]"
proof -
  let ?c = "demo1\<lparr>ctx_init := 1\<rparr>"
  have wv: "wf_view s ?c = wf_view s demo1" for s by (rule wf_view_cong) simp_all
  have v: "view_of ?c = view_of demo1" by (rule view_of_cong) simp
  have w: "writer_ok ?c" "work_map ?c = work_map demo1"
    using demo1_facts(1) by (simp_all add: writer_ok_def writer_def wv v work_map_def work_entries_def)
  then have r: "set_ready ?c key_b [51]" using demo1_rewrite(3,4) v
    by (simp add: set_ready_def)
  have m: "ctx_init ?c \<noteq> 0" "munmap_ok env_good" "shm ?c = shm demo1" by (simp_all add: env_good_def)
  show ?thesis
    using fini_then_reopen [OF w(1) m(1) demo1_rewrite(1,2) r demo_sync(2) m(2) env_good_ok(1)
        disjI1 [OF refl], of Map.empty zero_hdr 0 "mk_str key_b" 1 "mk_str [51]"] w(2)
    by (fastforce simp: m(3) demo1_facts env_good_def)
qed

text \<open>
  C31: Numbers of keys whose layout does not fit into an \<open>int\<close>: the size is that of the layout
  modulo \<open>2 ^ 32\<close>. If it is negative, \<open>pupa_init\<close> fails and leaves an empty file. If it is not,
  and there is space for the header, \<open>pupa_init\<close> succeeds with a file that is too small for the
  number of keys in its header; when its end is before the second index area, the first
  \<open>pupa_store_set\<close> is a memory fault.
\<close>

theorem init_layout_wraps:
  assumes "2 ^ 31 \<le> layout_total n 3" "n < 2 ^ 31" "sz = layout_total n 3 mod 2 ^ 32"
    "d path = None" "calls_ok env" "ctx_init c = 0"
  shows "(2 ^ 31 \<le> sz \<longrightarrow> (\<exists>c'. pupa_init env junk d c path (W32 n) PUPA_OP_TYPE_RW =
       Some (PUPA_ERROR, c', d(path \<mapsto> empty_file)))) \<and>
     (128 \<le> sz \<and> sz < 2 ^ 31 \<longrightarrow> (\<exists>c' f. pupa_init env junk d c path (W32 n) PUPA_OP_TYPE_RW =
         Some (PUPA_OK, c', d(path \<mapsto> f)) \<and>
       file_size f = sz \<and> \<not> file_ok f \<and> sec_size (item_section (rd_hdr (file_bytes f))) = W64 n \<and>
       (n < 2 ^ 25 \<and> sz \<le> 16 * n + 176 \<longrightarrow>
          (\<forall>env' key kb val. cstr key kb \<and> length kb < 64 * n \<longrightarrow> pupa_store_set env' c' key val = None))))"
proof (intro conjI impI)
  assume "2 ^ 31 \<le> sz"
  then show "\<exists>c'. pupa_init env junk d c path (W32 n) PUPA_OP_TYPE_RW =
       Some (PUPA_ERROR, c', d(path \<mapsto> empty_file))"
    using init_too_large [where d = d and path = path, OF _ assms(2,4-6)] assms(3) by simp
next
  assume "128 \<le> sz \<and> sz < 2 ^ 31"
  then obtain c' f where f: "pupa_init env junk d c path (W32 n) PUPA_OP_TYPE_RW =
      Some (PUPA_OK, c', d(path \<mapsto> f))" "file_size f = sz" "maps_file c' f"
    "rd_hdr (file_bytes f) = snd (pupa_store_init (W32 n) 3)"
    using init_wraps_small [where d = d and path = path, OF assms(3) _ _ assms(2,4-6)] by blast
  have c': "mapped c'" "msize c' = sz" "rd_hdr (mbytes c') = snd (pupa_store_init (W32 n) 3)"
    using f(2-4) by (simp_all add: maps_file_def)
  have "\<not> file_ok f" by (rule wrapped_not_ok [OF f(2) [unfolded assms(3)] f(4) assms(2,1)])
  moreover have "sec_size (item_section (rd_hdr (file_bytes f))) = W64 n"
    by (simp add: f(4) init_wraps [OF assms(2)])
  moreover have "n < 2 ^ 25 \<and> sz \<le> 16 * n + 176 \<longrightarrow>
      (\<forall>env' key kb val. cstr key kb \<and> length kb < 64 * n \<longrightarrow> pupa_store_set env' c' key val = None)"
    using wrapped_set_faults [OF c'(1) _ _ c'(3)] \<open>128 \<le> sz \<and> sz < 2 ^ 31\<close> c'(2) by blast
  ultimately show "\<exists>c' f. pupa_init env junk d c path (W32 n) PUPA_OP_TYPE_RW =
         Some (PUPA_OK, c', d(path \<mapsto> f)) \<and>
       file_size f = sz \<and> \<not> file_ok f \<and> sec_size (item_section (rd_hdr (file_bytes f))) = W64 n \<and>
       (n < 2 ^ 25 \<and> sz \<le> 16 * n + 176 \<longrightarrow>
          (\<forall>env' key kb val. cstr key kb \<and> length kb < 64 * n \<longrightarrow> pupa_store_set env' c' key val = None))"
    using f(1,2) by blast
qed

theorem init_layout_wraps_witness:
  "(\<exists>c'. pupa_init env_good zero_hdr Map.empty pupa_ctx_0 ''f'' (W32 3195661) PUPA_OP_TYPE_RW =
     Some (PUPA_ERROR, c', [''f'' \<mapsto> empty_file])) \<and>
   (\<exists>c' f. pupa_init env_good zero_hdr Map.empty pupa_ctx_0 ''f'' (W32 6391321) PUPA_OP_TYPE_RW =
     Some (PUPA_OK, c', [''f'' \<mapsto> f]) \<and> file_size f = 640 \<and>
     pupa_store_set env_good c' (mk_str key_b) (mk_str [49]) = None)"
proof -
  have e: "Map.empty ''f'' = (None :: disk_file option)" "calls_ok env_good" "ctx_init pupa_ctx_0 = 0"
    by (simp_all add: env_good_ok pupa_ctx_0_def)
  have t: "layout_total 3195661 3 = 2147484416" "layout_total 6391321 3 = 4294967936"
    by (simp_all add: layout_total_3 file_len_def)
  have k: "cstr (mk_str key_b) key_b" "length key_b < 64 * 6391321" by (simp_all add: demo_keys)
  show ?thesis
    using init_layout_wraps [where d = Map.empty and path = "''f''" and n = 3195661, OF _ _ refl e]
      init_layout_wraps [where d = Map.empty and path = "''f''" and n = 6391321, OF _ _ refl e] k
    by (fastforce simp: t)
qed

section \<open>The layout\<close>

text \<open>
  C32: The areas \<open>pupa_store_init\<close> lays out follow each other from byte 128 to the size it
  returns, two of equal size for index, keys and values; but an index area has
  \<open>16 * (n + ver)\<close> bytes, too few for the \<open>n\<close> entries it admits as soon as \<open>n\<close> is 2.
\<close>

theorem layout_areas:
  assumes "layout_total n v < 2 ^ 31" "1 \<le> v"
  shows "let (size, h) = pupa_store_init (W32 n) (W32 v);
         i = item_section h; k = key_section h; w = value_section h; area = 16 * (n + v) in
     unat (sec1_offset i) = 128 \<and> unat (sec2_offset i) = 128 + area \<and>
     unat (sec1_offset k) = unat (sec2_offset i) + area \<and>
     unat (sec2_offset k) = unat (sec1_offset k) + unat (sec_size k) \<and>
     unat (sec1_offset w) = unat (sec2_offset k) + unat (sec_size k) \<and>
     unat (sec2_offset w) = unat (sec1_offset w) + unat (sec_size w) \<and>
     unat size = unat (sec2_offset w) + unat (sec_size w) \<and>
     (area < unat (sec_size i) * unat (item_stride h) \<longleftrightarrow> 2 \<le> n)"
proof -
  have b: "128 + 2 * (16 * n + 16 * v) + 640 * n < 2 ^ 31"
    using assms by (simp add: layout_total_def item_area_def)
  have st: "item_stride (layout_hdr n v) = W64 (16 + 16 * v)"
    using b by (simp add: item_stride_def item_len_def layout_hdr_def sizeofs scast_32_64
        ucast_64_32 addr_simps mult.commute)
  have u: "unat (W64 x) = x" if "x < 2 ^ 31" for x using that by (simp add: unat_W64)
  have "16 * (n + v) < n * (16 + 16 * v) \<longleftrightarrow> 2 \<le> n"
  proof (cases "2 \<le> n")
    case True
    then obtain k where "n = k + 2" by (metis add.commute le_iff_add)
    then show ?thesis using assms(2) by (simp add: algebra_simps)
  next
    case False
    then have "n = 0 \<or> n = 1" by auto
    then show ?thesis by auto
  qed
  moreover have "unat (W32 (layout_total n v)) = layout_total n v"
    using assms(1) by (simp add: unat_W32)
  moreover have "unat (W64 (16 + 16 * v)) = 16 + 16 * v" using b by (intro u) simp
  ultimately show ?thesis
    using b
    by (simp add: pupa_store_init_eq [OF assms(1)] Let_def st)
      (simp add: layout_hdr_def u layout_total_def item_area_def)
qed

theorem layout_areas_witness:
  "let (size, h) = pupa_store_init (W32 1000) (W32 3) in
     unat size = 672224 \<and> 16 * (1000 + 3) < unat (sec_size (item_section h)) * unat (item_stride h)"
proof -
  have t: "layout_total 1000 3 < 2 ^ 31" by (simp add: layout_total_def item_area_def)
  have u: "unat (W64 x) = x" if "x < 2 ^ 31" for x using that by (simp add: unat_W64)
  show ?thesis
    using layout_areas [OF t] by (simp add: pupa_store_init_eq [OF t] Let_def)
      (simp add: layout_hdr_def u item_area_def)
qed

section \<open>The order of the index\<close>

text \<open>
  C33: On a well-formed store the comparison function does not fault on any entry and its sign is
  the order of the keys, shorter keys first; so the binary search finds every present key at its
  entry and no other.
\<close>

theorem search_finds_key:
  assumes "store_wf c" "cstr key kb"
  shows "(\<forall>i < length (store_entries c). \<exists>r.
       pupa_store_item_compare (refresh c) (probe key) (W64 (i_base (view_of c) + 64 * i)) = Some r \<and>
       cmp_sign r (skey kb) (fst (store_entries c ! i))) \<and>
     (\<exists>r. bsearch (pupa_store_item_compare (refresh c) (probe key)) (W64 (i_base (view_of c)))
         (W64 (v_used (view_of c))) 64 = Some r \<and>
       (case r of
          None \<Rightarrow> skey kb \<notin> fst ` set (store_entries c)
        | Some p \<Rightarrow> \<exists>i < length (store_entries c). p = W64 (i_base (view_of c) + 64 * i) \<and>
            fst (store_entries c ! i) = skey kb))"
proof -
  let ?s = "view_of c"
  have wv: "wf_view ?s c" using assms(1) by (simp add: store_wf_def)
  note w = wf_viewD [OF wv]
  have cmp: "compares_to (pupa_store_item_compare (refresh c) (probe key)) (W64 (i_base ?s)) 64
      (skey kb) (map fst (entries (mbytes (refresh c)) (i_base ?s) (v_used ?s)))"
    by (rule compares_to_probe [where s = ?s])
      (use wf_view_item [OF wv, THEN item_ok_key_ok] w index_fits [OF wf_searchable [OF wv]] assms(2) in \<open>simp_all add: refresh_def file_len_def\<close>)
  have a: "W64 (i_base ?s) + W64 i * 64 = W64 (i_base ?s + 64 * i)" for i
    by (simp add: addr_simps mult.commute)
  have "\<forall>i < length (store_entries c). \<exists>r.
       pupa_store_item_compare (refresh c) (probe key) (W64 (i_base ?s + 64 * i)) = Some r \<and>
       cmp_sign r (skey kb) (fst (store_entries c ! i))"
    using cmp [unfolded compares_to_def]
    by (simp add: a store_entries_view [OF wv]) (simp add: refresh_def)
  moreover have "\<exists>r. bsearch (pupa_store_item_compare (refresh c) (probe key)) (W64 (i_base ?s))
         (W64 (v_used ?s)) 64 = Some r \<and>
       (case r of
          None \<Rightarrow> skey kb \<notin> fst ` set (store_entries c)
        | Some p \<Rightarrow> \<exists>i < length (store_entries c). p = W64 (i_base ?s + 64 * i) \<and>
            fst (store_entries c ! i) = skey kb)"
  proof (cases "skey kb \<in> fst ` set (store_entries c)")
    case True
    then obtain i where i: "i < v_used ?s" "item_key (mbytes c) (i_base ?s + 64 * i) = skey kb"
      by (auto simp: store_entries_view [OF wv] in_set_conv_nth entry_def)
    then show ?thesis
      using lookup_search(1) [OF wv assms(2) i] by (auto simp: store_entries_view [OF wv] entry_def)
  next
    case False
    then have "store_map c (skey kb) = None" by (simp add: store_map_def map_of_eq_None_iff)
    then show ?thesis using lookup_search(2) [OF wv assms(2)] False by simp
  qed
  ultimately show ?thesis by blast
qed

theorem search_finds_key_witness:
  "\<exists>r. bsearch (pupa_store_item_compare (refresh demo2) (probe (mk_str key_c)))
     (W64 (i_base (view_of demo2))) (W64 (v_used (view_of demo2))) 64 = Some (Some r)"
proof -
  have c: "cstr (mk_str key_c) key_c" by (simp add: demo_keys)
  have "store_entries demo2 = work_entries demo2"
    using synced_work_entries [OF demo2_facts(1,2)] by simp
  then have "skey key_c \<in> fst ` set (store_entries demo2)" by (simp add: demo2_facts)
  then show ?thesis using search_finds_key [OF demo2_facts(3) c] by (auto split: option.splits)
qed

section \<open>Edges\<close>

text \<open>
  C34: \<open>pupa_get\<close> asks for version 0 and gets, with \<open>PUPA_OK\<close>, the bytes of the next key of the
  index instead of a value.
\<close>

theorem get_returns_next_key:
  assumes "store_wf c" "cstr key kb" "i + 1 < length (store_entries c)"
    "fst (store_entries c ! i) = skey kb"
  shows "\<exists>v. pupa_get c key = Some (PUPA_OK, Some v, refresh c) \<and>
     denotes (refresh c) v (key_bytes (fst (store_entries c ! (i + 1))))"
  by (rule get_version_0 [OF assms])

theorem get_returns_next_key_witness:
  "\<exists>v. pupa_get demo2 (mk_str key_b) = Some (PUPA_OK, Some v, refresh demo2) \<and>
     denotes (refresh demo2) v (stored key_c)"
proof -
  have c: "cstr (mk_str key_b) key_b" by (simp add: demo_keys)
  have e: "store_entries demo2 = [(skey key_b, [stored [49]]), (skey key_c, [stored [50]])]"
    using synced_work_entries [OF demo2_facts(1,2)] by (simp add: demo2_facts)
  show ?thesis using get_returns_next_key [OF demo2_facts(3) c, of 0] by (simp add: e)
qed

text \<open>
  C35: Setting or deleting through a store that was opened read-only and has entries is a memory
  fault, not an error code: both start by writing the snapshot of the index.
\<close>

theorem read_only_writes_fault:
  assumes "store_wf c" "\<not> mwritable c" "0 < v_used (view_of c)"
  shows "pupa_store_set env c key val = None \<and> pupa_store_del env c key = None"
  using snapshot_read_only [OF assms] by (simp_all add: pupa_store_set_def pupa_store_del_def)

theorem read_only_writes_fault_witness:
  "pupa_store_set env_good (demo1\<lparr>mwritable := False\<rparr>) (mk_str key_c) (mk_str [50]) = None"
proof -
  have "store_wf (demo1\<lparr>mwritable := False\<rparr>)"
    using demo1_facts(5) wf_cong [of "demo1\<lparr>mwritable := False\<rparr>" demo1] by simp
  moreover have "view_of (demo1\<lparr>mwritable := False\<rparr>) = view_of demo1" by (rule view_of_cong) simp
  then have "0 < v_used (view_of (demo1\<lparr>mwritable := False\<rparr>))" by (simp add: demo1_facts)
  ultimately show ?thesis
    using read_only_writes_fault [of "demo1\<lparr>mwritable := False\<rparr>"] by simp
qed

text \<open>
  C36: Two writes that are refused with \<open>PUPA_OVERFLOW\<close> and leave the visible store as it was. The
  first is a new key when the count has reached the capacity; on a well-formed store this can
  happen for a capacity of 0 or 1 only, since a larger index area is full before (C32). The second
  is a value that no value section can hold, in an empty store of any capacity; the space of the
  key stays taken.
\<close>

theorem set_overflows:
  assumes "writer_ok c" "cstr key kb" "cstr val vb" "work_map c (skey kb) = None"
  shows "(v_used (view_of c) = v_keys (view_of c) \<longrightarrow> v_keys (view_of c) \<le> 1 \<and>
       (\<exists>c'. pupa_store_set env c key val = Some (PUPA_OVERFLOW, c') \<and> store_wf c' \<and>
          store_map c' = store_map c \<and> view_of c' = view_of c)) \<and>
     (v_used (view_of c) = 0 \<and> 0 < v_keys (view_of c) \<and> 256 * v_keys (view_of c) \<le> length vb \<and>
      v_key_used (view_of c) + length kb + 1 \<le> 64 * v_keys (view_of c) \<longrightarrow>
       (\<exists>c'. pupa_store_set env c key val = Some (PUPA_OVERFLOW, c') \<and> store_wf c' \<and>
          store_map c' = store_map c \<and>
          view_of c' = (view_of c)\<lparr>v_key_used := v_key_used (view_of c) + length kb + 1\<rparr>))"
proof (intro conjI impI)
  have w: "writer (view_of c) c (unat (store_items c))" using assms(1) by (simp add: writer_ok_def)
  {
    assume full: "v_used (view_of c) = v_keys (view_of c)"
    show "v_keys (view_of c) \<le> 1" by (rule writer_full_small [OF w full])
    have new: "skey kb \<notin> fst ` set (entries (mbytes c) (unat (store_items c)) (v_used (view_of c)))"
      using assms(4) by (simp add: work_map_def writer_work [OF w] map_of_eq_None_iff)
    note s = start_ctx_wf [OF w]
    show "\<exists>c'. pupa_store_set env c key val = Some (PUPA_OVERFLOW, c') \<and> store_wf c' \<and>
        store_map c' = store_map c \<and> view_of c' = view_of c"
      using set_full [OF w assms(2) full new] wf_view_wf [OF s(1)] s(2) wf_view_view [OF s(1)] by blast
  next
    assume e: "v_used (view_of c) = 0 \<and> 0 < v_keys (view_of c) \<and> 256 * v_keys (view_of c) \<le> length vb \<and>
      v_key_used (view_of c) + length kb + 1 \<le> 64 * v_keys (view_of c)"
    let ?s2 = "(view_of c)\<lparr>v_key_used := v_key_used (view_of c) + length kb + 1\<rparr>"
    obtain c' where c': "pupa_store_set env c key val = Some (PUPA_OVERFLOW, c')" "wf_view ?s2 c'"
      using set_value_too_long [OF w assms(2,3)] e by blast
    have "store_map c = Map.empty" "store_map c' = Map.empty"
      using e store_entries_view [OF c'(2)] store_entries_view [OF writerD(1) [OF w]]
      by (simp_all add: store_map_def entries_def)
    then show "\<exists>c'. pupa_store_set env c key val = Some (PUPA_OVERFLOW, c') \<and> store_wf c' \<and>
        store_map c' = store_map c \<and> view_of c' = ?s2"
      using c'(1) wf_view_wf [OF c'(2)] wf_view_view [OF c'(2)] by auto
  }
qed

theorem set_overflows_witness:
  "(\<exists>c'. pupa_store_set env_good demo_full (mk_str key_c) (mk_str [50]) = Some (PUPA_OVERFLOW, c')) \<and>
   (\<exists>c'. pupa_store_set env_good demo0 (mk_str key_b) (mk_str (replicate 4096 49)) = Some (PUPA_OVERFLOW, c') \<and>
     store_map c' = Map.empty \<and> v_key_used (view_of c') = 2)"
proof -
  have a: "cstr (mk_str key_c) key_c" "cstr (mk_str [50]) [50]" "work_map demo_full (skey key_c) = None"
    "v_used (view_of demo_full) = v_keys (view_of demo_full)"
    using key_order(1) by (auto simp: demo_full_facts) (simp_all add: demo_keys)
  have b: "cstr (mk_str key_b) key_b" "cstr (mk_str (replicate 4096 49)) (replicate 4096 49)"
    "work_map demo0 (skey key_b) = None"
    by (simp_all add: demo_keys cstr_mk_str demo0_facts)
  have v: "v_used (view_of demo0) = 0" "v_keys (view_of demo0) = 16" "v_key_used (view_of demo0) = 0" "length key_b = 1"
    by (simp_all add: demo0_facts demo_view) (simp add: demo_keys)
  show ?thesis
    using set_overflows [OF demo_full_facts(1) a(1-3)] a(4) set_overflows [OF demo0_facts(1) b] v
    by (fastforce simp: demo0_facts(3))
qed

section \<open>Statistics\<close>

text \<open>
  C37: The text of \<open>pupa_store_stats\<close> fits into its buffer of 1024 bytes for every header, and
  the numbers in it are the fields of the three sections (and the digits of the names).
\<close>

theorem stats_fit_and_report:
  "length (stats_text h) + 1 \<le> 1024 \<and>
   numbers (stats_text h) = section_numbers (item_section h) @ section_numbers (key_section h) @
     section_numbers (value_section h)"
  using stats_text_length numbers_stats_text by blast

text \<open>
  C38: \<open>pupa_stats\<close> walks over the index in steps of 0, 1, 2, ... entries: it succeeds exactly when
  the entry at the triangular number of the count, from both index pointers, is still inside
  the file, and reads beyond the mapping otherwise.
\<close>

theorem stats_walk:
  assumes "store_wf c" "store_items c = W64 b" "b < 2 ^ 31" "store_items_snapshot c = W64 q" "q < 2 ^ 31"
  shows "pupa_stats c =
     (let u = v_used (view_of c); m = file_len (v_keys (view_of c)) in
      if u = 0 \<or> b + 64 * tri u + 16 \<le> m \<and> q + 64 * tri u + 16 \<le> m
      then Some (PUPA_OK, stats_text (view_hdr (view_of c))) else None)"
proof -
  have wv: "wf_view (view_of c) c" using assms(1) by (simp add: store_wf_def)
  show ?thesis
    using pupa_store_dump_eq [OF wv assms(2-5)] stats_text_length [of "view_hdr (view_of c)"]
    by (simp add: pupa_stats_def pupa_store_stats_def load_hdr_wf [OF wv] Let_def)
qed

theorem stats_walk_witness:
  "pupa_stats (demo2\<lparr>store_items := W64 128, store_items_snapshot := W64 432\<rparr>) =
     Some (PUPA_OK, stats_text (view_hdr (view_of demo2)))"
proof -
  let ?c = "demo2\<lparr>store_items := W64 128, store_items_snapshot := W64 432\<rparr>"
  have w: "store_wf ?c" using demo2_facts(3) wf_cong [of ?c demo2] by simp
  have v: "view_of ?c = view_of demo2" by (rule view_of_cong) simp
  show ?thesis
    using stats_walk [OF w, of 128 432]
    by (simp add: v) (simp add: demo2_facts file_len_def numeral_2_eq_2)
qed

section \<open>The bindings\<close>

text \<open>
  C39: The \<open>get\<close> functions of the Lua, Java and PHP bindings call \<open>pupa_get\<close>, so for a key that
  is not the largest each of them returns the next key of the index as the value.
\<close>

theorem bindings_get_next_key:
  assumes "store_wf c" "0 \<notin> set kb" "length kb + 1 < 2 ^ 31" "i + 1 < length (store_entries c)"
    "fst (store_entries c ! i) = skey kb" "fst (store_entries c ! (i + 1)) = skey kb'"
  shows "lua_get (Inr kb) (c, d) = Some (Lua_return [Lua_str (c_text kb'), Lua_nil], refresh c, d) \<and>
     java_get (Some kb) (c, d) = Some (c_text kb', refresh c, d) \<and>
     php_get (Some kb) (c, d) = Some (Php_string (c_text kb'), refresh c, d)"
proof -
  have t: "c_text (stored kb') = c_text kb'"
    by (induction kb') (auto simp: c_text_def stored_def)
  have z: "0 \<in> set (stored kb')" by (simp add: stored_def)
  have "\<exists>v. pupa_get c key = Some (PUPA_OK, Some v, refresh c) \<and> denotes (refresh c) v (stored kb')"
    if "cstr key kb" for key
    using get_version_0 [OF assms(1) that assms(4,5)] assms(6) by simp
  from get_functions [OF this assms(2,3) z, of d] show ?thesis by (simp add: t)
qed

theorem bindings_get_next_key_witness:
  "lua_get (Inr key_b) (demo2, Map.empty) =
     Some (Lua_return [Lua_str key_c, Lua_nil], refresh demo2, Map.empty)"
proof -
  have e: "store_entries demo2 = [(skey key_b, [stored [49]]), (skey key_c, [stored [50]])]"
    using synced_work_entries [OF demo2_facts(1,2)] by (simp add: demo2_facts)
  have c: "c_text key_c = key_c" "0 \<notin> set key_b" "length key_b + 1 < 2 ^ 31"
    by (simp_all add: c_text_def demo_keys)
  show ?thesis
    using bindings_get_next_key [OF demo2_facts(3) c(2,3), where i = 0 and kb' = key_c] c(1)
    by (simp add: e)
qed

text \<open>
  C40: The \<open>set\<close> functions of the bindings change the store as \<open>pupa_store_set\<close> does and report
  its result. The Lua binding cuts keys and values at the first zero byte, the PHP binding stores
  them whole. For strings without a zero byte there is no difference, and the Java binding, which
  gets no others from \<open>GetStringUTFChars\<close>, does the same.
\<close>

theorem bindings_set:
  assumes "writer_ok c" "set_ready c (c_text kb) (c_text vb)" "set_ready c kb vb" "malloc_ok env"
    "length kb + 1 < 2 ^ 31" "length vb + 1 < 2 ^ 31"
    "upd = (\<lambda>k v. (work_map c)(skey k \<mapsto> take 3 (stored v # versions (work_map c (skey k)))))"
  shows "\<exists>c1 c2.
     lua_set env (Inr kb) (Inr vb) (c, d) = Some (if msync_ok env then Lua_return [Lua_nil]
       else Lua_error (ascii ''Failed to perform pupa_set.''), c1, write_back c1 d) \<and>
     store_wf c1 \<and> store_map c1 = upd (c_text kb) (c_text vb) \<and>
     php_set env (Some (kb, vb)) (c, d) = Some (Php_bool (msync_ok env), c2, write_back c2 d) \<and>
     store_wf c2 \<and> store_map c2 = upd kb vb \<and>
     (utf_chars kb \<and> utf_chars vb \<longrightarrow> c1 = c2 \<and> java_set env (Some kb) (Some vb) (c, d) =
       Some (if msync_ok env then JAVA_TRUE else JAVA_FALSE, c2, write_back c2 d))"
proof -
  have cut: "cstr (strlen_str kb) (c_text kb)" "cstr (strlen_str vb) (c_text vb)"
    using assms(5,6) c_text_length [of kb] c_text_length [of vb] by (simp_all add: cstr_strlen)
  have whole: "cstr (mk_str kb) kb" "cstr (mk_str vb) vb" using assms(5,6) by (simp_all add: cstr_mk_str)
  have same: "strlen_str bs = mk_str bs" if "utf_chars bs" for bs
  proof -
    have "c_text bs = bs" using that by (auto simp: c_text_def utf_chars_def)
    then show ?thesis by (simp add: strlen_str_def mk_str_def)
  qed
  obtain c1 where c1: "pupa_store_set env c (strlen_str kb) (strlen_str vb) =
      Some (pupa_shm_sync env c1, c1)" "writer_ok c1" "store_map c1 = upd (c_text kb) (c_text vb)"
    using set_any_key [OF assms(1) cut assms(2,4)] assms(7) by blast
  obtain c2 where c2: "pupa_store_set env c (mk_str kb) (mk_str vb) =
      Some (pupa_shm_sync env c2, c2)" "writer_ok c2" "store_map c2 = upd kb vb"
    using set_any_key [OF assms(1) whole assms(3,4)] assms(7) by blast
  have "c1 = c2" if "utf_chars kb" "utf_chars vb" using c1(1) c2(1) same that by simp
  then show ?thesis
    using c1 c2 writer_ok_wf same
    by (intro exI [of _ c1] exI [of _ c2])
      (simp add: lua_set_def java_set_def php_set_def pupa_set_def pupa_shm_sync_def return_codes)
qed

theorem bindings_set_witness:
  "(\<exists>c1 c2. lua_set env_good (Inr [98, 0, 99]) (Inr [50]) (demo0, Map.empty) =
       Some (Lua_return [Lua_nil], c1, write_back c1 Map.empty) \<and>
     store_map c1 = [skey key_b \<mapsto> [stored [50]]] \<and>
     php_set env_good (Some ([98, 0, 99], [50])) (demo0, Map.empty) =
       Some (Php_bool True, c2, write_back c2 Map.empty) \<and>
     store_map c2 = [skey [98, 0, 99] \<mapsto> [stored [50]]]) \<and>
   (\<exists>c2. java_set env_good (Some key_b) (Some [50]) (demo0, Map.empty) =
       Some (JAVA_TRUE, c2, write_back c2 Map.empty) \<and>
     store_map c2 = [skey key_b \<mapsto> [stored [50]]])"
proof -
  have t: "c_text [98, 0, 99] = key_b" "c_text [50] = [50]" "c_text key_b = key_b"
    by (simp_all add: c_text_def demo_keys)
  have r: "set_ready demo0 (c_text [98, 0, 99]) (c_text [50])" "set_ready demo0 [98, 0, 99] [50]"
    "set_ready demo0 (c_text key_b) (c_text [50])" "set_ready demo0 key_b [50]"
    unfolding t by (simp_all add: set_ready_def demo0_facts(6) demo0_room demo0_returns demo_keys)
  have z: "utf_chars key_b" "utf_chars [50]" "length key_b + 1 < 2 ^ 31"
    by (simp_all add: utf_chars_def demo_keys)
  show ?thesis
  proof (rule conjI, goal_cases)
    case 1
    then show ?case
      using bindings_set [OF demo0_facts(1) r(1,2) demo_sync(2) _ _ refl, of Map.empty] t
      by (auto simp: env_good_def demo0_facts versions_def)
  next
    case 2
    then show ?case
      using bindings_set [OF demo0_facts(1) r(3,4) demo_sync(2) z(3) _ refl, of Map.empty] t z(1,2)
      by (auto simp: env_good_def demo0_facts versions_def)
  qed
qed

end
